(* ===== verification/Prelude.thy ===== *)
theory Prelude
  imports Main "HOL-Library.Word"
begin

text \<open>
  Shared vocabulary of the development: exceptional results, byte strings, half-open
  iterator ranges over a buffer, decimal numerals, and the part of Boost the program
  calls (a record of functions, because Boost is not part of the repository).
  The collections \<open>range_simps\<close> and \<open>boost_laws\<close> are filled here and in the
  component theories.
\<close>

named_theorems range_simps \<open>scanning loops as list functions over a range\<close>
named_theorems boost_laws \<open>documented behaviour of the Boost functions\<close>

section \<open>Characters\<close>

text \<open>\<open>std::string\<close> and \<open>std::vector< char >\<close> are both modelled by \<open>string\<close>.\<close>

abbreviation HT :: char where "HT \<equiv> CHR 0x09"
abbreviation LF :: char where "LF \<equiv> CHR 0x0A"
abbreviation CR :: char where "CR \<equiv> CHR 0x0D"
abbreviation SP :: char where "SP \<equiv> CHR 0x20"
abbreviation NUL :: char where "NUL \<equiv> CHR 0x00"
abbreviation CRLF :: string where "CRLF \<equiv> [CR, LF]"

section \<open>Iterator ranges\<close>

text \<open>
  An iterator into a buffer is an index; \<open>seg b i j\<close> is the sequence in \<open>[i, j)\<close>.
\<close>

definition seg :: "'a list \<Rightarrow> nat \<Rightarrow> nat \<Rightarrow> 'a list" where
  "seg b i j = take (j - i) (drop i b)"

lemma seg_same [simp]: "seg b i i = []"
  by (simp add: seg_def)

lemma seg_le [simp]: "j \<le> i \<Longrightarrow> seg b i j = []"
  by (simp add: seg_def)

lemma seg_full [simp]: "seg b 0 (length b) = b"
  by (simp add: seg_def)

lemma seg_to_end [simp]: "seg b i (length b) = drop i b"
  by (simp add: seg_def)

lemma length_seg [simp]: "i \<le> j \<Longrightarrow> j \<le> length b \<Longrightarrow> length (seg b i j) = j - i"
  by (simp add: seg_def)

lemma seg_Cons: "i < j \<Longrightarrow> j \<le> length b \<Longrightarrow> seg b i j = b ! i # seg b (Suc i) j"
  by (simp add: seg_def Cons_nth_drop_Suc [symmetric] Suc_diff_Suc take_Cons')

lemma takeWhile_seg:
  "j \<le> length b \<Longrightarrow> takeWhile P (seg b i j)
     = (if i < j \<and> P (b ! i) then b ! i # takeWhile P (seg b (Suc i) j) else [])"
  by (cases "i < j") (simp_all add: seg_Cons)

lemma seg_append_mid:
  "seg (xs @ ys @ zs) (length xs) (length xs + length ys) = ys"
  by (simp add: seg_def)

lemma seg_prefix [simp]: "i \<le> j \<Longrightarrow> j \<le> length xs \<Longrightarrow> seg (xs @ ys) i j = seg xs i j"
  by (simp add: seg_def)

lemma seg_shift: "seg (xs @ ys) (length xs + i) (length xs + j) = seg ys i j"
  by (simp add: seg_def)

lemma seg_snoc: "i \<le> j \<Longrightarrow> j < length b \<Longrightarrow> seg b i (Suc j) = seg b i j @ [b ! j]"
  by (simp add: seg_def Suc_diff_le take_Suc_conv_app_nth)

section \<open>Lists\<close>

lemma takeWhile_all [simp]: "(\<forall>x\<in>set xs. P x) \<Longrightarrow> takeWhile P xs = xs"
  by (simp add: takeWhile_eq_all_conv)

lemma takeWhile_append_stop:
  "(\<forall>x\<in>set xs. P x) \<Longrightarrow> ys = [] \<or> \<not> P (hd ys) \<Longrightarrow> takeWhile P (xs @ ys) = xs"
  by (cases ys) (auto simp: takeWhile_append2)

lemma dropWhile_append_stop:
  "(\<forall>x\<in>set xs. P x) \<Longrightarrow> ys = [] \<or> \<not> P (hd ys) \<Longrightarrow> dropWhile P (xs @ ys) = ys"
  by (cases ys) (auto simp: dropWhile_append2)

lemma find_None_notin: "find P xs = None \<longleftrightarrow> (\<forall>x\<in>set xs. \<not> P x)"
  by (auto simp: find_None_iff)

section \<open>Errors as values\<close>

definition bind_exn :: "'e + 'a \<Rightarrow> ('a \<Rightarrow> 'e + 'b) \<Rightarrow> 'e + 'b" where
  "bind_exn m f = (case m of Inl e \<Rightarrow> Inl e | Inr x \<Rightarrow> f x)"

lemma bind_exn_simps [simp]:
  "bind_exn (Inl e) f = Inl e"
  "bind_exn (Inr x) f = f x"
  by (simp_all add: bind_exn_def)

lemma bind_exn_Inr_iff: "bind_exn m f = Inr y \<longleftrightarrow> (\<exists>x. m = Inr x \<and> f x = Inr y)"
  by (cases m) simp_all

lemma bind_exn_Inl_iff: "bind_exn m f = Inl e \<longleftrightarrow> m = Inl e \<or> (\<exists>x. m = Inr x \<and> f x = Inl e)"
  by (cases m) simp_all

text \<open>
  The same over a state that every step may change, also a failing one. \<open>on_error\<close> runs a
  clean-up when the block is left by an exception (a scope guard, or a destructor).
\<close>

definition return_st :: "'a \<Rightarrow> 's \<Rightarrow> ('e + 'a) \<times> 's" where
  "return_st x s = (Inr x, s)"

definition throw_st :: "'e \<Rightarrow> 's \<Rightarrow> ('e + 'a) \<times> 's" where
  "throw_st e s = (Inl e, s)"

definition bind_st ::
  "('s \<Rightarrow> ('e + 'a) \<times> 's) \<Rightarrow> ('a \<Rightarrow> 's \<Rightarrow> ('e + 'b) \<times> 's) \<Rightarrow> 's \<Rightarrow> ('e + 'b) \<times> 's" where
  "bind_st m f s = (case m s of (Inl e, s') \<Rightarrow> (Inl e, s') | (Inr x, s') \<Rightarrow> f x s')"

definition on_error :: "('s \<Rightarrow> ('e + 'a) \<times> 's) \<Rightarrow> ('s \<Rightarrow> 's) \<Rightarrow> 's \<Rightarrow> ('e + 'a) \<times> 's" where
  "on_error m cleanup s = (case m s of (Inl e, s') \<Rightarrow> (Inl e, cleanup s') | (Inr x, s') \<Rightarrow> (Inr x, s'))"

lemmas st_defs = return_st_def throw_st_def bind_st_def on_error_def

section \<open>Decimal numerals\<close>

text \<open>What \<open>operator<<\<close> writes for an unsigned integer in the default (decimal) format.\<close>

definition digit_char :: "nat \<Rightarrow> char" where
  "digit_char d = char_of (48 + d)"

lemma digit_chars [simp]:
  "digit_char 0 = CHR ''0''"
  "digit_char 1 = CHR ''1''"
  "digit_char 2 = CHR ''2''"
  "digit_char 3 = CHR ''3''"
  "digit_char 4 = CHR ''4''"
  "digit_char 5 = CHR ''5''"
  "digit_char 6 = CHR ''6''"
  "digit_char 7 = CHR ''7''"
  "digit_char 8 = CHR ''8''"
  "digit_char 9 = CHR ''9''"
  by code_simp+

fun show_nat :: "nat \<Rightarrow> string" where
  "show_nat n = (if n < 10 then [digit_char n] else show_nat (n div 10) @ [digit_char (n mod 10)])"

declare show_nat.simps [simp del]

definition is_digit :: "char \<Rightarrow> bool" where
  "is_digit c \<longleftrightarrow> 48 \<le> (of_char c :: nat) \<and> (of_char c :: nat) \<le> 57"

definition digit_value :: "char \<Rightarrow> nat" where
  "digit_value c = of_char c - 48"

definition read_nat :: "string \<Rightarrow> nat option" where
  "read_nat s = (if s \<noteq> [] \<and> list_all is_digit s
     then Some (foldl (\<lambda>n c. 10 * n + digit_value c) 0 s) else None)"

lemma is_digit_digit_char [simp]: "d < 10 \<Longrightarrow> is_digit (digit_char d)"
  by (simp add: is_digit_def digit_char_def)

lemma digit_value_digit_char [simp]: "d < 10 \<Longrightarrow> digit_value (digit_char d) = d"
  by (simp add: digit_value_def digit_char_def)

lemma show_nat_nonempty [simp]: "show_nat n \<noteq> []"
  by (subst show_nat.simps) simp

lemma show_nat_digits: "list_all is_digit (show_nat n)"
proof (induction n rule: show_nat.induct)
  case (1 n)
  then show ?case by (subst show_nat.simps) simp
qed

lemma show_nat_value: "foldl (\<lambda>n c. 10 * n + digit_value c) 0 (show_nat n) = n"
proof (induction n rule: show_nat.induct)
  case (1 n)
  show ?case
  proof (cases "n < 10")
    case True
    then show ?thesis by (subst show_nat.simps) simp
  next
    case False
    with 1 have "foldl (\<lambda>n c. 10 * n + digit_value c) 0 (show_nat (n div 10)) = n div 10"
      by simp
    with False show ?thesis by (subst show_nat.simps) simp
  qed
qed

lemma read_nat_show_nat [simp]: "read_nat (show_nat n) = Some n"
  by (simp add: read_nat_def show_nat_digits show_nat_value)

lemma show_nat_inj [simp]: "show_nat m = show_nat n \<longleftrightarrow> m = n"
  by (metis option.inject read_nat_show_nat)

lemma digit_not_special:
  "is_digit c \<Longrightarrow> c \<noteq> HT \<and> c \<noteq> LF \<and> c \<noteq> CR \<and> c \<noteq> SP \<and> c \<noteq> CHR '':'' \<and> c \<noteq> CHR ''.''"
  by (auto simp: is_digit_def)

section \<open>Boost\<close>

text \<open>
  The functions of Boost whose results the program's behaviour depends on. They are
  parameters of every definition that calls them; \<open>None\<close> of a cast is
  \<open>boost::bad_lexical_cast\<close>. \<open>format_str fmt args\<close> is
  \<open>(boost::format(fmt) % arg1 % ... ).str()\<close>.
\<close>

record boost_lib =
  cast_size_t :: "string \<Rightarrow> nat option"
  cast_uint :: "string \<Rightarrow> nat option"
  cast_uint16 :: "string \<Rightarrow> nat option"
  cast_string :: "nat \<Rightarrow> string"
  format_str :: "string \<Rightarrow> string list \<Rightarrow> string"

text \<open>
  Documented behaviour: a cast to a string writes the number as \<open>operator<<\<close> does, and
  reading the decimal notation of a number that fits the target type gives that number.
\<close>

definition decimal_casts :: "boost_lib \<Rightarrow> bool" where
  "decimal_casts L \<longleftrightarrow>
     (\<forall>n. cast_string L n = show_nat n) \<and>
     (\<forall>n < 2 ^ 64. cast_size_t L (show_nat n) = Some n) \<and>
     (\<forall>n < 2 ^ 32. cast_uint L (show_nat n) = Some n) \<and>
     (\<forall>n < 2 ^ 16. cast_uint16 L (show_nat n) = Some n)"

lemma decimal_castsD [boost_laws]:
  assumes "decimal_casts L"
  shows "cast_string L n = show_nat n"
    and "n < 2 ^ 64 \<Longrightarrow> cast_size_t L (show_nat n) = Some n"
    and "n < 2 ^ 32 \<Longrightarrow> cast_uint L (show_nat n) = Some n"
    and "n < 2 ^ 16 \<Longrightarrow> cast_uint16 L (show_nat n) = Some n"
  using assms by (auto simp: decimal_casts_def)

text \<open>
  Documented behaviour of \<open>boost::format\<close>: a directive \<open>%N%\<close> (one digit here) is
  replaced by the N-th argument, and other characters are copied. The reference
  implementation below scans the format string so; \<open>positional_format L\<close> says that
  \<open>L\<close> agrees with it.
\<close>

fun expand_format :: "string \<Rightarrow> string list \<Rightarrow> string" where
  "expand_format [] args = []"
| "expand_format [c] args = [c]"
| "expand_format [c, d] args = [c, d]"
| "expand_format (c # d # e # cs) args =
     (if c = CHR ''%'' \<and> is_digit d \<and> e = CHR ''%'' \<and> 1 \<le> digit_value d
           \<and> digit_value d \<le> length args
      then args ! (digit_value d - 1) @ expand_format cs args
      else c # expand_format (d # e # cs) args)"

definition positional_format :: "boost_lib \<Rightarrow> bool" where
  "positional_format L \<longleftrightarrow> format_str L = expand_format"

lemma positional_formatD [boost_laws]: "positional_format L \<Longrightarrow> format_str L = expand_format"
  by (simp add: positional_format_def)

text \<open>One implementation with these laws, for concrete evaluations.\<close>

definition bounded_cast :: "nat \<Rightarrow> string \<Rightarrow> nat option" where
  "bounded_cast w s = (case read_nat s of None \<Rightarrow> None
     | Some n \<Rightarrow> if n < 2 ^ w then Some n else None)"

definition boost_ref :: boost_lib where
  "boost_ref = \<lparr>cast_size_t = bounded_cast 64, cast_uint = bounded_cast 32,
     cast_uint16 = bounded_cast 16, cast_string = show_nat, format_str = expand_format\<rparr>"

lemma boost_ref_laws [simp]: "decimal_casts boost_ref" "positional_format boost_ref"
  by (simp_all add: decimal_casts_def positional_format_def boost_ref_def bounded_cast_def)

end
