(* ===== verification/Exceptions.thy ===== *)
theory Exceptions
  imports Prelude
begin

text \<open>
  The exceptions of Spin (\<^verbatim>\<open>lib/Spin/Exceptions\<close>): the values that the other theories
  raise (\<open>exn\<close>), and the exception objects themselves, whose \<open>what()\<close> builds its text
  lazily in a buffer that a copy takes over from its original. A buffer is a list of
  cells, \<open>None\<close> for an indeterminate character; addresses of buffers made with
  \<open>new[]\<close> live in a heap, and freeing an address twice has no result.
\<close>

section \<open>Raised values\<close>

text \<open>Error codes carry the name the switch statements give them.\<close>

datatype errno =
    EACCES | EADDRINUSE | EADDRNOTAVAIL | EAFNOSUPPORT | EBADF | EDESTADDRREQ | EINVAL | EISCONN
  | ELOOP | EMFILE | ENAMETOOLONG | ENFILE | ENOBUFS | ENOMEM | ENOTSOCK | EOPNOTSUPP
  | EPROTONOSUPPORT | EPROTOTYPE | Errno nat

text \<open>The classes of \<^verbatim>\<open>lib/Scorpion/Exceptions/SSL\<close>, and what OpenSSL's error queue said.\<close>

datatype ssl_kind =
    AcceptError | AcceptSetupError | AcceptSocketAllocationError | ConnectionError
  | ConnectionSocketCreationFailure | ContextAllocationError | HandshakeError
  | SSLContextAllocationError | SSLContextSetupError | SSLPointerLocationError
  | ServerSocketAllocationError

text \<open>\<open>txt_string\<close> is the flag \<open>ERR_TXT_STRING\<close> of the flags that come with the data.\<close>

record error_line =
  error_number :: nat
  error_file :: string
  error_line_number :: nat
  error_line_data :: "string option"
  txt_string :: bool

datatype exn =
    InvalidHeader string | UnknownMethod string | UnsupportedProtocol string
  | BindFailure errno | ListenFailure errno | SocketError string string errno
  | UnusableConnection | UnusableListener | UnusableUDPSocket | MethodNotImplemented
  | ConnectionClosed
  | SSLError ssl_kind error_line
  | bad_alloc | bad_lexical_cast | bad_any_cast | bad_weak_ptr | length_error
  | logic_error string | runtime_error string

section \<open>Memory\<close>

type_synonym cells = "char option list"

definition literal :: "string \<Rightarrow> cells" where
  "literal s = map Some s @ [Some NUL]"

text \<open>Reading a C string: up to the first NUL; an indeterminate character or the end of the buffer has no result.\<close>

fun c_str :: "cells \<Rightarrow> string option" where
  "c_str [] = None"
| "c_str (None # cs) = None"
| "c_str (Some c # cs) = (if c = NUL then Some [] else map_option (Cons c) (c_str cs))"

lemma c_str_text: "NUL \<notin> set s \<Longrightarrow> c_str (map Some s @ Some NUL # cs) = Some s"
  by (induction s) auto

lemma c_str_literal [simp]: "NUL \<notin> set s \<Longrightarrow> c_str (literal s) = Some s"
  by (simp add: literal_def c_str_text)

lemma c_str_no_terminator: "NUL \<notin> set s \<Longrightarrow> c_str (map Some s) = None"
  by (induction s) auto

lemma c_str_append: "NUL \<notin> set s \<Longrightarrow> c_str (map Some s @ cs) = map_option ((@) s) (c_str cs)"
  by (cases "c_str cs"; induction s) auto

record heap =
  next_addr :: nat
  live :: "nat \<rightharpoonup> cells"

definition heap_new :: "heap \<Rightarrow> cells \<Rightarrow> heap \<times> nat" where
  "heap_new h cs = (h\<lparr>next_addr := Suc (next_addr h), live := (live h)(next_addr h \<mapsto> cs)\<rparr>, next_addr h)"

definition heap_delete :: "heap \<Rightarrow> nat option \<Rightarrow> heap option" where
  "heap_delete h p = (case p of None \<Rightarrow> Some h
     | Some a \<Rightarrow> if a \<in> dom (live h) then Some (h\<lparr>live := (live h)(a := None)\<rparr>) else None)"

section \<open>HTTP errors\<close>

text \<open>
  \<open>InvalidHeader\<close>, \<open>UnknownMethod\<close> and \<open>UnsupportedProtocol\<close> are the same class three
  times over, with other texts: \<open>content\<close> is \<open>header_content_\<close> or \<open>protocol_\<close>, 97 characters.
\<close>

datatype http_kind = KInvalidHeader | KUnknownMethod | KUnsupportedProtocol

definition max_content_size :: nat where "max_content_size = 96"

record http_error =
  kind :: http_kind
  content :: cells
  what_ptr :: "nat option"

fun error_text :: "http_kind \<Rightarrow> string" where
  "error_text KInvalidHeader = ''Invalid header field: ''"
| "error_text KUnknownMethod = ''Unknown method: ''"
| "error_text KUnsupportedProtocol = ''Unsupported protocol: ''"

fun base_what :: "http_kind \<Rightarrow> string" where
  "base_what KInvalidHeader = ''Invalid header field.''"
| "base_what KUnknownMethod = ''Unknown method.''"
| "base_what KUnsupportedProtocol = ''Unsupported protocol.''"

text \<open>Construction from a range: at most 96 characters and a NUL, the rest indeterminate.\<close>

definition http_construct :: "http_kind \<Rightarrow> string \<Rightarrow> http_error" where
  "http_construct k r =
     (let w = (if length r > max_content_size then take max_content_size r else r) in
      \<lparr>kind = k, content = map Some w @ Some NUL # replicate (max_content_size - length w) None,
       what_ptr = None\<rparr>)"

text \<open>The copy constructor copies 96 of the 97 characters and takes the text over.\<close>

definition http_copy :: "http_error \<Rightarrow> http_error \<times> http_error" where
  "http_copy e = (e\<lparr>content := take max_content_size (content e) @ [None]\<rparr>, e\<lparr>what_ptr := None\<rparr>)"

definition http_destroy :: "heap \<Rightarrow> http_error \<Rightarrow> heap option" where
  "http_destroy h e = heap_delete h (what_ptr e)"

definition http_swap :: "http_error \<Rightarrow> http_error \<Rightarrow> http_error \<times> http_error" where
  "http_swap a b =
     (a\<lparr>content := take max_content_size (content b) @ drop max_content_size (content a),
        what_ptr := what_ptr b\<rparr>,
      b\<lparr>content := take max_content_size (content a) @ drop max_content_size (content b),
        what_ptr := what_ptr a\<rparr>)"

text \<open>\<open>operator=\<close> takes its operand by value: copy, swap, destroy the copy.\<close>

definition http_assign :: "heap \<Rightarrow> http_error \<Rightarrow> http_error \<Rightarrow> (heap \<times> http_error \<times> http_error) option" where
  "http_assign h this rhs =
     (let (tmp, rhs') = http_copy rhs; (this', tmp') = http_swap this tmp in
      map_option (\<lambda>h'. (h', this', rhs')) (http_destroy h tmp'))"

text \<open>
  \<open>what()\<close>: the text is made once; \<open>alloc_ok\<close> says whether \<open>new char[...]\<close> succeeds. The
  result is the memory that the returned pointer points to.
\<close>

definition http_what :: "bool \<Rightarrow> heap \<Rightarrow> http_error \<Rightarrow> heap \<times> http_error \<times> cells" where
  "http_what alloc_ok h e =
     (case what_ptr e of
        Some a \<Rightarrow> (h, e, the (live h a))
      | None \<Rightarrow>
          if \<not> alloc_ok then (h, e, literal (base_what (kind e)))
          else let cs = map Some (error_text (kind e)) @ take max_content_size (content e);
                   (h', a) = heap_new h cs
               in (h', e\<lparr>what_ptr := Some a\<rparr>, cs))"

lemma error_text_no_nul [simp]: "NUL \<notin> set (error_text k)"
  by (cases k) auto

lemma length_content_construct [simp]: "length (content (http_construct k r)) = Suc max_content_size"
  by (simp add: http_construct_def Let_def max_content_size_def)

text \<open>Shorter content is reported completely, also through a copy of the exception.\<close>

lemma c_str_what_content:
  assumes "NUL \<notin> set r" "length r < max_content_size"
  shows "c_str (map Some (error_text k) @ take max_content_size (content (http_construct k r)))
    = Some (error_text k @ r)"
  using assms by (simp add: c_str_append http_construct_def c_str_text take_Cons' Let_def)

lemma http_copy_content_prefix:
  "length (content e) = Suc max_content_size \<Longrightarrow>
   take max_content_size (content (fst (http_copy e))) = take max_content_size (content e)"
  by (simp add: http_copy_def)

lemma http_what_fresh:
  "what_ptr e = None \<Longrightarrow> snd (snd (http_what True h e))
     = map Some (error_text (kind e)) @ take max_content_size (content e)"
  by (simp add: http_what_def heap_new_def Let_def)

lemma http_copy_kind [simp]: "kind (fst (http_copy e)) = kind e" "what_ptr (fst (http_copy e)) = what_ptr e"
  by (simp_all add: http_copy_def)

lemma http_construct_fields [simp]: "kind (http_construct k r) = k" "what_ptr (http_construct k r) = None"
  by (simp_all add: http_construct_def Let_def)

text \<open>
  The text of an HTTP error names the offending input in full when that is shorter than
  96 characters, for the exception that was thrown and for a copy of it; with 96 or
  more characters the text has no terminating NUL inside its buffer, so reading it as a C string runs past the end.
\<close>

theorem http_what_reports:
  assumes "NUL \<notin> set r"
  shows "c_str (snd (snd (http_what True h (http_construct k r))))
           = (if length r < max_content_size then Some (error_text k @ r) else None)"
    (is "?A = _")
proof (cases "length r < max_content_size")
  case True
  with assms show ?thesis by (simp add: http_what_fresh c_str_what_content)
next
  case False
  then have "take max_content_size (content (http_construct k r)) = map Some (take max_content_size r)"
    by (simp add: http_construct_def Let_def)
  moreover have "NUL \<notin> set (take max_content_size r)"
    using assms by (meson in_set_takeD)
  ultimately show ?thesis
    using False by (simp add: http_what_fresh c_str_append c_str_no_terminator)
qed

theorem http_what_reports_witness:
  "c_str (snd (snd (http_what True \<lparr>next_addr = 0, live = Map.empty\<rparr>
      (http_construct KUnknownMethod ''BREW'')))) = Some ''Unknown method: BREW''"
  using http_what_reports [of "''BREW''" "\<lparr>next_addr = 0, live = Map.empty\<rparr>" KUnknownMethod]
  by (simp add: max_content_size_def)

section \<open>Ownership of the text buffers\<close>

text \<open>
  The life of a set of HTTP error objects: construction, copy construction, assignment,
  calls of \<open>what()\<close> and destruction. \<open>None\<close> is an operation on an object that
  does not exist, or a second \<open>delete[]\<close> of a buffer.
\<close>

type_synonym objects = "nat \<rightharpoonup> http_error"

datatype err_op =
    Construct nat http_kind string | CopyFrom nat nat | Assign nat nat | What bool nat | Destroy nat

fun err_step :: "err_op \<Rightarrow> heap \<times> objects \<Rightarrow> (heap \<times> objects) option" where
  "err_step (Construct i k r) (h, os) =
     (if os i = None then Some (h, os(i \<mapsto> http_construct k r)) else None)"
| "err_step (CopyFrom i j) (h, os) =
     (case os j of None \<Rightarrow> None
      | Some e \<Rightarrow> if os i = None then (case http_copy e of (c, e') \<Rightarrow> Some (h, os(j \<mapsto> e', i \<mapsto> c))) else None)"
| "err_step (Assign i j) (h, os) =
     (case os j of None \<Rightarrow> None
      | Some rhs \<Rightarrow> (case (os(j \<mapsto> snd (http_copy rhs))) i of None \<Rightarrow> None
        | Some this \<Rightarrow> map_option (\<lambda>(h', this', rhs'). (h', os(j \<mapsto> rhs', i \<mapsto> this')))
                         (http_assign h this rhs)))"
| "err_step (What ok i) (h, os) =
     (case os i of None \<Rightarrow> None
      | Some e \<Rightarrow> (case http_what ok h e of (h', e', _) \<Rightarrow> Some (h', os(i \<mapsto> e'))))"
| "err_step (Destroy i) (h, os) =
     (case os i of None \<Rightarrow> None
      | Some e \<Rightarrow> map_option (\<lambda>h'. (h', os(i := None))) (http_destroy h e))"

fun op_valid :: "err_op \<Rightarrow> objects \<Rightarrow> bool" where
  "op_valid (Construct i k r) os = (os i = None)"
| "op_valid (CopyFrom i j) os = (os i = None \<and> os j \<noteq> None)"
| "op_valid (Assign i j) os = (os i \<noteq> None \<and> os j \<noteq> None)"
| "op_valid (What ok i) os = (os i \<noteq> None)"
| "op_valid (Destroy i) os = (os i \<noteq> None)"

text \<open>
  Every buffer on the heap belongs to exactly one object, and every object's buffer is on
  the heap. Ownership depends on the objects only through the buffers they point to.
\<close>

definition ptrs :: "objects \<Rightarrow> nat \<rightharpoonup> nat" where
  "ptrs os i = (case os i of None \<Rightarrow> None | Some e \<Rightarrow> what_ptr e)"

definition owned :: "heap \<Rightarrow> (nat \<rightharpoonup> nat) \<Rightarrow> bool" where
  "owned h p \<longleftrightarrow> (\<forall>i j a. p i = Some a \<and> p j = Some a \<longrightarrow> i = j) \<and> ran p = dom (live h)
     \<and> (\<forall>a \<in> dom (live h). a < next_addr h)"

definition owns :: "heap \<times> objects \<Rightarrow> bool" where
  "owns s \<longleftrightarrow> owned (fst s) (ptrs (snd s))"

lemma ptrs_upd [simp]: "ptrs (os(i \<mapsto> e)) = (ptrs os)(i := what_ptr e)"
  "ptrs (os(i := None)) = (ptrs os)(i := None)"
  by (auto simp: ptrs_def)

lemma ptrs_None: "os i = None \<Longrightarrow> ptrs os i = None"
  by (simp add: ptrs_def)

lemma ptrs_Some: "os i = Some e \<Longrightarrow> ptrs os i = what_ptr e"
  by (simp add: ptrs_def)

lemma owned_move:
  assumes "owned h p" "p i = None"
  shows "owned h (p(j := None, i := p j))"
proof -
  have "ran (p(j := None, i := p j)) = ran p"
  proof
    show "ran (p(j := None, i := p j)) \<subseteq> ran p"
      by (auto simp: ran_def split: if_splits)
    show "ran p \<subseteq> ran (p(j := None, i := p j))"
    proof
      fix x assume "x \<in> ran p"
      then obtain k where k: "p k = Some x" by (auto simp: ran_def)
      with assms(2) have "(p(j := None, i := p j)) (if k = j then i else k) = Some x"
        by auto
      then show "x \<in> ran (p(j := None, i := p j))" by (rule ranI)
    qed
  qed
  with assms(1) show ?thesis by (auto simp: owned_def split: if_splits)
qed

lemma owned_free:
  assumes "owned h p" "heap_delete h (p i) = Some h'"
  shows "owned h' (p(i := None))"
proof (cases "p i")
  case None
  with assms show ?thesis by (simp add: heap_delete_def fun_upd_idem)
next
  case (Some a)
  have only: "p j = Some a \<longleftrightarrow> j = i" for j
    using assms(1) Some unfolding owned_def by blast
  have "ran (p(i := None)) = ran p - {a}"
  proof (intro set_eqI iffI)
    fix x assume "x \<in> ran (p(i := None))"
    then obtain k where "k \<noteq> i" "p k = Some x" by (auto simp: ran_def split: if_splits)
    with only [of k] show "x \<in> ran p - {a}" by (auto intro: ranI)
  next
    fix x assume "x \<in> ran p - {a}"
    then obtain k where "x \<noteq> a" "p k = Some x" by (auto simp: ran_def)
    with Some have "(p(i := None)) k = Some x" by auto
    then show "x \<in> ran (p(i := None))" by (rule ranI)
  qed
  moreover have "h' = h\<lparr>live := (live h)(a := None)\<rparr>"
    using assms(2) Some by (auto simp: heap_delete_def split: if_splits)
  ultimately show ?thesis
    using assms(1) unfolding owned_def by simp
qed

lemma owned_delete_ok: "owned h p \<Longrightarrow> \<exists>h'. heap_delete h (p i) = Some h'"
  by (cases "p i") (auto simp: heap_delete_def owned_def dest: ranI)

lemma owned_new:
  assumes "owned h p" "p i = None" "heap_new h cs = (h', a)"
  shows "owned h' (p(i \<mapsto> a))"
proof -
  have fresh: "a \<notin> ran p"
    using assms by (auto simp: owned_def heap_new_def)
  have "ran (p(i \<mapsto> a)) = insert a (ran p)"
    using assms(2) by simp
  moreover have "h' = h\<lparr>next_addr := Suc a, live := (live h)(a \<mapsto> cs)\<rparr>" "a = next_addr h"
    using assms(3) by (auto simp: heap_new_def)
  moreover have "\<And>j. p j \<noteq> Some a"
    using fresh by (auto dest: ranI)
  ultimately show ?thesis
    using assms(1) unfolding owned_def by (auto simp: less_Suc_eq)
qed

lemmas owned_rules = owned_move owned_free owned_delete_ok owned_new

lemma http_assign_ptrs:
  "http_assign h this rhs = map_option (\<lambda>h'. (h', this\<lparr>content := content (fst (http_swap this (fst (http_copy rhs)))), what_ptr := what_ptr rhs\<rparr>,
      rhs\<lparr>what_ptr := None\<rparr>)) (heap_delete h (what_ptr this))"
  by (simp add: http_assign_def http_copy_def http_swap_def http_destroy_def Let_def)

lemma err_step_owns_ex:
  assumes "owns s" "op_valid op (snd s)"
  shows "\<exists>s'. err_step op s = Some s' \<and> owns s'"
  using assms
proof (cases s; cases op)
  fix h os i k r assume "s = (h, os)" "op = Construct i k r"
  with assms show ?thesis by (simp add: owns_def fun_upd_idem ptrs_None)
next
  fix h os i j assume *: "s = (h, os)" "op = CopyFrom i j"
  with assms obtain e where e: "os j = Some e" "os i = None" by auto
  from assms * e have "owned h ((ptrs os)(j := None, i := ptrs os j))"
    by (intro owned_move) (auto simp: owns_def ptrs_None)
  with * e show ?thesis by (simp add: owns_def http_copy_def ptrs_Some)
next
  fix h os i j assume *: "s = (h, os)" "op = Assign i j"
  with assms obtain this rhs where e: "os i = Some this" "os j = Some rhs" by auto
  have own: "owned h (ptrs os)" using assms * by (simp add: owns_def)
  show ?thesis
  proof (cases "i = j")
    case True
    with * e own show ?thesis
      by (simp add: owns_def http_copy_def http_assign_ptrs heap_delete_def fun_upd_idem ptrs_Some)
  next
    case False
    obtain h' where h': "heap_delete h (ptrs os i) = Some h'"
      using owned_delete_ok [OF own] by blast
    have "owned h' (((ptrs os)(i := None))(j := None, i := ((ptrs os)(i := None)) j))"
      by (rule owned_move [OF owned_free [OF own h']]) simp
    with * e False h' show ?thesis
      by (simp add: owns_def http_assign_ptrs ptrs_Some fun_upd_twist)
  qed
next
  fix h os ok i assume *: "s = (h, os)" "op = What ok i"
  with assms obtain e where e: "os i = Some e" by auto
  have own: "owned h (ptrs os)" using assms * by (simp add: owns_def)
  show ?thesis
  proof (cases "what_ptr e = None \<and> ok")
    case True
    define cs where "cs = map Some (error_text (kind e)) @ take max_content_size (content e)"
    obtain h' a where n: "heap_new h cs = (h', a)" by fastforce
    have "owned h' ((ptrs os)(i \<mapsto> a))"
      by (rule owned_new [OF own _ n]) (use True e in \<open>simp add: ptrs_Some\<close>)
    with * e True n show ?thesis by (simp add: owns_def http_what_def cs_def)
  next
    case False
    with * e own show ?thesis
      by (auto simp: owns_def http_what_def fun_upd_idem ptrs_Some split: option.split)
  qed
next
  fix h os i assume *: "s = (h, os)" "op = Destroy i"
  with assms obtain e where e: "os i = Some e" by auto
  have own: "owned h (ptrs os)" using assms * by (simp add: owns_def)
  obtain h' where h': "heap_delete h (ptrs os i) = Some h'"
    using owned_delete_ok [OF own] by blast
  with owned_free [OF own h'] * e show ?thesis
    by (simp add: owns_def http_destroy_def ptrs_Some)
qed

inductive err_reachable :: "heap \<times> objects \<Rightarrow> bool" where
  start: "err_reachable (\<lparr>next_addr = 0, live = Map.empty\<rparr>, Map.empty)"
| step: "err_reachable s \<Longrightarrow> op_valid op (snd s) \<Longrightarrow> err_step op s = Some s' \<Longrightarrow> err_reachable s'"

lemma err_reachable_owns: "err_reachable s \<Longrightarrow> owns s"
proof (induction rule: err_reachable.induct)
  case start
  then show ?case by (simp add: owns_def owned_def ptrs_def ran_def)
next
  case (step s op s')
  then show ?case using err_step_owns_ex [of s op] by auto
qed

text \<open>
  C31: over any life of HTTP error objects (thrown, copied, assigned to one another or to
  themselves, asked for their text, destroyed), no text buffer is ever freed twice, and
  once all the objects are gone no buffer is left.
\<close>

theorem error_objects_memory_safe:
  assumes "err_reachable s"
  shows "(\<forall>op. op_valid op (snd s) \<longrightarrow> err_step op s \<noteq> None)
    \<and> (snd s = Map.empty \<longrightarrow> live (fst s) = Map.empty)"
proof (intro conjI allI impI)
  fix op assume "op_valid op (snd s)"
  then obtain s' where "err_step op s = Some s'"
    using err_step_owns_ex [OF err_reachable_owns [OF assms]] by blast
  then show "err_step op s \<noteq> None" by simp
next
  assume "snd s = Map.empty"
  with err_reachable_owns [OF assms] have "dom (live (fst s)) = {}"
    by (simp add: owns_def owned_def ptrs_def ran_def)
  then show "live (fst s) = Map.empty" by simp
qed

definition example_error :: http_error where
  "example_error = http_construct KInvalidHeader ''x''"

definition example_heap :: heap where
  "example_heap = \<lparr>next_addr = 1, live = [0 \<mapsto> map Some (error_text KInvalidHeader)
     @ take max_content_size (content example_error)]\<rparr>"

lemma err_run_example: "err_reachable (example_heap, [0 \<mapsto> example_error\<lparr>what_ptr := Some 0\<rparr>])"
proof -
  have 1: "err_reachable (\<lparr>next_addr = 0, live = Map.empty\<rparr>, [0 \<mapsto> example_error])"
    by (rule err_reachable.step [OF err_reachable.start, of "Construct 0 KInvalidHeader ''x''"])
      (simp_all add: example_error_def)
  show ?thesis
    by (rule err_reachable.step [OF 1, of "What True 0"])
      (simp_all add: example_error_def example_heap_def http_what_def heap_new_def Let_def)
qed

theorem error_objects_memory_safe_witness:
  "err_step (Destroy 0) (example_heap, [0 \<mapsto> example_error\<lparr>what_ptr := Some 0\<rparr>]) \<noteq> None"
  by (rule error_objects_memory_safe [OF err_run_example, THEN conjunct1, rule_format]) simp

section \<open>Connection and socket errors\<close>

text \<open>
  \<open>BindFailure::what\<close> and \<open>ListenFailure::what\<close> choose their text in a switch whose
  cases, written by \<open>CASE_ERROR_MESSAGE\<close>, have no \<open>break\<close>: control falls through all later
  cases to the default. A case list and the default give the assignments made.
\<close>

fun switch_fallthrough :: "(errno \<times> string) list \<Rightarrow> string \<Rightarrow> errno \<Rightarrow> string list" where
  "switch_fallthrough [] d c = [d]"
| "switch_fallthrough ((l, m) # cases) d c =
     (if l = c then m # map snd cases @ [d] else switch_fallthrough cases d c)"

definition bind_failure_cases :: "(errno \<times> string) list" where
  "bind_failure_cases =
    [(EADDRINUSE, ''The specified address is already in use.''),
     (EADDRNOTAVAIL, ''The specified address is not available from the local machine.''),
     (EAFNOSUPPORT, ''The specified address is not a valid address for the address family of the specified socket.''),
     (EBADF, ''The socket argument is not a valid file descriptor.''),
     (EINVAL, ''The socket is already bound to an address, and the protocol does not support binding to a new address; or the socket has been shut down.''),
     (ENOTSOCK, ''The socket argument does not refer to a socket.''),
     (EOPNOTSUPP, ''The socket type of the specified socket does not support binding to an address.''),
     (EACCES, ''The specified address is protected and the current user does not have permission to bind to it.''),
     (EISCONN, ''The socket is already connected.''),
     (ELOOP, ''More than {SYMLOOP_MAX} symbolic links were encountered during resolution of the pathname in address.''),
     (ENAMETOOLONG, ''Pathname resolution of a symbolic link produced an intermediate result whose length exceeds {PATH_MAX}.''),
     (ENOBUFS, ''Insufficient resources were available to complete the call.'')]"

definition listen_failure_cases :: "(errno \<times> string) list" where
  "listen_failure_cases =
    [(EBADF, ''The socket argument is not a valid file descriptor.''),
     (EDESTADDRREQ, ''The socket is not bound to a local address, and the protocol does not support listening on an unbound socket.''),
     (EINVAL, ''The socket is either already connected or has been shut down.''),
     (ENOTSOCK, ''The socket argument does not refer to a socket.''),
     (EOPNOTSUPP, ''The socket protocol does not support listen().''),
     (EACCES, ''The calling process does not have the appropriate privileges.''),
     (ENOBUFS, ''Insufficient resources are available in the system to complete the call.'')]"

text \<open>
  The text: both parts are copied into a buffer of their size plus one, but the pointer
  \<open>where\<close> is not moved by the second copy; the assertion compares it with the full size and the
  NUL is written at it. \<open>None\<close> is the failed assertion, with \<open>asserts\<close> for a build without \<open>NDEBUG\<close>.
\<close>

definition failure_what :: "bool \<Rightarrow> string \<Rightarrow> string list \<Rightarrow> cells option" where
  "failure_what asserts prefix assigned =
     (let text = last assigned;
          buffer = map Some prefix @ map Some text @ [None];
          wh = length prefix
      in if asserts \<and> wh \<noteq> length prefix + length text then None
         else Some (buffer[wh := Some NUL]))"

definition bind_failure_what :: "bool \<Rightarrow> errno \<Rightarrow> cells option" where
  "bind_failure_what asserts c = failure_what asserts ''Bind failure: ''
     (switch_fallthrough bind_failure_cases ''Unknown error.'' c)"

definition listen_failure_what :: "bool \<Rightarrow> errno \<Rightarrow> cells option" where
  "listen_failure_what asserts c = failure_what asserts ''Listen failure: ''
     (switch_fallthrough listen_failure_cases ''Unknown error.'' c)"

lemma switch_fallthrough_last: "last (switch_fallthrough cases d c) = d"
  by (induction cases d c rule: switch_fallthrough.induct) auto

lemma switch_fallthrough_nonempty [simp]: "switch_fallthrough cases d c \<noteq> []"
  by (induction cases d c rule: switch_fallthrough.induct) auto

lemma failure_what_text:
  "NUL \<notin> set prefix \<Longrightarrow> assigned \<noteq> [] \<Longrightarrow> last assigned \<noteq> [] \<Longrightarrow>
   failure_what True prefix assigned = None \<and>
   map_option c_str (failure_what False prefix assigned) = Some (Some prefix)"
  by (cases "last assigned") (auto simp: failure_what_def Let_def list_update_append c_str_text)

text \<open>
  for every error code, the text of a bind or listen failure is the bare prefix
  without any description of the code; in a build with assertions, asking for it fails
  the assertion instead.
\<close>

theorem failure_texts_lose_the_code:
  "map_option c_str (bind_failure_what False c) = Some (Some ''Bind failure: '')
   \<and> map_option c_str (listen_failure_what False c) = Some (Some ''Listen failure: '')
   \<and> bind_failure_what True c = None \<and> listen_failure_what True c = None"
  using failure_what_text [of "''Bind failure: ''" "switch_fallthrough bind_failure_cases ''Unknown error.'' c"]
    failure_what_text [of "''Listen failure: ''" "switch_fallthrough listen_failure_cases ''Unknown error.'' c"]
    switch_fallthrough_last [of bind_failure_cases "''Unknown error.''" c]
    switch_fallthrough_last [of listen_failure_cases "''Unknown error.''" c]
  by (auto simp: bind_failure_what_def listen_failure_what_def)

text \<open>\<open>SocketError\<close>: its own switch does break, and its buffers are 65 and 33 characters.\<close>

definition socket_error_cases :: "(errno \<times> string) list" where
  "socket_error_cases =
    [(EAFNOSUPPORT, ''The implementation does not support the specified address family.''),
     (EMFILE, ''No more file descriptors are available for this process.''),
     (ENFILE, ''No more file descriptors are available for the system.''),
     (EPROTONOSUPPORT, ''The protocol is not supported by the address family, or the protocol is not supported by the implementation.''),
     (EPROTOTYPE, ''The socket type is not supported by the protocol.''),
     (EACCES, ''The process does not have appropriate privileges.''),
     (ENOBUFS, ''Insufficient resources were available in the system to perform the operation.''),
     (ENOMEM, ''Insufficient memory was available to fulfill the request.'')]"

definition socket_error_text :: "errno \<Rightarrow> string" where
  "socket_error_text c = (case map_of socket_error_cases c of Some m \<Rightarrow> m | None \<Rightarrow> ''Unknown error.'')"

record socket_error =
  message :: cells
  function_name :: cells
  error_code :: "errno option"

definition copy_bounded :: "nat \<Rightarrow> string \<Rightarrow> cells" where
  "copy_bounded n s = (let w = take (if length s > n then n else length s) s in
     map Some w @ Some NUL # replicate (n - length w) None)"

definition socket_construct :: "string \<Rightarrow> string \<Rightarrow> errno \<Rightarrow> socket_error" where
  "socket_construct m f c = \<lparr>message = copy_bounded 64 m, function_name = copy_bounded 32 f,
     error_code = Some c\<rparr>"

text \<open>The copy constructor copies the base class and the text pointer, no other member.\<close>

definition socket_copy :: "socket_error \<Rightarrow> socket_error" where
  "socket_copy e = \<lparr>message = replicate 65 None, function_name = replicate 33 None, error_code = None\<rparr>"

text \<open>\<open>show_errno\<close> is the number a code has on the platform, in decimal. \<open>None\<close>: an indeterminate value is read.\<close>

definition socket_what :: "boost_lib \<Rightarrow> (errno \<Rightarrow> string) \<Rightarrow> socket_error \<Rightarrow> string option" where
  "socket_what L show_errno e =
     Option.bind (c_str (message e)) (\<lambda>m. Option.bind (c_str (function_name e)) (\<lambda>f.
       map_option (\<lambda>c. format_str L ''Socket Error: %1%: %2% returned with %3% (%4%)''
           [m, f, show_errno c, socket_error_text c]) (error_code e)))"

lemma take_no_nul: "NUL \<notin> set s \<Longrightarrow> NUL \<notin> set (take n s)"
  by (meson in_set_takeD)

lemma c_str_copy_bounded: "NUL \<notin> set s \<Longrightarrow> c_str (copy_bounded n s) = Some (take n s)"
  by (simp add: copy_bounded_def Let_def c_str_text take_no_nul)

text \<open>
  The text of a socket error has the message (its first 64 characters), the function
  (32 characters), the code and its description; a copy of the exception has none of them,
  as the copy's members are indeterminate.
\<close>

theorem socket_error_reports:
  assumes "positional_format L" "NUL \<notin> set m" "NUL \<notin> set f"
  shows "socket_what L se (socket_construct m f c) = Some (''Socket Error: '' @ take 64 m @ '': '' @ take 32 f
      @ '' returned with '' @ se c @ '' ('' @ socket_error_text c @ '')'')
    \<and> socket_what L se (socket_copy (socket_construct m f c)) = None"
  using assms
  by (simp add: socket_what_def socket_construct_def socket_copy_def c_str_copy_bounded
      positional_formatD is_digit_def digit_value_def)

theorem socket_error_reports_witness:
  "socket_what boost_ref (\<lambda>_. ''24'') (socket_construct ''Send failed'' ''send'' EMFILE)
     = Some ''Socket Error: Send failed: send returned with 24 (No more file descriptors are available for this process.)''"
  using socket_error_reports [of boost_ref "''Send failed''" "''send''" "\<lambda>_. ''24''" EMFILE]
  by (simp add: socket_error_text_def socket_error_cases_def)

end
