(* ===== verification/ParsingHelpers.thy ===== *)
theory ParsingHelpers
  imports Exceptions
begin

text \<open>
  \<^verbatim>\<open>lib/Acari/ParsingHelpers.hpp\<close>: the scanning functions with which both the
  server (Spin) and the client (Damon) take HTTP messages apart. An iterator is an index
  into the buffer; a range \<open>[where, whence)\<close> handed to a scan is valid
  (\<open>where \<le> whence \<le> length b\<close>), so the loops' test \<open>where != whence\<close> is \<open>where < whence\<close>.
  Each scan is a recursive function like the loop it models, and a lemma in
  \<open>range_simps\<close> or next to it gives the range it returns as a list function.
\<close>

section \<open>Character classes and trimming\<close>

definition isIgnorableWhiteSpace :: "char \<Rightarrow> bool" where
  "isIgnorableWhiteSpace c \<longleftrightarrow> c = HT \<or> c = LF \<or> c = CR \<or> c = SP"

definition isNewLine :: "char \<Rightarrow> bool" where
  "isNewLine c \<longleftrightarrow> c = LF \<or> c = CR"

lemma newline_is_space [simp]: "isNewLine c \<Longrightarrow> isIgnorableWhiteSpace c"
  by (auto simp: isNewLine_def isIgnorableWhiteSpace_def)

lemma char_classes [simp]:
  "isIgnorableWhiteSpace SP" "isIgnorableWhiteSpace CR" "isIgnorableWhiteSpace LF"
  "isIgnorableWhiteSpace HT" "isNewLine CR" "isNewLine LF" "\<not> isNewLine SP" "\<not> isNewLine HT"
  "\<not> isIgnorableWhiteSpace CHR '':''" "\<not> isNewLine CHR '':''"
  by (simp_all add: isNewLine_def isIgnorableWhiteSpace_def)

lemma digit_classes [simp]: "is_digit c \<Longrightarrow> \<not> isIgnorableWhiteSpace c"
  "is_digit c \<Longrightarrow> \<not> isNewLine c"
  using digit_not_special by (auto simp: isNewLine_def isIgnorableWhiteSpace_def)

fun ltrim :: "string \<Rightarrow> string" where
  "ltrim [] = []"
| "ltrim (c # s) = (if isIgnorableWhiteSpace c then ltrim s else c # s)"

text \<open>\<open>rtrim\<close> counts the trailing white space from the back and erases that many characters.\<close>

fun rtrim_where :: "string \<Rightarrow> nat" where
  "rtrim_where [] = 0"
| "rtrim_where (c # r) = (if isIgnorableWhiteSpace c then Suc (rtrim_where r) else 0)"

definition rtrim :: "string \<Rightarrow> string" where
  "rtrim s = take (length s - rtrim_where (rev s)) s"

lemma ltrim_eq [range_simps]: "ltrim s = dropWhile isIgnorableWhiteSpace s"
  by (induction s) auto

lemma rtrim_where_eq: "rtrim_where r = length (takeWhile isIgnorableWhiteSpace r)"
  by (induction r) auto

lemma rtrim_eq [range_simps]: "rtrim s = rev (dropWhile isIgnorableWhiteSpace (rev s))"
  by (simp add: rtrim_def rtrim_where_eq dropWhile_eq_drop rev_drop)

section \<open>Scans\<close>

function advanceThroughIgnorableWhiteSpace :: "string \<Rightarrow> nat \<Rightarrow> nat \<Rightarrow> nat" where
  "advanceThroughIgnorableWhiteSpace b wh whence =
     (if wh < whence \<and> isIgnorableWhiteSpace (b ! wh)
      then advanceThroughIgnorableWhiteSpace b (Suc wh) whence else wh)"
  by pat_completeness auto
termination by (relation "measure (\<lambda>(b, wh, whence). whence - wh)") auto

function advanceUntilIgnorableWhiteSpace :: "string \<Rightarrow> nat \<Rightarrow> nat \<Rightarrow> nat" where
  "advanceUntilIgnorableWhiteSpace b wh whence =
     (if wh < whence \<and> \<not> isIgnorableWhiteSpace (b ! wh)
      then advanceUntilIgnorableWhiteSpace b (Suc wh) whence else wh)"
  by pat_completeness auto
termination by (relation "measure (\<lambda>(b, wh, whence). whence - wh)") auto

function advanceUntilEndOfLine :: "string \<Rightarrow> nat \<Rightarrow> nat \<Rightarrow> nat" where
  "advanceUntilEndOfLine b wh whence =
     (if wh < whence \<and> \<not> isNewLine (b ! wh)
      then advanceUntilEndOfLine b (Suc wh) whence else wh)"
  by pat_completeness auto
termination by (relation "measure (\<lambda>(b, wh, whence). whence - wh)") auto

text \<open>The second loop of \<open>findHeaderEnd\<close>: on through the new lines.\<close>

function advanceThroughNewLines :: "string \<Rightarrow> nat \<Rightarrow> nat \<Rightarrow> nat" where
  "advanceThroughNewLines b wh whence =
     (if wh < whence \<and> isNewLine (b ! wh)
      then advanceThroughNewLines b (Suc wh) whence else wh)"
  by pat_completeness auto
termination by (relation "measure (\<lambda>(b, wh, whence). whence - wh)") auto

declare advanceThroughIgnorableWhiteSpace.simps [simp del]
  advanceUntilIgnorableWhiteSpace.simps [simp del]
  advanceUntilEndOfLine.simps [simp del] advanceThroughNewLines.simps [simp del]

lemma advance_through_ws_eq [range_simps]:
  "whence \<le> length b \<Longrightarrow> advanceThroughIgnorableWhiteSpace b wh whence
     = wh + length (takeWhile isIgnorableWhiteSpace (seg b wh whence))"
  by (induction b wh whence rule: advanceThroughIgnorableWhiteSpace.induct)
    (subst advanceThroughIgnorableWhiteSpace.simps, subst takeWhile_seg, auto)

lemma advance_until_ws_eq [range_simps]:
  "whence \<le> length b \<Longrightarrow> advanceUntilIgnorableWhiteSpace b wh whence
     = wh + length (takeWhile (\<lambda>c. \<not> isIgnorableWhiteSpace c) (seg b wh whence))"
  by (induction b wh whence rule: advanceUntilIgnorableWhiteSpace.induct)
    (subst advanceUntilIgnorableWhiteSpace.simps, subst takeWhile_seg, auto)

lemma advance_until_eol_eq [range_simps]:
  "whence \<le> length b \<Longrightarrow> advanceUntilEndOfLine b wh whence
     = wh + length (takeWhile (\<lambda>c. \<not> isNewLine c) (seg b wh whence))"
  by (induction b wh whence rule: advanceUntilEndOfLine.induct)
    (subst advanceUntilEndOfLine.simps, subst takeWhile_seg, auto)

lemma advance_through_nl_eq [range_simps]:
  "whence \<le> length b \<Longrightarrow> advanceThroughNewLines b wh whence
     = wh + length (takeWhile isNewLine (seg b wh whence))"
  by (induction b wh whence rule: advanceThroughNewLines.induct)
    (subst advanceThroughNewLines.simps, subst takeWhile_seg, auto)

text \<open>Every scan returns an iterator of the range it was given.\<close>

lemma takeWhile_seg_le: "wh \<le> whence \<Longrightarrow> whence \<le> length b \<Longrightarrow>
  wh + length (takeWhile P (seg b wh whence)) \<le> whence"
  by (metis add_le_cancel_left le_add_diff_inverse length_seg length_takeWhile_le)

lemma scan_bounds:
  assumes "wh \<le> whence" "whence \<le> length b"
  shows "wh \<le> advanceThroughIgnorableWhiteSpace b wh whence"
    and "advanceThroughIgnorableWhiteSpace b wh whence \<le> whence"
    and "wh \<le> advanceUntilIgnorableWhiteSpace b wh whence"
    and "advanceUntilIgnorableWhiteSpace b wh whence \<le> whence"
    and "wh \<le> advanceUntilEndOfLine b wh whence"
    and "advanceUntilEndOfLine b wh whence \<le> whence"
    and "wh \<le> advanceThroughNewLines b wh whence"
    and "advanceThroughNewLines b wh whence \<le> whence"
  using assms by (auto simp: range_simps takeWhile_seg_le)

section \<open>Counting line ends\<close>

text \<open>
  \<open>cr\<close> and \<open>lf\<close> are \<open>unsigned long\<close>; the assertion before the loop keeps both counts
  below \<open>0xFFFFFFFF\<close>, so they are natural numbers here.
\<close>

function moreHeaders_loop :: "string \<Rightarrow> nat \<Rightarrow> nat \<Rightarrow> nat \<Rightarrow> nat \<Rightarrow> bool" where
  "moreHeaders_loop b wh whence cr lf =
     (if wh < whence
      then moreHeaders_loop b (Suc wh) whence
             (if b ! wh = CR then Suc cr else cr) (if b ! wh = LF then Suc lf else lf)
      else \<not> (cr \<ge> 2 \<or> lf \<ge> 2))"
  by pat_completeness auto
termination by (relation "measure (\<lambda>(b, wh, whence, cr, lf). whence - wh)") auto

declare moreHeaders_loop.simps [simp del]

definition moreHeaders :: "string \<Rightarrow> nat \<Rightarrow> nat \<Rightarrow> bool" where
  "moreHeaders b wh whence = moreHeaders_loop b wh whence 0 0"

lemma moreHeaders_loop_eq:
  "whence \<le> length b \<Longrightarrow> moreHeaders_loop b wh whence cr lf
     = (cr + count_list (seg b wh whence) CR < 2 \<and> lf + count_list (seg b wh whence) LF < 2)"
  by (induction b wh whence cr lf rule: moreHeaders_loop.induct)
    (subst moreHeaders_loop.simps, auto simp: seg_Cons not_less)

lemma moreHeaders_eq [range_simps]:
  "whence \<le> length b \<Longrightarrow> moreHeaders b wh whence
     = (count_list (seg b wh whence) CR < 2 \<and> count_list (seg b wh whence) LF < 2)"
  by (simp add: moreHeaders_def moreHeaders_loop_eq)

section \<open>The end of a header\<close>

function backupThroughNewlines :: "string \<Rightarrow> nat \<Rightarrow> nat \<Rightarrow> nat" where
  "backupThroughNewlines b start wh =
     (if start < wh \<and> start < wh - 1 \<and> isNewLine (b ! (wh - 1))
      then backupThroughNewlines b start (wh - 1) else wh)"
  by pat_completeness auto
termination by (relation "measure (\<lambda>(b, start, wh). wh)") auto

declare backupThroughNewlines.simps [simp del]

lemma backup_bounds: "start \<le> wh \<Longrightarrow> start \<le> backupThroughNewlines b start wh
    \<and> backupThroughNewlines b start wh \<le> wh"
  by (induction b start wh rule: backupThroughNewlines.induct)
    (subst (1 2) backupThroughNewlines.simps, auto)

text \<open>Backing up over a run of new lines behind something longer than one character.\<close>

lemma backup_run:
  assumes "\<forall>i. m \<le> i \<and> i < m + n \<longrightarrow> isNewLine (b ! i)" and "start < m"
    and "\<not> isNewLine (b ! (m - 1))"
  shows "backupThroughNewlines b start (m + n) = m"
  using assms
proof (induction n)
  case 0
  then show ?case by (subst backupThroughNewlines.simps) auto
next
  case (Suc n)
  then have "isNewLine (b ! (m + n))" by simp
  with Suc show ?case by (subst backupThroughNewlines.simps) auto
qed

lemma scan_progress:
  assumes "wh < whence" "whence \<le> length b"
    and "p = advanceThroughNewLines b (advanceUntilEndOfLine b wh whence) whence"
  shows "wh < p"
proof (cases "isNewLine (b ! wh)")
  case True
  with assms(1) have "advanceUntilEndOfLine b wh whence = wh"
    by (subst advanceUntilEndOfLine.simps) simp
  moreover have "wh < advanceThroughNewLines b wh whence"
    using assms(1,2) True scan_bounds(7) [of "Suc wh" whence b]
    by (subst advanceThroughNewLines.simps) simp
  ultimately show ?thesis using assms(3) by simp
next
  case False
  then have "Suc wh \<le> advanceUntilEndOfLine b wh whence"
    using assms(1,2) scan_bounds(5) [of "Suc wh" whence b]
    by (subst advanceUntilEndOfLine.simps) simp
  moreover have "advanceUntilEndOfLine b wh whence \<le> p"
    using assms scan_bounds(6) [of wh whence b] by (auto intro: scan_bounds(7))
  ultimately show ?thesis by simp
qed

text \<open>
  \<open>findHeaderEnd from_where wh whence\<close>: behind the line at \<open>wh\<close> and its new lines comes
  the start of the next header (the end is before the new lines), white space (the header
  is folded: look on), or the end of the buffer (the header has ended only if all headers
  have, otherwise \<open>from_where\<close> says that more input is needed).
\<close>

function findHeaderEnd_from :: "string \<Rightarrow> nat \<Rightarrow> nat \<Rightarrow> nat \<Rightarrow> nat" where
  "findHeaderEnd_from b from_where wh whence =
     (let p = advanceThroughNewLines b (advanceUntilEndOfLine b wh whence) whence in
      if p < whence \<and> \<not> isIgnorableWhiteSpace (b ! p) then backupThroughNewlines b from_where p
      else if p < whence \<and> whence \<le> length b then findHeaderEnd_from b from_where p whence
      else let q = backupThroughNewlines b from_where p in
        if \<not> moreHeaders b q whence then q else from_where)"
  by pat_completeness auto
termination
proof (relation "measure (\<lambda>(b, from_where, wh, whence). whence - wh)", goal_cases)
  case (2 b from_where wh whence p)
  then have "wh < whence"
    by (metis advanceThroughNewLines.simps advanceUntilEndOfLine.simps)
  with 2 show ?case using scan_progress [of wh whence b p] by auto
qed simp

declare findHeaderEnd_from.simps [simp del]

definition findHeaderEnd :: "string \<Rightarrow> nat \<Rightarrow> nat \<Rightarrow> nat" where
  "findHeaderEnd b wh whence = findHeaderEnd_from b wh wh whence"

text \<open>\<open>chomp\<close> strips a range on both sides.\<close>

function chomp_end :: "string \<Rightarrow> nat \<Rightarrow> nat \<Rightarrow> nat" where
  "chomp_end b start wend =
     (if start < wend \<and> isIgnorableWhiteSpace (b ! (wend - 1)) then chomp_end b start (wend - 1) else wend)"
  by pat_completeness auto
termination by (relation "measure (\<lambda>(b, start, wend). wend)") auto

declare chomp_end.simps [simp del]

definition chomp :: "string \<Rightarrow> nat \<Rightarrow> nat \<Rightarrow> string" where
  "chomp b start wend =
     (let s = advanceThroughIgnorableWhiteSpace b start wend in seg b s (chomp_end b s wend))"

definition trim :: "string \<Rightarrow> string" where
  "trim s = rtrim (ltrim s)"

lemma chomp_end_eq: "start \<le> wend \<Longrightarrow> wend \<le> length b \<Longrightarrow>
   seg b start (chomp_end b start wend) = rtrim (seg b start wend)"
proof (induction b start wend rule: chomp_end.induct)
  case (1 b start wend)
  show ?case
  proof (cases "start < wend")
    case True
    then have "seg b start wend = seg b start (wend - 1) @ [b ! (wend - 1)]"
      using 1(3) seg_snoc [of start "wend - 1" b] by simp
    with True 1 show ?thesis
      by (subst chomp_end.simps) (simp add: rtrim_eq)
  next
    case False
    then show ?thesis by (subst chomp_end.simps) (simp add: rtrim_eq)
  qed
qed

lemma seg_drop: "i + k \<le> j \<Longrightarrow> seg b (i + k) j = drop k (seg b i j)"
  by (simp add: seg_def drop_take add.commute)

lemma chomp_eq [range_simps]:
  assumes "start \<le> wend" "wend \<le> length b"
  shows "chomp b start wend = trim (seg b start wend)"
proof -
  let ?k = "length (takeWhile isIgnorableWhiteSpace (seg b start wend))"
  have "start + ?k \<le> wend" using assms by (rule takeWhile_seg_le)
  then show ?thesis
    using assms
    by (simp add: chomp_def trim_def Let_def advance_through_ws_eq chomp_end_eq seg_drop
        ltrim_eq dropWhile_eq_drop)
qed

section \<open>Header fields and start lines\<close>

text \<open>\<open>std::find(begin, end, ':')\<close>.\<close>

function find_char :: "char \<Rightarrow> string \<Rightarrow> nat \<Rightarrow> nat \<Rightarrow> nat" where
  "find_char c b wh whence = (if wh < whence \<and> b ! wh \<noteq> c then find_char c b (Suc wh) whence else wh)"
  by pat_completeness auto
termination by (relation "measure (\<lambda>(c, b, wh, whence). whence - wh)") auto

declare find_char.simps [simp del]

lemma find_char_eq [range_simps]:
  "whence \<le> length b \<Longrightarrow> find_char c b wh whence = wh + length (takeWhile (\<lambda>d. d \<noteq> c) (seg b wh whence))"
  by (induction c b wh whence rule: find_char.induct)
    (subst find_char.simps, subst takeWhile_seg, auto)

definition splitHeader :: "string \<Rightarrow> nat \<Rightarrow> nat \<Rightarrow> exn + string \<times> string" where
  "splitHeader b start wend =
     (let colon = find_char CHR '':'' b start wend in
      if colon = wend then Inl (InvalidHeader (seg b start wend))
      else Inr (chomp b start colon, chomp b (colon + 1) wend))"

text \<open>
  The start line of a request in \<open>[cur, wend)\<close>. \<open>Inr (None, cur)\<close> says that the line is
  not complete; otherwise the request made by \<open>mk\<close> and the iterator behind the protocol.
\<close>

definition extractRequestHeader ::
  "(string \<Rightarrow> string \<Rightarrow> string \<Rightarrow> 'r) \<Rightarrow> (string \<rightharpoonup> 'm) \<Rightarrow> string \<Rightarrow> nat \<Rightarrow> nat \<Rightarrow> exn + 'r option \<times> nat"
where
  "extractRequestHeader mk supported_methods b cur wend =
     (let start = cur;
          wh = advanceThroughIgnorableWhiteSpace b cur wend;
          whence = advanceUntilIgnorableWhiteSpace b wh wend
      in if whence = wend then Inr (None, start) else
      let verb = seg b wh whence in
      if supported_methods verb = None then Inl (UnknownMethod verb) else
      let wh = advanceThroughIgnorableWhiteSpace b whence wend;
          whence = advanceUntilIgnorableWhiteSpace b wh wend
      in if whence = wend then Inr (None, start) else
      let url = seg b wh whence;
          wh = advanceThroughIgnorableWhiteSpace b whence wend;
          whence = advanceUntilIgnorableWhiteSpace b wh wend
      in if whence = wend then Inr (None, start) else
      let protocol_and_version = seg b wh whence in
      if protocol_and_version \<noteq> ''HTTP/1.0'' \<and> protocol_and_version \<noteq> ''HTTP/1.1''
      then Inl (UnsupportedProtocol protocol_and_version)
      else Inr (Some (mk verb url protocol_and_version), whence))"

text \<open>The status line of a response; the code is read by \<open>boost::lexical_cast< unsigned int >\<close>.\<close>

definition extractResponseHeader ::
  "boost_lib \<Rightarrow> (string \<Rightarrow> nat \<Rightarrow> string \<Rightarrow> 'r) \<Rightarrow> string \<Rightarrow> nat \<Rightarrow> nat \<Rightarrow> exn + 'r option \<times> nat"
where
  "extractResponseHeader L mk b cur wend =
     (let start = cur;
          wh = advanceThroughIgnorableWhiteSpace b cur wend;
          whence = advanceUntilIgnorableWhiteSpace b wh wend
      in if whence = wend then Inr (None, start) else
      let protocol_and_version = seg b wh whence in
      if protocol_and_version \<noteq> ''HTTP/1.0'' \<and> protocol_and_version \<noteq> ''HTTP/1.1''
      then Inl (UnsupportedProtocol protocol_and_version) else
      let wh = advanceThroughIgnorableWhiteSpace b whence wend;
          whence = advanceUntilIgnorableWhiteSpace b wh wend
      in if whence = wend then Inr (None, start) else
      let response_code = seg b wh whence;
          wh = advanceThroughIgnorableWhiteSpace b whence wend;
          whence = advanceUntilEndOfLine b wh wend
      in if whence = wend then Inr (None, start) else
      let response_message = seg b wh whence in
      case cast_uint L response_code of None \<Rightarrow> Inl bad_lexical_cast
      | Some code \<Rightarrow> Inr (Some (mk protocol_and_version code response_message), whence))"

section \<open>Scanning over a known prefix\<close>

text \<open>
  The lemmas the round trips rest on: the buffer is known up to and including the text
  that stops a scan.
\<close>

lemma seg_middle: "i = length xs \<Longrightarrow> j = length xs + length ys \<Longrightarrow> seg (xs @ ys @ zs) i j = ys"
  by (simp add: seg_append_mid)

lemma advance_through_ws_skip:
  assumes "\<forall>c\<in>set ws. isIgnorableWhiteSpace c" "rest = [] \<or> \<not> isIgnorableWhiteSpace (hd rest)"
    and "b = pre @ ws @ rest"
  shows "advanceThroughIgnorableWhiteSpace b (length pre) (length b) = length pre + length ws"
  using assms(1,2) unfolding assms(3)
  by (simp only: advance_through_ws_eq [OF order_refl] seg_to_end)
    (cases rest; simp)

lemma advance_until_ws_skip:
  assumes "\<forall>c\<in>set tok. \<not> isIgnorableWhiteSpace c" "rest = [] \<or> isIgnorableWhiteSpace (hd rest)"
    and "b = pre @ tok @ rest"
  shows "advanceUntilIgnorableWhiteSpace b (length pre) (length b) = length pre + length tok"
  using assms(1,2) unfolding assms(3)
  by (simp only: advance_until_ws_eq [OF order_refl] seg_to_end) (cases rest; simp)

lemma advance_until_eol_skip:
  assumes "\<forall>c\<in>set tok. \<not> isNewLine c" "rest = [] \<or> isNewLine (hd rest)"
    and "b = pre @ tok @ rest"
  shows "advanceUntilEndOfLine b (length pre) (length b) = length pre + length tok"
  using assms(1,2) unfolding assms(3)
  by (simp only: advance_until_eol_eq [OF order_refl] seg_to_end) (cases rest; simp)

lemma advance_through_nl_skip:
  assumes "\<forall>c\<in>set nl. isNewLine c" "rest = [] \<or> \<not> isNewLine (hd rest)"
    and "b = pre @ nl @ rest"
  shows "advanceThroughNewLines b (length pre) (length b) = length pre + length nl"
  using assms(1,2) unfolding assms(3)
  by (simp only: advance_through_nl_eq [OF order_refl] seg_to_end) (cases rest; simp)

lemma trim_padded:
  assumes "\<forall>c\<in>set ws1. isIgnorableWhiteSpace c" "\<forall>c\<in>set ws2. isIgnorableWhiteSpace c"
    and "s = [] \<or> \<not> isIgnorableWhiteSpace (hd s) \<and> \<not> isIgnorableWhiteSpace (last s)"
  shows "trim (ws1 @ s @ ws2) = s"
proof (cases "s = []")
  case True
  have "dropWhile isIgnorableWhiteSpace ws2 = []"
    using assms(2) by (simp add: dropWhile_eq_Nil_conv)
  moreover have "dropWhile isIgnorableWhiteSpace (ws1 @ ws2) = dropWhile isIgnorableWhiteSpace ws2"
    using assms(1) by (simp add: dropWhile_append2)
  ultimately have "dropWhile isIgnorableWhiteSpace (ws1 @ s @ ws2) = []"
    using True by (simp only: append_Nil)
  then show ?thesis using True by (simp only: trim_def ltrim_eq rtrim_eq rev.simps dropWhile.simps)
next
  case False
  with assms(3) have h: "\<not> isIgnorableWhiteSpace (hd (s @ ws2))" "\<not> isIgnorableWhiteSpace (hd (rev s))"
    by (simp_all add: hd_rev)
  have "dropWhile isIgnorableWhiteSpace (ws1 @ s @ ws2) = s @ ws2"
    using assms(1) h(1) by (intro dropWhile_append_stop) auto
  moreover have "dropWhile isIgnorableWhiteSpace (rev ws2 @ rev s) = rev s"
    using assms(2) h(2) by (intro dropWhile_append_stop) auto
  ultimately show ?thesis by (simp add: trim_def ltrim_eq rtrim_eq)
qed

end
