(* ===== verification/Attributes.thy ===== *)
theory Attributes
  imports Exceptions
begin

text \<open>
  \<^verbatim>\<open>lib/Acari/Attributes\<close>: anonymous attributes attached to connections and sockets. An
  attribute is a \<open>boost::any\<close>, \<open>None\<close> when empty; an object has eight of them, and the
  identifiers are handed out by one process-wide 32-bit counter.
\<close>

definition max_attribute_count :: nat where "max_attribute_count = 8"

record 'v attributes =
  attributes :: "'v option list"

definition Attributes :: "'v attributes" where
  "Attributes = \<lparr>attributes = replicate max_attribute_count None\<rparr>"

definition Attributes_copy :: "'v attributes \<Rightarrow> 'v attributes" where
  "Attributes_copy a = \<lparr>attributes = attributes a\<rparr>"

text \<open>\<open>fetchAndAdd\<close> returns the old value; the sum wraps at 32 bits.\<close>

definition allocateAttribute :: "32 word \<Rightarrow> (exn + nat) \<times> 32 word" where
  "allocateAttribute next_index =
     (let retval = unat next_index in
      (if retval \<ge> max_attribute_count then Inl bad_alloc else Inr retval, next_index + 1))"

text \<open>
  \<open>getAttribute\<close> returns a reference: reading it and assigning through it are two
  functions. \<open>None\<close> is the failed assertion on the index.
\<close>

definition getAttribute :: "'v attributes \<Rightarrow> nat \<Rightarrow> 'v option option" where
  "getAttribute a i = (if i < max_attribute_count then Some (attributes a ! i) else None)"

definition setAttribute :: "nat \<Rightarrow> 'v option \<Rightarrow> 'v attributes \<Rightarrow> 'v attributes option" where
  "setAttribute i v a =
     (if i < max_attribute_count then Some (a\<lparr>attributes := (attributes a)[i := v]\<rparr>) else None)"

definition attributes_ok :: "'v attributes \<Rightarrow> bool" where
  "attributes_ok a \<longleftrightarrow> length (attributes a) = max_attribute_count"

section \<open>The store contract\<close>

text \<open>What the users of attributes (the HTTP data handler and the client) rely on.\<close>

locale attribute_store =
  fixes get :: "'s \<Rightarrow> nat \<Rightarrow> 'v option option"
    and put :: "nat \<Rightarrow> 'v option \<Rightarrow> 's \<Rightarrow> 's option"
    and ok :: "'s \<Rightarrow> bool"
    and limit :: nat
  assumes get_defined: "ok s \<Longrightarrow> get s i \<noteq> None \<longleftrightarrow> i < limit"
    and put_defined: "ok s \<Longrightarrow> i < limit \<Longrightarrow> \<exists>s'. put i v s = Some s' \<and> ok s'"
    and get_put: "ok s \<Longrightarrow> put i v s = Some s' \<Longrightarrow> get s' i = Some v"
    and get_put_other: "ok s \<Longrightarrow> put i v s = Some s' \<Longrightarrow> j \<noteq> i \<Longrightarrow> get s' j = get s j"
    and put_limit: "ok s \<Longrightarrow> put i v s = Some s' \<Longrightarrow> i < limit"
begin

text \<open>A user performs a list of assignments to its own identifier.\<close>

fun puts :: "nat \<Rightarrow> 'v option list \<Rightarrow> 's \<Rightarrow> 's option" where
  "puts i [] s = Some s"
| "puts i (v # vs) s = Option.bind (put i v s) (puts i vs)"

lemma put_ok: "ok s \<Longrightarrow> put i v s = Some s' \<Longrightarrow> ok s'"
  using put_defined put_limit by (metis option.inject)

lemma puts_defined: "ok s \<Longrightarrow> i < limit \<Longrightarrow> \<exists>s'. puts i vs s = Some s' \<and> ok s'"
proof (induction vs arbitrary: s)
  case (Cons v vs)
  obtain s1 where "put i v s = Some s1" "ok s1"
    using put_defined Cons.prems by blast
  with Cons show ?case by simp
qed simp

lemma puts_last:
  "ok s \<Longrightarrow> puts i vs s = Some s' \<Longrightarrow> vs \<noteq> [] \<Longrightarrow> get s' i = Some (last vs)"
proof (induction vs arbitrary: s)
  case (Cons v vs)
  then obtain s1 where s1: "put i v s = Some s1" "puts i vs s1 = Some s'"
    by (auto simp: bind_eq_Some_conv)
  then have "ok s1" using Cons.prems put_ok by blast
  with s1 Cons show ?case by (cases vs) (auto simp: get_put)
qed simp

lemma puts_frame:
  "ok s \<Longrightarrow> puts i vs s = Some s' \<Longrightarrow> j \<noteq> i \<Longrightarrow> get s' j = get s j"
proof (induction vs arbitrary: s)
  case (Cons v vs)
  then obtain s1 where s1: "put i v s = Some s1" "puts i vs s1 = Some s'"
    by (auto simp: bind_eq_Some_conv)
  then have "ok s1" using Cons.prems put_ok by blast
  with s1 Cons show ?case by (metis get_put_other)
qed simp

end

interpretation attrs: attribute_store getAttribute setAttribute attributes_ok max_attribute_count
  by unfold_locales
    (auto simp: getAttribute_def setAttribute_def attributes_ok_def split: if_splits)

lemma Attributes_ok [simp]: "attributes_ok Attributes"
  by (simp add: attributes_ok_def Attributes_def)

text \<open>Allocation, n times over.\<close>

fun allocate_run :: "nat \<Rightarrow> 32 word \<Rightarrow> (exn + nat) list" where
  "allocate_run 0 w = []"
| "allocate_run (Suc n) w = (case allocateAttribute w of (r, w') \<Rightarrow> r # allocate_run n w')"

lemma allocate_run_from:
  "unat w + n \<le> 2 ^ 32 \<Longrightarrow> allocate_run n w
     = map (\<lambda>k. if k < max_attribute_count then Inr k else Inl bad_alloc) [unat w ..< unat w + n]"
proof (induction n arbitrary: w)
  case (Suc n)
  show ?case
  proof (cases n)
    case 0
    then show ?thesis by (simp add: allocateAttribute_def Let_def not_less)
  next
    case (Suc m)
    with Suc.prems have "unat w + 1 < 2 ^ 32" by simp
    then have "unat (w + 1) = Suc (unat w)" by (simp add: unat_word_ariths)
    with Suc.IH [of "w + 1"] Suc.prems show ?thesis
      by (simp add: allocateAttribute_def Let_def not_less upt_conv_Cons)
  qed
qed simp

text \<open>
  C30: for the first 2^32 allocations in a process the k-th caller gets the identifier k as long as
  there are any (k below eight), and every later caller gets \<open>bad_alloc\<close>: no two
  callers share an identifier.
\<close>

theorem allocated_identifiers_distinct:
  assumes "n \<le> 2 ^ 32"
  shows "allocate_run n 0
     = map (\<lambda>k. if k < max_attribute_count then Inr k else Inl bad_alloc) [0 ..< n]"
  using allocate_run_from [of 0 n] assms by simp

theorem allocated_identifiers_distinct_witness:
  "allocate_run 9 0 = map Inr [0 ..< 8] @ [Inl bad_alloc]"
  using allocated_identifiers_distinct [of 9]
  by (simp add: max_attribute_count_def upt_conv_Cons)

text \<open>
  On a new object, the assignments one user makes through its identifier are
  defined, leave it with the last value it assigned, and leave every other user's attribute empty
  (as it was) whatever the values are.
\<close>

theorem attributes_do_not_interfere:
  assumes "i < max_attribute_count" "j < max_attribute_count" "j \<noteq> i" "vs \<noteq> []"
  shows "\<exists>a. attrs.puts i vs (Attributes :: 'v attributes) = Some a
    \<and> getAttribute a i = Some (last vs) \<and> getAttribute a j = Some None"
proof -
  obtain a where a: "attrs.puts i vs (Attributes :: 'v attributes) = Some a"
    using attrs.puts_defined [OF Attributes_ok assms(1)] by blast
  moreover have "getAttribute (Attributes :: 'v attributes) j = Some None"
    using assms(2) by (simp add: getAttribute_def Attributes_def)
  ultimately show ?thesis
    using attrs.puts_last [OF Attributes_ok a assms(4)] attrs.puts_frame [OF Attributes_ok a assms(3)]
    by simp
qed

theorem attributes_do_not_interfere_witness:
  "\<exists>a. attrs.puts 0 [Some (1::nat), None] Attributes = Some a
    \<and> getAttribute a 0 = Some None \<and> getAttribute a 3 = Some None"
  using attributes_do_not_interfere [of 0 3 "[Some (1::nat), None]"]
  by (simp add: max_attribute_count_def)

end
