(* ===== verification/HttpTypes.thy ===== *)
theory HttpTypes
  imports ParsingHelpers
begin

text \<open>
  The value types of Spin, \<^verbatim>\<open>lib/Spin/Details\<close>: IPv4 addresses, header fields, HTTP
  requests and HTTP responses with their serialisation.
\<close>

section \<open>Addresses\<close>

text \<open>
  \<open>Address\<close> is a union of a 32-bit integer and four bytes. Which byte is which part of the
  integer depends on the machine; \<open>u8_of\<close> reads the bytes of the integer, in memory order,
  on a little-endian machine.
\<close>

record address =
  u32 :: "32 word"

definition Address_u32 :: "32 word \<Rightarrow> address" where
  "Address_u32 v = \<lparr>u32 = v\<rparr>"

definition u8_of :: "address \<Rightarrow> nat \<Rightarrow> 8 word" where
  "u8_of a i = ucast (drop_bit (8 * i) (u32 a))"

definition Address_u8 :: "8 word \<Rightarrow> 8 word \<Rightarrow> 8 word \<Rightarrow> 8 word \<Rightarrow> address" where
  "Address_u8 a b c d = \<lparr>u32 = ucast a + push_bit 8 (ucast b) + push_bit 16 (ucast c) + push_bit 24 (ucast d)\<rparr>"

definition address_eq :: "address \<Rightarrow> address \<Rightarrow> bool" where
  "address_eq lhs rhs \<longleftrightarrow> u32 lhs = u32 rhs"

definition address_neq :: "address \<Rightarrow> address \<Rightarrow> bool" where
  "address_neq lhs rhs \<longleftrightarrow> u32 lhs \<noteq> u32 rhs"

section \<open>Header fields\<close>

record header =
  hname :: string
  hvalue :: string

definition Header :: "string \<Rightarrow> string \<Rightarrow> header" where
  "Header n v = \<lparr>hname = n, hvalue = v\<rparr>"

lemma Header_sel [simp]: "hname (Header n v) = n" "hvalue (Header n v) = v"
  by (simp_all add: Header_def)

lemma Header_collapse [simp]: "Header (hname h) (hvalue h) = h"
  by (simp add: Header_def)

text \<open>The loop \<open>while (curr != end && curr->name_ != ...) ++curr\<close>: the first field of that name.\<close>

fun find_header :: "string \<Rightarrow> header list \<Rightarrow> header option" where
  "find_header n [] = None"
| "find_header n (h # hs) = (if hname h \<noteq> n then find_header n hs else Some h)"

lemma find_header_eq: "find_header n hs = find (\<lambda>h. hname h = n) hs"
  by (induction hs) auto

lemma find_header_None: "find_header n hs = None \<longleftrightarrow> n \<notin> hname ` set hs"
  by (induction hs) auto

section \<open>Requests\<close>

text \<open>\<open>connection\<close> identifies the connection the weak pointer refers to.\<close>

record request =
  connection :: nat
  verb :: string
  url :: string
  protocol_and_version :: string
  header_fields :: "header list"
  body :: string

definition Request :: "nat \<Rightarrow> string \<Rightarrow> string \<Rightarrow> string \<Rightarrow> request" where
  "Request c m u p = \<lparr>connection = c, verb = m, url = u, protocol_and_version = p,
     header_fields = [], body = []\<rparr>"

text \<open>\<open>found_one\<close> starts as \<open>false\<close> and no statement of the loop changes it.\<close>

fun getHeaderValue_loop :: "string \<Rightarrow> bool \<Rightarrow> header list \<Rightarrow> string \<Rightarrow> string" where
  "getHeaderValue_loop n found_one [] retval = retval"
| "getHeaderValue_loop n found_one (h # hs) retval =
     (if hname h = n
      then getHeaderValue_loop n found_one hs (retval @ ((if found_one then '','' else []) @ hvalue h))
      else getHeaderValue_loop n found_one hs retval)"

definition getHeaderValue :: "request \<Rightarrow> string \<Rightarrow> string" where
  "getHeaderValue r n = getHeaderValue_loop n False (header_fields r) []"

lemma getHeaderValue_loop_eq:
  "getHeaderValue_loop n False hs acc = acc @ concat (map hvalue (filter (\<lambda>h. hname h = n) hs))"
  by (induction hs arbitrary: acc) auto

text \<open>
  the value of a header that occurs several times is the values run together with
  nothing between them (the separating comma is never written); a header that does not
  occur has the empty value.
\<close>

theorem getHeaderValue_concatenates:
  "getHeaderValue r n = concat (map hvalue (filter (\<lambda>h. hname h = n) (header_fields r)))
   \<and> (n \<notin> hname ` set (header_fields r) \<longleftrightarrow> filter (\<lambda>h. hname h = n) (header_fields r) = [])"
  by (auto simp: getHeaderValue_def getHeaderValue_loop_eq filter_empty_conv)

section \<open>Responses\<close>

datatype status_code =
    Continue | Switching_protocols
  | OK | Created | Accepted | Non_authoritive_information | No_content | Reset_content | Partial_content
  | Multiple_choices | Moved_permanently | Found | See_other | Not_modified | Use_proxy
  | Temporary_redirect
  | Bad_request | Unauthorized | Payment_required | Forbidden | Not_found | Method_not_allowed
  | Not_acceptable | Proxy_authentication_required | Request_time_out | Conflict | Gone
  | Length_required | Precondition_failed | Request_entity_too_large | Request_uri_too_large
  | Unsupported_media_type | Requested_change_not_satisfiable | Expectation_failed
  | Internal_server_error | Not_implemented | Bad_gateway | Service_unavailable
  | Gateway_time_out | Http_version_not_supported

fun status_value :: "status_code \<Rightarrow> nat" where
  "status_value Continue = 100"
| "status_value Switching_protocols = 101"
| "status_value OK = 200"
| "status_value Created = 201"
| "status_value Accepted = 202"
| "status_value Non_authoritive_information = 203"
| "status_value No_content = 204"
| "status_value Reset_content = 205"
| "status_value Partial_content = 206"
| "status_value Multiple_choices = 300"
| "status_value Moved_permanently = 301"
| "status_value Found = 302"
| "status_value See_other = 303"
| "status_value Not_modified = 304"
| "status_value Use_proxy = 305"
| "status_value Temporary_redirect = 307"
| "status_value Bad_request = 400"
| "status_value Unauthorized = 401"
| "status_value Payment_required = 402"
| "status_value Forbidden = 403"
| "status_value Not_found = 404"
| "status_value Method_not_allowed = 405"
| "status_value Not_acceptable = 406"
| "status_value Proxy_authentication_required = 407"
| "status_value Request_time_out = 408"
| "status_value Conflict = 409"
| "status_value Gone = 410"
| "status_value Length_required = 411"
| "status_value Precondition_failed = 412"
| "status_value Request_entity_too_large = 413"
| "status_value Request_uri_too_large = 414"
| "status_value Unsupported_media_type = 415"
| "status_value Requested_change_not_satisfiable = 416"
| "status_value Expectation_failed = 417"
| "status_value Internal_server_error = 500"
| "status_value Not_implemented = 501"
| "status_value Bad_gateway = 502"
| "status_value Service_unavailable = 503"
| "status_value Gateway_time_out = 504"
| "status_value Http_version_not_supported = 505"

text \<open>
  The table of reason strings by index; indices without an entry are null pointers.
  (The entry for temporary redirects is at 306, as it is in the source.)
\<close>

definition reason_string_rows :: "(nat \<times> string list) list" where
  "reason_string_rows =
    [(100, [''Continue'', ''Switching Protocols'']),
     (200, [''OK'', ''Created'', ''Accepted'', ''Non-Authoritative Information'', ''No Content'',
            ''Reset Content'', ''Partial Content'']),
     (300, [''Multiple Choices'', ''Moved Permanently'', ''Found'', ''See Other'', ''Not Modified'',
            ''Use Proxy'', ''Temporary Redirect'']),
     (400, [''Bad Request'', ''Unauthorized'', ''Payment Required'', ''Forbidden'', ''Not Found'',
            ''Method Not Allowed'', ''Not Acceptable'', ''Proxy Authentication Required'',
            ''Request Time-out'', ''Conflict'', ''Gone'', ''Length Required'', ''Precondition Failed'',
            ''Request Entity Too Large'', ''Request-URI Too Large'', ''Unsupported Media Type'',
            ''Requested range not satisfiable'', ''Expectation Failed'']),
     (500, [''Internal Server Error'', ''Not Implemented'', ''Bad Gateway'', ''Service Unavailable'',
            ''Gateway Time-out'', ''HTTP Version not supported''])]"

fun row_lookup :: "(nat \<times> string list) list \<Rightarrow> nat \<Rightarrow> string option" where
  "row_lookup [] i = None"
| "row_lookup ((n, rs) # rows) i =
     (if n \<le> i \<and> i - n < length rs then Some (rs ! (i - n)) else row_lookup rows i)"

definition reason_strings :: "nat \<Rightarrow> string option" where
  "reason_strings i = row_lookup reason_string_rows i"

record response =
  rprotocol_and_version :: string
  status_code :: int
  reason_string :: string
  rheader_fields :: "header list"
  rbody :: string

definition Response :: "string \<Rightarrow> int \<Rightarrow> string \<Rightarrow> response" where
  "Response p c r = \<lparr>rprotocol_and_version = p, status_code = c, reason_string = r,
     rheader_fields = [], rbody = []\<rparr>"

lemma Response_inject [simp]: "Response p c r = Response p' c' r' \<longleftrightarrow> p = p' \<and> c = c' \<and> r = r'"
  by (auto simp: Response_def)

text \<open>
  The constructor from a status code makes a \<open>std::string\<close> of the table's entry. Making a
  \<open>std::string\<close> of a null pointer has no defined result: \<open>None\<close>.
\<close>

definition Response_of_code :: "string \<Rightarrow> status_code \<Rightarrow> response option" where
  "Response_of_code p c =
     map_option (Response p (int (status_value c))) (reason_strings (status_value c))"

definition addHeader :: "string \<Rightarrow> string \<Rightarrow> response \<Rightarrow> response" where
  "addHeader n v r = r\<lparr>rheader_fields := rheader_fields r @ [Header n v]\<rparr>"

definition setBody :: "string \<Rightarrow> response \<Rightarrow> response" where
  "setBody b r = r\<lparr>rbody := b\<rparr>"

text \<open>
  A response made from a status code has the code and a reason string for every code
  of the enumeration except the temporary redirect (307), whose table entry is missing, so that making the
  response has no defined result.
\<close>

theorem Response_of_code_defined:
  "((\<exists>reason. reason \<noteq> [] \<and> Response_of_code p c = Some (Response p (int (status_value c)) reason))
     \<longleftrightarrow> c \<noteq> Temporary_redirect)
   \<and> (Response_of_code p c = None \<longleftrightarrow> c = Temporary_redirect)"
  by (cases c) (simp_all add: Response_of_code_def reason_strings_def reason_string_rows_def)

section \<open>Serialisation of responses\<close>

definition show_int :: "int \<Rightarrow> string" where
  "show_int i = (if i < 0 then ''-'' @ show_nat (nat (- i)) else show_nat (nat i))"

text \<open>\<open>HeaderAppender\<close> and, with the same text, Damon's \<open>AppendHeader\<close>.\<close>

definition append_header :: "boost_lib \<Rightarrow> string \<Rightarrow> header \<Rightarrow> string" where
  "append_header L headers h = headers @ format_str L (''%1%: %2%'' @ CRLF) [hname h, hvalue h]"

definition serialize :: "boost_lib \<Rightarrow> response \<Rightarrow> string" where
  "serialize L r =
     (let hs = (if find_header ''Content-Length'' (rheader_fields r) = None
                then rheader_fields r @ [Header ''Content-Length'' (cast_string L (length (rbody r)))]
                else rheader_fields r);
          status_line = format_str L (''%1% %2% %3%'' @ CRLF)
            [rprotocol_and_version r, show_int (status_code r), reason_string r];
          headers = foldl (append_header L) status_line hs @ CRLF
      in headers @ rbody r)"

section \<open>The wire format\<close>

text \<open>The bytes of a block of header fields, with the empty line behind it.\<close>

definition header_line :: "header \<Rightarrow> string" where
  "header_line h = hname h @ '': '' @ hvalue h"

definition header_block :: "header list \<Rightarrow> string" where
  "header_block hs = concat (map (\<lambda>h. header_line h @ CRLF) hs) @ CRLF"

lemma format_header: "positional_format L \<Longrightarrow>
    append_header L s h = s @ header_line h @ CRLF"
  by (simp add: append_header_def header_line_def positional_formatD is_digit_def digit_value_def)

lemma fold_append_header: "positional_format L \<Longrightarrow>
    foldl (append_header L) s hs = s @ concat (map (\<lambda>h. header_line h @ CRLF) hs)"
  by (induction hs arbitrary: s) (simp_all add: format_header)

definition with_content_length :: "header list \<Rightarrow> string \<Rightarrow> header list" where
  "with_content_length hs b = (if find_header ''Content-Length'' hs = None
     then hs @ [Header ''Content-Length'' (show_nat (length b))] else hs)"

lemma serialize_wire:
  assumes "positional_format L" "decimal_casts L"
  shows "serialize L r = rprotocol_and_version r @ [SP] @ show_int (status_code r) @ [SP]
      @ reason_string r @ CRLF @ header_block (with_content_length (rheader_fields r) (rbody r)) @ rbody r"
  using assms
  by (simp add: serialize_def Let_def fold_append_header header_block_def with_content_length_def
      positional_formatD decimal_castsD is_digit_def digit_value_def)

end
