(* ===== verification/MessageReader.thy ===== *)
theory MessageReader
  imports HttpTypes
begin

text \<open>
  The header loop that \<open>HTTPDataHandler::onDataReady\<close> (for requests) and Damon's
  \<open>getResponse\<close> (for responses) both contain: from the iterator behind the start line,
  take header fields until the empty line, or stop where the buffer does not hold the next
  field completely. \<open>add\<close> is the \<open>push_back\<close> on the message's header fields.
\<close>

lemma findHeaderEnd_from_bounds:
  "from_where \<le> wh \<Longrightarrow> wh \<le> whence \<Longrightarrow> whence \<le> length b \<Longrightarrow>
   from_where \<le> findHeaderEnd_from b from_where wh whence
   \<and> findHeaderEnd_from b from_where wh whence \<le> whence"
proof (induction b from_where wh whence rule: findHeaderEnd_from.induct)
  case (1 b from_where wh whence)
  define p where "p = advanceThroughNewLines b (advanceUntilEndOfLine b wh whence) whence"
  have p: "wh \<le> p" "p \<le> whence"
    using 1 scan_bounds(5-8) unfolding p_def by (meson le_trans)+
  have q: "from_where \<le> backupThroughNewlines b from_where p" "backupThroughNewlines b from_where p \<le> p"
    using backup_bounds [of from_where p b] p 1 by auto
  show ?case
    using 1 p q by (subst (1 2) findHeaderEnd_from.simps) (auto simp: Let_def p_def [symmetric])
qed

lemma findHeaderEnd_bounds:
  "wh \<le> length b \<Longrightarrow> wh \<le> findHeaderEnd b wh (length b) \<and> findHeaderEnd b wh (length b) \<le> length b"
  by (simp add: findHeaderEnd_def findHeaderEnd_from_bounds)

lemma findHeaderEnd_beyond: "length b \<le> wh \<Longrightarrow> findHeaderEnd b wh (length b) = wh"
  unfolding findHeaderEnd_def
  by (subst findHeaderEnd_from.simps, subst advanceThroughNewLines.simps,
      subst advanceUntilEndOfLine.simps)
    (simp add: backupThroughNewlines.simps Let_def range_simps)

text \<open>
  \<open>eoh\<close> is \<open>end_of_headers_found\<close>. The result is the message, the iterator and the flag
  when the loop is left; \<open>end_of_buffer_found\<close> leaves the loop at once.
\<close>

function header_loop ::
  "(header \<Rightarrow> 'm \<Rightarrow> 'm) \<Rightarrow> string \<Rightarrow> nat \<Rightarrow> bool \<Rightarrow> 'm \<Rightarrow> exn + 'm \<times> nat \<times> bool" where
  "header_loop add b wh eoh m =
     (let whence = advanceThroughIgnorableWhiteSpace b wh (length b) in
      if moreHeaders b wh whence then
        (let wh' = whence; whence' = findHeaderEnd b wh' (length b) in
         if wh' \<noteq> whence' then
           (case splitHeader b wh' whence' of
              Inl e \<Rightarrow> Inl e
            | Inr (n, v) \<Rightarrow>
                if \<not> eoh \<and> whence' \<noteq> length b
                then header_loop add b whence' eoh (add (Header n v) m)
                else Inr (add (Header n v) m, whence', eoh))
         else Inr (m, wh', eoh))
      else Inr (m, whence, True))"
  by pat_completeness auto
termination
proof (relation "measure (\<lambda>(add, b, wh, eoh, m). length b - wh)", goal_cases)
  case (2 add b wh eoh m whence wh' whence')
  show ?case
  proof (cases "wh \<le> length b")
    case True
    with 2 show ?thesis
      using scan_bounds(1,2) [of wh "length b" b] findHeaderEnd_bounds [of wh' b] by auto
  next
    case False
    then have "whence = wh"
      using 2 by (subst (asm) advanceThroughIgnorableWhiteSpace.simps) simp
    with False 2 findHeaderEnd_beyond [of b wh] show ?thesis by auto
  qed
qed simp

declare header_loop.simps [simp del]

lemma header_loop_bounds:
  "wh \<le> length b \<Longrightarrow> header_loop add b wh eoh m = Inr (m', wh', eoh') \<Longrightarrow> wh \<le> wh' \<and> wh' \<le> length b"
proof (induction add b wh eoh m rule: header_loop.induct)
  case (1 add b wh eoh m)
  define whence where "whence = advanceThroughIgnorableWhiteSpace b wh (length b)"
  define whence' where "whence' = findHeaderEnd b whence (length b)"
  have w: "wh \<le> whence" "whence \<le> length b"
    using scan_bounds(1,2) [of wh "length b" b] 1 by (auto simp: whence_def)
  then have w': "whence \<le> whence'" "whence' \<le> length b"
    using findHeaderEnd_bounds [of whence b] by (auto simp: whence'_def)
  from 1(3) show ?case
    using w w' 1(1) [OF whence_def _ refl whence'_def]
    by (subst (asm) header_loop.simps)
      (fastforce simp: Let_def whence_def [symmetric] whence'_def [symmetric]
        split: if_splits sum.splits prod.splits)
qed


section \<open>Reading back a header block\<close>

text \<open>Header fields that survive the trip: a name without colon, and no white space at either end.\<close>

definition trimmed :: "string \<Rightarrow> bool" where
  "trimmed s \<longleftrightarrow> s = [] \<or> \<not> isIgnorableWhiteSpace (hd s) \<and> \<not> isIgnorableWhiteSpace (last s)"

definition one_line :: "string \<Rightarrow> bool" where
  "one_line s \<longleftrightarrow> (\<forall>c\<in>set s. \<not> isNewLine c)"

definition good_header :: "header \<Rightarrow> bool" where
  "good_header h \<longleftrightarrow> hname h \<noteq> [] \<and> CHR '':'' \<notin> set (hname h)
     \<and> trimmed (hname h) \<and> one_line (hname h) \<and> trimmed (hvalue h) \<and> one_line (hvalue h)"

text \<open>What may follow a complete header block: nothing, or something that is not white space.\<close>

definition clean_start :: "string \<Rightarrow> bool" where
  "clean_start s \<longleftrightarrow> s = [] \<or> \<not> isIgnorableWhiteSpace (hd s)"

lemma clean_start_Nil [simp]: "clean_start []"
  by (simp add: clean_start_def)

text \<open>Words, as they stand in start lines and in some header fields.\<close>

definition no_space :: "string \<Rightarrow> bool" where
  "no_space s \<longleftrightarrow> list_all (\<lambda>x. \<not> isIgnorableWhiteSpace x) s"

lemma no_space_trimmed: "no_space s \<Longrightarrow> trimmed s \<and> one_line s"
  by (cases s rule: rev_cases)
    (auto simp: no_space_def list_all_iff trimmed_def one_line_def isNewLine_def isIgnorableWhiteSpace_def hd_append)

lemma no_space_append: "no_space (s @ t) \<longleftrightarrow> no_space s \<and> no_space t"
  by (simp add: no_space_def)

lemma no_space_show_nat: "no_space (show_nat n)"
  using show_nat_digits [of n] by (auto simp: no_space_def list_all_iff isIgnorableWhiteSpace_def dest!: digit_not_special)

lemma findHeaderEnd_line:
  assumes b: "b = pre @ line @ nl @ rest" and line: "line \<noteq> []" "one_line line"
    and nl: "nl \<noteq> []" "\<forall>c\<in>set nl. isNewLine c"
    and rest: "rest \<noteq> [] \<and> \<not> isIgnorableWhiteSpace (hd rest)
      \<or> rest = [] \<and> (2 \<le> count_list nl CR \<or> 2 \<le> count_list nl LF)"
  shows "findHeaderEnd b (length pre) (length b) = length pre + length line"
proof -
  have e: "advanceUntilEndOfLine b (length pre) (length b) = length pre + length line"
    using line nl by (intro advance_until_eol_skip [OF _ _ b]) (auto simp: one_line_def neq_Nil_conv)
  have n: "advanceThroughNewLines b (length (pre @ line)) (length b)
      = length (pre @ line) + length nl"
  proof (rule advance_through_nl_skip)
    show "rest = [] \<or> \<not> isNewLine (hd rest)" using rest by auto
  qed (use nl b in auto)
  have "backupThroughNewlines b (length pre) ((length pre + length line) + length nl)
      = length pre + length line"
  proof (rule backup_run)
    show "\<forall>i. length pre + length line \<le> i \<and> i < length pre + length line + length nl
        \<longrightarrow> isNewLine (b ! i)"
      using nl(2) by (auto simp: b nth_append)
    show "length pre < length pre + length line" using line by simp
    have "b ! (length pre + length line - 1) = last line"
      using line(1) by (cases line rule: rev_cases) (simp_all add: b nth_append)
    then show "\<not> isNewLine (b ! (length pre + length line - 1))"
      using line by (auto simp: one_line_def)
  qed
  moreover have "b ! (length pre + length line + length nl) = hd rest" if "rest \<noteq> []"
    using that by (simp add: b nth_append hd_conv_nth)
  moreover have "moreHeaders b (length pre + length line) (length b)
      = (count_list nl CR < 2 \<and> count_list nl LF < 2)" if "rest = []"
  proof -
    have "seg b (length pre + length line) (length b) = nl"
      using that by (simp add: b seg_def)
    then show ?thesis by (simp only: moreHeaders_eq [OF order_refl])
  qed
  ultimately show ?thesis
    unfolding findHeaderEnd_def using e n rest
    by (subst findHeaderEnd_from.simps) (auto simp: Let_def b)
qed

lemma splitHeader_line:
  assumes b: "b = pre @ header_line h @ rest" and h: "good_header h"
  shows "splitHeader b (length pre) (length pre + length (header_line h)) = Inr (hname h, hvalue h)"
proof -
  define n where "n = length pre + length (header_line h)"
  have len: "n \<le> length b" by (simp add: b n_def)
  have sg: "seg b (length pre) n = hname h @ '': '' @ hvalue h"
    by (simp only: b n_def seg_append_mid) (simp add: header_line_def)
  have c: "find_char CHR '':'' b (length pre) n = length pre + length (hname h)"
    using h by (simp only: find_char_eq [OF len] sg)
      (subst takeWhile_append_stop, auto simp: good_header_def)
  have ne: "length pre + length (hname h) \<noteq> n"
    by (simp add: n_def header_line_def)
  have 1: "seg b (length pre) (length pre + length (hname h)) = hname h"
    by (simp add: b seg_def header_line_def)
  have 2: "seg b (length pre + length (hname h) + 1) n = [SP] @ hvalue h @ []"
    by (simp add: b seg_def header_line_def n_def)
  have t1: "trim ([] @ hname h @ []) = hname h"
    using h by (intro trim_padded) (auto simp: good_header_def trimmed_def)
  have t2: "trim ([SP] @ hvalue h @ []) = hvalue h"
    using h by (intro trim_padded) (auto simp: good_header_def trimmed_def)
  have "chomp b (length pre) (length pre + length (hname h)) = hname h"
    using t1 1 len by (subst chomp_eq) (simp_all add: n_def header_line_def)
  moreover have "chomp b (length pre + length (hname h) + 1) n = hvalue h"
    using 2 t2 len by (subst chomp_eq) (simp_all add: n_def header_line_def)
  ultimately show ?thesis
    using c ne by (simp add: splitHeader_def n_def [symmetric])
qed

lemma header_block_Nil [simp]: "header_block [] = CRLF"
  by (simp add: header_block_def)

lemma header_block_Cons: "header_block (h # hs) = header_line h @ CRLF @ header_block hs"
  by (simp add: header_block_def)

lemma good_header_line:
  assumes "good_header h"
  shows "header_line h \<noteq> []" "one_line (header_line h)" "\<not> isIgnorableWhiteSpace (hd (header_line h))"
  using assms by (auto simp: good_header_def header_line_def one_line_def trimmed_def isNewLine_def)

lemma count_list_CRLF [simp]: "count_list (xs @ CRLF) CR = Suc (count_list xs CR)"
  "count_list (xs @ CRLF) LF = Suc (count_list xs LF)"
  by simp_all

text \<open>
  One field: behind white space \<open>sep\<close> that does not end the headers, a header line, and behind
  it new lines \<open>nl\<close> that show that the field is complete.
\<close>

lemma header_step_line:
  assumes b: "b = pre @ sep @ header_line h @ nl @ rest" and h: "good_header h"
    and nl: "nl \<noteq> []" "\<forall>c\<in>set nl. isNewLine c"
    and rest: "rest \<noteq> [] \<and> \<not> isIgnorableWhiteSpace (hd rest)
      \<or> rest = [] \<and> (2 \<le> count_list nl CR \<or> 2 \<le> count_list nl LF)"
    and sep: "\<forall>c\<in>set sep. isIgnorableWhiteSpace c" "count_list sep CR < 2" "count_list sep LF < 2"
  shows "header_loop add b (length pre) False m
     = header_loop add b (length (pre @ sep @ header_line h)) False (add h m)"
proof -
  let ?w = "length (pre @ sep)" and ?w' = "length (pre @ sep @ header_line h)"
  have b1: "b = (pre @ sep) @ header_line h @ nl @ rest" by (simp add: b)
  have "advanceThroughIgnorableWhiteSpace b (length pre) (length b) = length pre + length sep"
    using sep good_header_line [OF h]
    by (intro advance_through_ws_skip [of _ "header_line h @ nl @ rest"]) (auto simp: b1)
  then have w: "advanceThroughIgnorableWhiteSpace b (length pre) (length b) = ?w" by simp
  have "seg b (length pre) ?w = sep" by (simp add: b1 seg_def)
  moreover have "?w \<le> length b" by (simp add: b1)
  ultimately have mh: "moreHeaders b (length pre) ?w"
    using sep by (simp add: moreHeaders_eq)
  have "findHeaderEnd b ?w (length b) = ?w + length (header_line h)"
    using good_header_line [OF h] nl rest by (intro findHeaderEnd_line [OF b1])
  then have e: "findHeaderEnd b ?w (length b) = ?w'" by simp
  have s: "splitHeader b ?w ?w' = Inr (hname h, hvalue h)"
    using splitHeader_line [OF b1 h] by (simp add: add.assoc)
  have ne: "?w \<noteq> ?w'" "?w' \<noteq> length b"
    using good_header_line(1) [OF h] nl(1) by (auto simp: b1)
  show ?thesis
    using w mh e s ne by (subst header_loop.simps) (simp add: Let_def)
qed

lemma header_step:
  assumes b: "b = pre @ sep @ header_block (h # hs) @ rest"
    and h: "good_header h" "\<forall>h\<in>set hs. good_header h" and rest: "clean_start rest"
    and sep: "\<forall>c\<in>set sep. isIgnorableWhiteSpace c" "count_list sep CR < 2" "count_list sep LF < 2"
  shows "header_loop add b (length pre) False m
     = header_loop add b (length (pre @ sep @ header_line h)) False (add h m)"
proof (cases hs)
  case Nil
  have "rest \<noteq> [] \<and> \<not> isIgnorableWhiteSpace (hd rest)
      \<or> rest = [] \<and> (2 \<le> count_list (CRLF @ CRLF) CR \<or> 2 \<le> count_list (CRLF @ CRLF) LF)"
    using rest by (simp add: clean_start_def) blast
  then show ?thesis
    using Nil b h(1) sep
    by (intro header_step_line [where nl = "CRLF @ CRLF" and rest = rest]) (auto simp: header_block_Cons)
next
  case (Cons h' hs')
  have "header_block hs @ rest \<noteq> [] \<and> \<not> isIgnorableWhiteSpace (hd (header_block hs @ rest))"
    using good_header_line [of h'] h(2) Cons by (simp add: header_block_Cons)
  then show ?thesis
    using b h(1) sep
    by (intro header_step_line [where nl = CRLF and rest = "header_block hs @ rest"])
      (auto simp: header_block_Cons)
qed

lemma header_loop_end:
  assumes b: "b = pre @ sep @ rest"
    and rest: "clean_start rest"
    and sep: "\<forall>c\<in>set sep. isIgnorableWhiteSpace c" "2 \<le> count_list sep CR \<or> 2 \<le> count_list sep LF"
  shows "header_loop add b (length pre) eoh m = Inr (m, length (pre @ sep), True)"
proof -
  have w: "advanceThroughIgnorableWhiteSpace b (length pre) (length b) = length pre + length sep"
    using sep rest by (intro advance_through_ws_skip [OF _ _ b]) (auto simp: clean_start_def)
  have "seg b (length pre) (length (pre @ sep)) = sep" by (simp add: b seg_def)
  moreover have "length (pre @ sep) \<le> length b" by (simp add: b)
  ultimately have "\<not> moreHeaders b (length pre) (length (pre @ sep))"
    using sep by (auto simp: moreHeaders_eq)
  then show ?thesis using w by (subst header_loop.simps) (simp add: Let_def)
qed

lemma header_loop_block:
  assumes "b = pre @ sep @ header_block hs @ rest" "\<forall>h\<in>set hs. good_header h" "clean_start rest"
    and "\<forall>c\<in>set sep. isIgnorableWhiteSpace c" "count_list sep CR < 2" "count_list sep LF < 2"
    and "hs = [] \<Longrightarrow> CR \<in> set sep \<or> LF \<in> set sep"
  shows "header_loop add b (length pre) False m
     = Inr (fold add hs m, length (pre @ sep @ header_block hs), True)"
  using assms
proof (induction hs arbitrary: pre sep m)
  case Nil
  have "1 \<le> count_list sep CR \<or> 1 \<le> count_list sep LF"
    using Nil.prems(7) by (metis One_nat_def Suc_leI count_list_0_iff neq0_conv)
  with Nil show ?case
    using header_loop_end [of b pre "sep @ CRLF" rest add False m] by auto
next
  case (Cons h hs)
  have "header_loop add b (length pre) False m
     = header_loop add b (length (pre @ sep @ header_line h)) False (add h m)"
    using Cons.prems by (intro header_step) auto
  also have "\<dots> = Inr (fold add hs (add h m), length ((pre @ sep @ header_line h) @ CRLF @ header_block hs), True)"
    using Cons.prems by (intro Cons.IH) (auto simp: header_block_Cons)
  finally show ?case by (simp add: header_block_Cons)
qed

section \<open>White space behind a header block\<close>

text \<open>All fields but the last one, whatever comes behind the block.\<close>

lemma header_loop_lines:
  assumes "b = pre @ sep @ header_block (hs @ [h]) @ rest" "\<forall>g \<in> set (hs @ [h]). good_header g"
    and "\<forall>c \<in> set sep. isIgnorableWhiteSpace c" "count_list sep CR < 2" "count_list sep LF < 2"
  shows "\<exists>pre' sep'. b = pre' @ sep' @ header_line h @ CRLF @ CRLF @ rest
    \<and> header_loop add b (length pre) False m = header_loop add b (length pre') False (fold add hs m)
    \<and> (\<forall>c \<in> set sep'. isIgnorableWhiteSpace c) \<and> count_list sep' CR < 2 \<and> count_list sep' LF < 2"
  using assms
proof (induction hs arbitrary: pre sep m)
  case Nil
  then show ?case by (intro exI [of _ pre] exI [of _ sep]) (simp add: header_block_Cons)
next
  case (Cons g hs)
  let ?next = "header_block (hs @ [h]) @ rest"
  obtain g' hs' where g': "hs @ [h] = g' # hs'" by (cases "hs @ [h]") auto
  have "?next \<noteq> [] \<and> \<not> isIgnorableWhiteSpace (hd ?next)"
    using good_header_line [of g'] Cons.prems(2) unfolding g' by (metis append_Cons append_is_Nil_conv g' header_block_Cons hd_append2 list.set_intros(1) list.set_intros(2))
  moreover have b: "b = pre @ sep @ header_line g @ CRLF @ ?next" using Cons.prems(1) by (simp add: header_block_Cons)
  ultimately have "header_loop add b (length pre) False m = header_loop add b (length (pre @ sep @ header_line g)) False (add g m)"
    using Cons.prems by (intro header_step_line [where nl = CRLF and rest = ?next]) auto
  moreover have "b = (pre @ sep @ header_line g) @ CRLF @ header_block (hs @ [h]) @ rest" using b by simp
  then have "\<exists>pre' sep'. b = pre' @ sep' @ header_line h @ CRLF @ CRLF @ rest
    \<and> header_loop add b (length (pre @ sep @ header_line g)) False (add g m) = header_loop add b (length pre') False (fold add hs (add g m))
    \<and> (\<forall>c \<in> set sep'. isIgnorableWhiteSpace c) \<and> count_list sep' CR < 2 \<and> count_list sep' LF < 2"
    using Cons.prems(2) by (intro Cons.IH) auto
  ultimately show ?case by simp
qed

text \<open>New lines behind the empty line are passed over with it.\<close>

lemma header_loop_new_lines:
  assumes "b = pre @ sep @ header_block (hs @ [h]) @ nl @ rest" "\<forall>g \<in> set (hs @ [h]). good_header g"
    and "\<forall>c \<in> set sep. isIgnorableWhiteSpace c" "count_list sep CR < 2" "count_list sep LF < 2"
    and "\<forall>c \<in> set nl. isNewLine c" "clean_start rest"
  shows "header_loop add b (length pre) False m = Inr (fold add (hs @ [h]) m, length (pre @ sep @ header_block (hs @ [h]) @ nl), True)"
proof -
  let ?nl = "CRLF @ CRLF @ nl"
  obtain pre' sep' where l: "b = pre' @ sep' @ header_line h @ CRLF @ CRLF @ nl @ rest"
    "header_loop add b (length pre) False m = header_loop add b (length pre') False (fold add hs m)"
    "\<forall>c \<in> set sep'. isIgnorableWhiteSpace c" "count_list sep' CR < 2" "count_list sep' LF < 2"
    using header_loop_lines [OF assms(1-5), of add m] by auto
  have nl: "\<forall>c \<in> set ?nl. isNewLine c" "2 \<le> count_list ?nl CR" using assms(6) by (auto simp: isNewLine_def)
  have "rest \<noteq> [] \<and> \<not> isIgnorableWhiteSpace (hd rest) \<or> rest = [] \<and> (2 \<le> count_list ?nl CR \<or> 2 \<le> count_list ?nl LF)"
    using assms(7) nl(2) by (auto simp: clean_start_def)
  then have "header_loop add b (length pre') False (fold add hs m)
      = header_loop add b (length (pre' @ sep' @ header_line h)) False (add h (fold add hs m))"
    using l(1,3-5) assms(2) nl(1) by (intro header_step_line [where nl = ?nl and rest = rest]) auto
  also have "\<dots> = Inr (add h (fold add hs m), length ((pre' @ sep' @ header_line h) @ ?nl), True)"
    using l(1) assms(7) nl by (intro header_loop_end [where rest = rest]) (auto simp: isNewLine_def isIgnorableWhiteSpace_def)
  also have "length ((pre' @ sep' @ header_line h) @ ?nl) = length (pre @ sep @ header_block (hs @ [h]) @ nl)"
    using arg_cong [OF l(1), of length] arg_cong [OF assms(1), of length] by simp
  finally show ?thesis using l(2) by simp
qed

text \<open>A space behind the empty line makes the last field a folded one, whose end does not come.\<close>

lemma findHeaderEnd_folded:
  assumes b: "b = pre @ line @ nl @ bd" and line: "line \<noteq> []" "one_line line"
    and nl: "nl \<noteq> []" "\<forall>c\<in>set nl. isNewLine c"
    and bd: "bd \<noteq> []" "\<forall>c \<in> set bd. \<not> isNewLine c" "isIgnorableWhiteSpace (hd bd)"
  shows "findHeaderEnd b (length pre) (length b) = length pre"
proof -
  let ?p = "length (pre @ line @ nl)"
  have e: "advanceUntilEndOfLine b (length pre) (length b) = length (pre @ line)"
    using line nl advance_until_eol_skip [of line "nl @ bd" b pre] b by (auto simp: one_line_def neq_Nil_conv)
  have n: "advanceThroughNewLines b (length (pre @ line)) (length b) = ?p"
    using nl(2) bd(1,2) advance_through_nl_skip [of nl bd b "pre @ line"] b by auto
  have p: "?p < length b" "b ! ?p = hd bd" using bd(1) by (simp_all add: b nth_append hd_conv_nth)
  have b2: "b = (pre @ line @ nl) @ bd @ []" by (simp add: b)
  have e2: "advanceUntilEndOfLine b ?p (length b) = length b"
    using advance_until_eol_skip [OF bd(2) _ b2] by (simp add: b)
  have n2: "advanceThroughNewLines b (length b) (length b) = length b"
    by (subst advanceThroughNewLines.simps) simp
  have q: "backupThroughNewlines b (length pre) (length b) = length b"
  proof -
    have "b ! (length b - 1) = last b" using bd(1) b by (intro last_conv_nth [symmetric]) simp
    also have "\<dots> = last bd" using bd(1) by (simp add: b)
    finally have "b ! (length b - 1) = last bd" .
    then show ?thesis using bd(1,2) by (subst backupThroughNewlines.simps) simp
  qed
  have "findHeaderEnd_from b (length pre) ?p (length b) = length pre"
    by (subst findHeaderEnd_from.simps) (simp only: Let_def e2 n2 q, simp add: moreHeaders_eq)
  then show ?thesis
    unfolding findHeaderEnd_def using bd(3) p
    by (subst findHeaderEnd_from.simps) (simp only: Let_def e n, simp)
qed

lemma header_loop_folded:
  assumes "b = pre @ sep @ header_block (hs @ [h]) @ bd" "\<forall>g \<in> set (hs @ [h]). good_header g"
    and "\<forall>c \<in> set sep. isIgnorableWhiteSpace c" "count_list sep CR < 2" "count_list sep LF < 2"
    and "bd \<noteq> []" "\<forall>c \<in> set bd. \<not> isNewLine c" "isIgnorableWhiteSpace (hd bd)"
  shows "\<exists>wh. header_loop add b (length pre) False m = Inr (fold add hs m, wh, False) \<and> drop wh b = header_line h @ CRLF @ CRLF @ bd"
proof -
  obtain pre' sep' where l: "b = pre' @ sep' @ header_line h @ CRLF @ CRLF @ bd"
    "header_loop add b (length pre) False m = header_loop add b (length pre') False (fold add hs m)"
    "\<forall>c \<in> set sep'. isIgnorableWhiteSpace c" "count_list sep' CR < 2" "count_list sep' LF < 2"
    using header_loop_lines [OF assms(1-5), of add m] by auto
  have h: "good_header h" using assms(2) by simp
  have "advanceThroughIgnorableWhiteSpace b (length pre') (length b) = length pre' + length sep'"
    using l(1,3) good_header_line [OF h]
    by (intro advance_through_ws_skip [of _ "header_line h @ CRLF @ CRLF @ bd"]) auto
  then have w: "advanceThroughIgnorableWhiteSpace b (length pre') (length b) = length (pre' @ sep')" by simp
  have "seg b (length pre') (length (pre' @ sep')) = sep'" by (simp add: l(1) seg_def)
  moreover have "length (pre' @ sep') \<le> length b" by (simp add: l(1))
  ultimately have mh: "moreHeaders b (length pre') (length (pre' @ sep'))" using l(4,5) by (simp add: moreHeaders_eq)
  have "findHeaderEnd b (length (pre' @ sep')) (length b) = length (pre' @ sep')"
    using good_header_line [OF h] assms(6-8) l(1)
    by (intro findHeaderEnd_folded [where line = "header_line h" and nl = "CRLF @ CRLF" and bd = bd]) (auto simp: isNewLine_def)
  then have "header_loop add b (length pre') False (fold add hs m) = Inr (fold add hs m, length (pre' @ sep'), False)"
    using w mh by (subst header_loop.simps) (simp add: Let_def)
  moreover have "drop (length (pre' @ sep')) b = header_line h @ CRLF @ CRLF @ bd" by (simp add: l(1))
  ultimately show ?thesis using l(2) by auto
qed

section \<open>Part of a header block\<close>

definition header_lines :: "header list \<Rightarrow> string" where
  "header_lines hs = concat (map (\<lambda>h. header_line h @ CRLF) hs)"

lemma header_block_lines: "header_block hs = header_lines hs @ CRLF"
  by (simp add: header_block_def header_lines_def)

lemma header_lines_simps [simp]: "header_lines [] = []"
  "header_lines (h # hs) = header_line h @ CRLF @ header_lines hs"
  by (simp_all add: header_lines_def)

text \<open>A buffer that ends inside a field, or behind the line end of a field: the field is not taken.\<close>

lemma prefix_of_line:
  assumes "part @ missing = line @ CRLF" "part \<noteq> []" "line \<noteq> []"
  obtains line' nl where "part = line' @ nl" "line' \<noteq> []" "set line' \<subseteq> set line" "nl \<in> {[], [CR], CRLF}"
proof -
  consider us where "line = part @ us" | us where "part = line @ us" "us @ missing = CRLF"
    using assms(1) by (auto simp: append_eq_append_conv2)
  then show thesis
  proof cases
    case 1
    with assms that [of part "[]"] show thesis by auto
  next
    case 2
    then have "us \<in> {[], [CR], CRLF}" by (auto simp: Cons_eq_append_conv append_eq_Cons_conv)
    with 2 assms that [of line us] show thesis by auto
  qed
qed

lemma header_loop_stop:
  assumes b: "b = pre @ sep @ part" and part: "part \<noteq> []" "part @ missing = header_line h @ CRLF" and h: "good_header h"
    and sep: "\<forall>c\<in>set sep. isIgnorableWhiteSpace c" "count_list sep CR < 2" "count_list sep LF < 2"
  shows "header_loop add b (length pre) False m = Inr (m, length (pre @ sep), False)"
proof -
  let ?w = "length (pre @ sep)"
  have "hd part = hd (header_line h)"
    using part good_header_line(1) [OF h] by (metis hd_append2)
  then have hd: "\<not> isIgnorableWhiteSpace (hd part)" using good_header_line(3) [OF h] by simp
  obtain line nl where p: "part = line @ nl" "line \<noteq> []" "set line \<subseteq> set (header_line h)" "nl \<in> {[], [CR], CRLF}"
    using prefix_of_line [OF part(2,1) good_header_line(1) [OF h]] by blast
  then have line: "\<forall>c\<in>set line. \<not> isNewLine c" using good_header_line(2) [OF h] by (auto simp: one_line_def)
  have b1: "b = (pre @ sep) @ line @ nl" by (simp add: b p)
  have "advanceThroughIgnorableWhiteSpace b (length pre) (length b) = length pre + length sep"
    using sep hd b by (intro advance_through_ws_skip) auto
  then have w: "advanceThroughIgnorableWhiteSpace b (length pre) (length b) = ?w" by simp
  have "seg b (length pre) ?w = sep" by (simp add: b seg_def)
  then have mh: "moreHeaders b (length pre) ?w" using sep by (simp add: moreHeaders_eq b)
  have e: "advanceUntilEndOfLine b ?w (length b) = ?w + length line"
    using p line by (intro advance_until_eol_skip [OF _ _ b1]) auto
  have n: "advanceThroughNewLines b (length ((pre @ sep) @ line)) (length b) = length ((pre @ sep) @ line) + length nl"
    using p b1 by (intro advance_through_nl_skip [where rest = "[]"]) auto
  have q: "backupThroughNewlines b ?w ((?w + length line) + length nl) = ?w + length line"
  proof (rule backup_run)
    show "\<forall>i. ?w + length line \<le> i \<and> i < ?w + length line + length nl \<longrightarrow> isNewLine (b ! i)"
    proof (intro allI impI)
      fix i assume i: "?w + length line \<le> i \<and> i < ?w + length line + length nl"
      then obtain j where j: "i = ?w + length line + j" using le_Suc_ex by blast
      then have "b ! i = nl ! j" by (simp add: b1 nth_append)
      moreover have "nl ! j \<in> set nl" using i j by (intro nth_mem) simp
      ultimately show "isNewLine (b ! i)" using p(4) by auto
    qed
    show "?w < ?w + length line" using p by simp
    have "b ! (?w + length line - 1) = last line"
      using p(2) by (cases line rule: rev_cases) (simp_all add: b1 nth_append)
    then show "\<not> isNewLine (b ! (?w + length line - 1))" using p(2) line by auto
  qed
  have "seg b (?w + length line) (length b) = nl" by (simp add: b1 seg_def)
  then have m: "moreHeaders b (?w + length line) (length b)"
    using p(4) by (auto simp: moreHeaders_eq)
  have l: "?w + length line + length nl = length b" by (simp add: b1)
  have n': "advanceThroughNewLines b (?w + length line) (length b) = length b"
    using n l by (simp only: length_append)
  have "findHeaderEnd b ?w (length b) = ?w"
    unfolding findHeaderEnd_def using q m
    by (subst findHeaderEnd_from.simps) (simp only: Let_def e n' l, simp)
  then show ?thesis using w mh by (subst header_loop.simps) (simp add: Let_def)
qed

lemma header_loop_partial:
  assumes "b = pre @ sep @ t" "t \<noteq> []" "t @ missing = header_lines hs" "\<forall>h\<in>set hs. good_header h"
    and "\<forall>c\<in>set sep. isIgnorableWhiteSpace c" "count_list sep CR < 2" "count_list sep LF < 2"
  obtains taken left part where "hs = taken @ left" "left \<noteq> []" "t = header_lines taken @ part"
    "part @ missing = header_lines left"
    "header_loop add b (length pre) False m = Inr (fold add taken m, length b - length part, False)"
  using assms
proof (induction hs arbitrary: pre sep t m thesis)
  case Nil
  then show ?case by simp
next
  case (Cons h hs)
  have h: "good_header h" using Cons.prems by simp
  consider us where "header_line h @ CRLF = t @ us"
    | us where "t = header_line h @ CRLF @ us" "us @ missing = header_lines hs" "us \<noteq> []"
  proof -
    have "t @ missing = (header_line h @ CRLF) @ header_lines hs" using Cons.prems(4) by simp
    then obtain us where "t = (header_line h @ CRLF) @ us \<and> us @ missing = header_lines hs
        \<or> t @ us = header_line h @ CRLF \<and> missing = us @ header_lines hs"
      using append_eq_append_conv2 [of t missing "header_line h @ CRLF" "header_lines hs"] by blast
    then show thesis using that(1) [of us] that(1) [of "[]"] that(2) [of us] by (cases "us = []") auto
  qed
  then show ?case
  proof cases
    case 1
    then have "header_loop add b (length pre) False m = Inr (m, length (pre @ sep), False)"
      using Cons.prems by (intro header_loop_stop [of _ _ _ t us h]) auto
    then show ?thesis
      using Cons.prems(1) [of "[]" "h # hs" t] Cons.prems by simp
  next
    case 2
    obtain h' hs' where "hs = h' # hs'" using 2 by (cases hs) auto
    then have "header_line h' \<noteq> []" using good_header_line(1) [of h'] Cons.prems(5) by simp
    have "hd us = hd (us @ missing)" using 2(3) by (rule hd_append2 [symmetric])
    also have "\<dots> = hd (header_line h')" using 2 \<open>hs = h' # hs'\<close> \<open>header_line h' \<noteq> []\<close> by simp
    finally have "hd us = hd (header_line h')" .
    then have us: "\<not> isIgnorableWhiteSpace (hd us)"
      using good_header_line(3) [of h'] Cons.prems(5) \<open>hs = h' # hs'\<close> by simp
    have "header_loop add b (length pre) False m
      = header_loop add b (length (pre @ sep @ header_line h)) False (add h m)"
      using Cons.prems 2 us by (intro header_step_line [where nl = CRLF and rest = us]) auto
    moreover obtain taken left part where "hs = taken @ left" "left \<noteq> []" "us = header_lines taken @ part"
      "part @ missing = header_lines left"
      "header_loop add b (length (pre @ sep @ header_line h)) False (add h m)
        = Inr (fold add taken (add h m), length b - length part, False)"
    proof (rule Cons.IH [where pre = "pre @ sep @ header_line h" and sep = CRLF and t = us and m = "add h m"])
      show "b = (pre @ sep @ header_line h) @ CRLF @ us" using Cons.prems 2 by simp
    qed (use Cons.prems 2 in auto)
    ultimately show ?thesis using Cons.prems(1) [of "h # taken" left part] 2 by simp
  qed
qed

section \<open>The interface\<close>

text \<open>
  What the loop needs of a message: \<open>add\<close> puts a field behind the fields the message has.
\<close>

locale header_message =
  fixes add :: "header \<Rightarrow> 'm \<Rightarrow> 'm" and fields :: "'m \<Rightarrow> header list"
  assumes fields_add: "fields (add h m) = fields m @ [h]"
begin

lemma fields_fold: "fields (fold add hs m) = fields m @ hs"
  by (induction hs arbitrary: m) (simp_all add: fields_add)

lemma reads_block:
  assumes "b = pre @ CRLF @ header_block hs @ rest" "\<forall>h\<in>set hs. good_header h" "clean_start rest"
  obtains m' where "header_loop add b (length pre) False m = Inr (m', length (pre @ CRLF @ header_block hs), True)"
    "m' = fold add hs m" "fields m' = fields m @ hs"
  using header_loop_block [OF assms, of add m] by (auto simp: fields_fold)

end
end
