(* ===== verification/SslErrors.thy ===== *)
theory SslErrors
  imports Exceptions
begin

text \<open>
  \<^verbatim>\<open>lib/Scorpion/Exceptions/SSL\<close> and \<^verbatim>\<open>SSL.h\<close>, \<^verbatim>\<open>SSL.cpp\<close>: the exceptions thrown when an
  OpenSSL call fails. They carry the file, line and text that OpenSSL's error queue had,
  and build their own text lazily; a copy takes over text and data, as with the HTTP errors.
\<close>

fun ssl_message :: "ssl_kind \<Rightarrow> string" where
  "ssl_message AcceptError = ''Error accepting connection''"
| "ssl_message AcceptSetupError = ''Error setting up accept socket''"
| "ssl_message AcceptSocketAllocationError = ''Error allocating accept socket''"
| "ssl_message ConnectionError = ''Connection error''"
| "ssl_message ConnectionSocketCreationFailure = ''Failed to create connection socket''"
| "ssl_message ContextAllocationError = ''Context allocation failure''"
| "ssl_message HandshakeError = ''Handshake error''"
| "ssl_message SSLContextAllocationError = ''Error allocating SSL context''"
| "ssl_message SSLContextSetupError = ''Error setting up SSL context''"
| "ssl_message SSLPointerLocationError = ''Failed to locate SSL pointer''"
| "ssl_message ServerSocketAllocationError = ''Error allocating server socket''"

text \<open>\<open>ssl_what_ptr\<close> is \<open>what_\<close>: \<open>None\<close> until \<open>what()\<close> has built the text.\<close>

record ssl_error =
  ssl_base :: string
  ssl_info :: error_line
  ssl_what_ptr :: "string option"

definition ssl_construct :: "ssl_kind \<Rightarrow> error_line \<Rightarrow> ssl_error" where
  "ssl_construct k i = \<lparr>ssl_base = ssl_message k, ssl_info = i, ssl_what_ptr = None\<rparr>"

text \<open>The copy, and the original that gave its text and data away.\<close>

definition ssl_copy :: "ssl_error \<Rightarrow> ssl_error \<times> ssl_error" where
  "ssl_copy e = (e, e\<lparr>ssl_what_ptr := None, ssl_info := (ssl_info e)\<lparr>error_line_data := None\<rparr>\<rparr>)"

text \<open>\<open>swap\<close> exchanges every member of \<open>SSLProtocolError\<close>, but not the base class's text.\<close>

definition ssl_swap :: "ssl_error \<Rightarrow> ssl_error \<Rightarrow> ssl_error \<times> ssl_error" where
  "ssl_swap this e =
     (this\<lparr>ssl_info := ssl_info e, ssl_what_ptr := ssl_what_ptr e\<rparr>,
      e\<lparr>ssl_info := ssl_info this, ssl_what_ptr := ssl_what_ptr this\<rparr>)"

text \<open>Assignment takes its argument by value: the new object, and the original it was copied from.\<close>

definition ssl_assign :: "ssl_error \<Rightarrow> ssl_error \<Rightarrow> ssl_error \<times> ssl_error" where
  "ssl_assign this rhs = (case ssl_copy rhs of (e, rhs') \<Rightarrow> (fst (ssl_swap this e), rhs'))"

definition ssl_error_text :: "boost_lib \<Rightarrow> ssl_error \<Rightarrow> string" where
  "ssl_error_text L e = format_str L ''%1%: %2% (%3%): %4%''
     [ssl_base e, error_file (ssl_info e), show_nat (error_line_number (ssl_info e)),
      (case error_line_data (ssl_info e) of
         Some d \<Rightarrow> if txt_string (ssl_info e) then d else ''no further information''
       | None \<Rightarrow> ''no further information'')]"

text \<open>\<open>ok\<close> says whether the allocations in \<open>what()\<close> succeed; if not, the base class's text is the result.\<close>

definition ssl_what :: "boost_lib \<Rightarrow> bool \<Rightarrow> ssl_error \<Rightarrow> string \<times> ssl_error" where
  "ssl_what L ok e = (case ssl_what_ptr e of
      Some t \<Rightarrow> (t, e)
    | None \<Rightarrow> if ok then (ssl_error_text L e, e\<lparr>ssl_what_ptr := Some (ssl_error_text L e)\<rparr>)
              else (ssl_base e, e))"

text \<open>The text an error of class \<open>k\<close> with OpenSSL's information \<open>i\<close> should have.\<close>

definition full_ssl_text :: "ssl_kind \<Rightarrow> error_line \<Rightarrow> string" where
  "full_ssl_text k i = ssl_message k @ '': '' @ error_file i @ '' ('' @ show_nat (error_line_number i) @ ''): ''
     @ (case error_line_data i of Some d \<Rightarrow> if txt_string i then d else ''no further information''
        | None \<Rightarrow> ''no further information'')"

text \<open>
  The text of an SSL error names what failed, the file and line and OpenSSL's own text,
  and the copy that a handler catches reports the same text whether or not the text had
  been built before the copy; an object assigned from another keeps its own description of
  what failed and takes the rest from the other, because the base class is not swapped.
\<close>

theorem ssl_error_reports:
  assumes "positional_format L"
  shows "fst (ssl_what L True (ssl_construct k i)) = full_ssl_text k i
    \<and> fst (ssl_what L True (fst (ssl_copy (ssl_construct k i)))) = full_ssl_text k i
    \<and> fst (ssl_what L True (fst (ssl_copy (snd (ssl_what L True (ssl_construct k i)))))) = full_ssl_text k i
    \<and> ssl_base (fst (ssl_assign (ssl_construct k' i') (ssl_construct k i))) = ssl_message k'
    \<and> ssl_info (fst (ssl_assign (ssl_construct k' i') (ssl_construct k i))) = i"
  using assms
  by (simp add: ssl_what_def ssl_construct_def ssl_copy_def ssl_assign_def ssl_swap_def full_ssl_text_def
      ssl_error_text_def positional_formatD is_digit_def digit_value_def split: option.splits)

theorem ssl_error_reports_witness:
  "fst (ssl_what boost_ref True (ssl_construct HandshakeError
      \<lparr>error_number = 1, error_file = ''s3_pkt.c'', error_line_number = 7,
       error_line_data = Some ''x'', txt_string = False\<rparr>))
   = ''Handshake error: s3_pkt.c (7): no further information''"
proof -
  have "show_nat 7 = ''7''" by (simp add: show_nat.simps)
  then show ?thesis
    using ssl_error_reports [of boost_ref HandshakeError "\<lparr>error_number = 1, error_file = ''s3_pkt.c'',
      error_line_number = 7, error_line_data = Some ''x'', txt_string = False\<rparr>"]
    by (simp add: full_ssl_text_def)
qed

end
