(* ===== verification/Bio.thy ===== *)
theory Bio
  imports SslErrors
begin

text \<open>
  \<^verbatim>\<open>lib/Scorpion/BIO.h\<close> and \<^verbatim>\<open>BIO.cpp\<close>: the wrapper around OpenSSL's basic I/lib objects.
  OpenSSL is not part of the repository; \<open>openssl\<close> is a record of the functions the wrapper
  calls, over a state \<open>'s\<close> that stands for OpenSSL, the operating system and the peers.
  A BIO is a handle (a number), an SSL context too; \<open>None\<close> is a null pointer.
\<close>

record 's openssl =
  BIO_reset :: "nat \<Rightarrow> 's \<Rightarrow> 's"
  BIO_read :: "nat \<Rightarrow> nat \<Rightarrow> 's \<Rightarrow> (int \<times> string) \<times> 's"
  BIO_write :: "nat \<Rightarrow> string \<Rightarrow> 's \<Rightarrow> int \<times> 's"
  BIO_pending :: "nat \<Rightarrow> 's \<Rightarrow> nat"
  BIO_should_retry :: "nat \<Rightarrow> 's \<Rightarrow> bool"
  BIO_should_read :: "nat \<Rightarrow> 's \<Rightarrow> bool"
  BIO_should_write :: "nat \<Rightarrow> 's \<Rightarrow> bool"
  BIO_do_accept :: "nat \<Rightarrow> 's \<Rightarrow> int \<times> 's"
  BIO_pop :: "nat \<Rightarrow> 's \<Rightarrow> nat option \<times> 's"
  BIO_get_ssl :: "nat \<Rightarrow> 's \<Rightarrow> nat option"
  BIO_do_handshake :: "nat \<Rightarrow> 's \<Rightarrow> int \<times> 's"
  BIO_do_connect :: "nat \<Rightarrow> 's \<Rightarrow> int \<times> 's"
  BIO_new_accept :: "string \<Rightarrow> 's \<Rightarrow> nat option \<times> 's"
  BIO_new_connect :: "string \<Rightarrow> 's \<Rightarrow> nat option \<times> 's"
  BIO_new_ssl :: "nat \<Rightarrow> 's \<Rightarrow> nat option \<times> 's"
  BIO_new_ssl_connect :: "nat \<Rightarrow> 's \<Rightarrow> nat option \<times> 's"
  BIO_set_accept_bios :: "nat \<Rightarrow> nat \<Rightarrow> 's \<Rightarrow> 's"
  BIO_set_conn_hostname :: "nat \<Rightarrow> string \<Rightarrow> 's \<Rightarrow> 's"
  BIO_free_all :: "nat \<Rightarrow> 's \<Rightarrow> 's"
  BIO_get_fd :: "nat \<Rightarrow> 's \<Rightarrow> int"
  ERR_get_error_line_data :: "'s \<Rightarrow> error_line \<times> 's"

section \<open>The macro around every OpenSSL call\<close>

text \<open>\<open>SCORPION_PRIVATE_OPENSSL_EXEC\<close>: when the post-condition fails, throw with OpenSSL's error.\<close>

definition throw_ssl :: "'s openssl \<Rightarrow> ssl_kind \<Rightarrow> 's \<Rightarrow> (exn + 'a) \<times> 's" where
  "throw_ssl lib k s = (case ERR_get_error_line_data lib s of (i, s') \<Rightarrow> (Inl (SSLError k i), s'))"

definition alloc_or_throw :: "'s openssl \<Rightarrow> ssl_kind \<Rightarrow> ('s \<Rightarrow> nat option \<times> 's) \<Rightarrow> 's \<Rightarrow> (exn + nat) \<times> 's" where
  "alloc_or_throw lib k command s = (case command s of
      (Some p, s') \<Rightarrow> (Inr p, s') | (None, s') \<Rightarrow> throw_ssl lib k s')"

definition positive_or_throw :: "'s openssl \<Rightarrow> ssl_kind \<Rightarrow> ('s \<Rightarrow> int \<times> 's) \<Rightarrow> 's \<Rightarrow> (exn + unit) \<times> 's" where
  "positive_or_throw lib k command s = (case command s of
      (r, s') \<Rightarrow> if r > 0 then (Inr (), s') else throw_ssl lib k s')"

definition ssl_or_throw :: "'s openssl \<Rightarrow> nat \<Rightarrow> 's \<Rightarrow> (exn + nat) \<times> 's" where
  "ssl_or_throw lib b s = (case BIO_get_ssl lib b s of
      Some ssl \<Rightarrow> (Inr ssl, s) | None \<Rightarrow> throw_ssl lib SSLPointerLocationError s)"

section \<open>BIO objects\<close>

text \<open>The two classes derived from \<open>BIO\<close>; what one does not override, \<open>BIO\<close> implements.\<close>

datatype bio = ConnectionBIO (getBIO: nat) | AcceptBio (getBIO: nat)

definition not_implemented :: int where "not_implemented = -2"
definition non_blocking :: nat where "non_blocking = 1"
definition auto_retry :: nat where "auto_retry = 2"

definition bio_reset :: "'s openssl \<Rightarrow> bio \<Rightarrow> 's \<Rightarrow> 's" where
  "bio_reset lib b = BIO_reset lib (getBIO b)"

definition bio_read :: "'s openssl \<Rightarrow> bio \<Rightarrow> nat \<Rightarrow> 's \<Rightarrow> (int \<times> string) \<times> 's" where
  "bio_read lib b n s = (case b of ConnectionBIO p \<Rightarrow> BIO_read lib p n s
     | AcceptBio _ \<Rightarrow> ((not_implemented, []), s))"

definition bio_write :: "'s openssl \<Rightarrow> bio \<Rightarrow> string \<Rightarrow> 's \<Rightarrow> int \<times> 's" where
  "bio_write lib b d s = (case b of ConnectionBIO p \<Rightarrow> BIO_write lib p d s
     | AcceptBio _ \<Rightarrow> (not_implemented, s))"

definition bio_poll :: "'s openssl \<Rightarrow> bio \<Rightarrow> 's \<Rightarrow> bool" where
  "bio_poll lib b s = (case b of ConnectionBIO p \<Rightarrow> BIO_pending lib p s \<noteq> 0 | AcceptBio _ \<Rightarrow> False)"

definition bio_should_retry :: "'s openssl \<Rightarrow> bio \<Rightarrow> 's \<Rightarrow> bool" where
  "bio_should_retry lib b s = (case b of ConnectionBIO p \<Rightarrow> BIO_should_retry lib p s | AcceptBio _ \<Rightarrow> False)"

definition bio_should_read :: "'s openssl \<Rightarrow> bio \<Rightarrow> 's \<Rightarrow> bool" where
  "bio_should_read lib b s = (case b of ConnectionBIO p \<Rightarrow> BIO_should_read lib p s | AcceptBio _ \<Rightarrow> False)"

definition bio_should_write :: "'s openssl \<Rightarrow> bio \<Rightarrow> 's \<Rightarrow> bool" where
  "bio_should_write lib b s = (case b of ConnectionBIO p \<Rightarrow> BIO_should_write lib p s | AcceptBio _ \<Rightarrow> False)"

definition bio_uses_ssl :: "'s openssl \<Rightarrow> bio \<Rightarrow> 's \<Rightarrow> bool" where
  "bio_uses_ssl lib b s \<longleftrightarrow> BIO_get_ssl lib (getBIO b) s \<noteq> None"

definition bio_get_fd :: "'s openssl \<Rightarrow> bio \<Rightarrow> 's \<Rightarrow> int" where
  "bio_get_fd lib b s = BIO_get_fd lib (getBIO b) s"

definition bio_destroy :: "'s openssl \<Rightarrow> bio \<Rightarrow> 's \<Rightarrow> 's" where
  "bio_destroy lib b = BIO_free_all lib (getBIO b)"

text \<open>
  \<open>accept\<close>: \<open>Inr None\<close> is the null pointer that \<open>BIO::accept\<close> returns. The new object owns
  the popped BIO, so leaving by an exception frees it. \<open>BIO_pop\<close> gives a BIO whenever an
  accept succeeded (the assertion); \<open>logic_error\<close> stands for the assertion's failure.
\<close>

definition bio_accept :: "'s openssl \<Rightarrow> bio \<Rightarrow> 's \<Rightarrow> (exn + bio option) \<times> 's" where
  "bio_accept lib b = (case b of
      ConnectionBIO _ \<Rightarrow> return_st None
    | AcceptBio p \<Rightarrow>
        bind_st (positive_or_throw lib AcceptError (BIO_do_accept lib p)) (\<lambda>_ s.
          case BIO_pop lib p s of
            (None, s') \<Rightarrow> throw_st (logic_error ''assert(cbio)'') s'
          | (Some cbio, s') \<Rightarrow>
              on_error
                (if BIO_get_ssl lib cbio s' \<noteq> None
                 then bind_st (positive_or_throw lib HandshakeError (BIO_do_handshake lib cbio))
                        (\<lambda>_. return_st (Some (ConnectionBIO cbio)))
                 else return_st (Some (ConnectionBIO cbio)))
                (BIO_free_all lib cbio) s'))"

section \<open>Creating BIOs\<close>

text \<open>The flags are not used.\<close>

definition createAcceptBIO :: "'s openssl \<Rightarrow> string \<Rightarrow> nat \<Rightarrow> 's \<Rightarrow> (exn + bio) \<times> 's" where
  "createAcceptBIO lib local_address flags =
     bind_st (alloc_or_throw lib AcceptSocketAllocationError (BIO_new_accept lib local_address)) (\<lambda>p.
       on_error
         (bind_st (positive_or_throw lib AcceptSetupError (BIO_do_accept lib p)) (\<lambda>_.
            return_st (AcceptBio p)))
         (BIO_free_all lib p))"

text \<open>\<open>ctx\<close> is the context that \<open>security_context.getContext()\<close> returned.\<close>

definition createSSLAcceptBIO :: "'s openssl \<Rightarrow> string \<Rightarrow> nat \<Rightarrow> nat \<Rightarrow> 's \<Rightarrow> (exn + bio) \<times> 's" where
  "createSSLAcceptBIO lib local_address ctx flags =
     bind_st (alloc_or_throw lib ServerSocketAllocationError (BIO_new_ssl lib ctx)) (\<lambda>ssl_bio.
     bind_st
       (on_error
         (bind_st (ssl_or_throw lib ssl_bio) (\<lambda>_.
            alloc_or_throw lib AcceptSocketAllocationError (BIO_new_accept lib local_address)))
         (BIO_free_all lib ssl_bio)) (\<lambda>accept_bio.
     on_error
       (\<lambda>s. bind_st (positive_or_throw lib AcceptSetupError (BIO_do_accept lib accept_bio))
              (\<lambda>_. return_st (AcceptBio accept_bio)) (BIO_set_accept_bios lib accept_bio ssl_bio s))
       (BIO_free_all lib accept_bio)))"

definition connect_ssl :: "'s openssl \<Rightarrow> nat \<Rightarrow> string \<Rightarrow> 's \<Rightarrow> (exn + bio) \<times> 's" where
  "connect_ssl lib ctx peer_address =
     bind_st (alloc_or_throw lib ConnectionSocketCreationFailure (BIO_new_ssl_connect lib ctx)) (\<lambda>p.
       on_error
         (bind_st (ssl_or_throw lib p) (\<lambda>_ s.
            bind_st (positive_or_throw lib ConnectionError (BIO_do_connect lib p)) (\<lambda>_.
            bind_st (positive_or_throw lib HandshakeError (BIO_do_handshake lib p)) (\<lambda>_.
            return_st (ConnectionBIO p)))
            (BIO_set_conn_hostname lib p peer_address s)))
         (BIO_free_all lib p))"

definition connect_plain :: "'s openssl \<Rightarrow> string \<Rightarrow> 's \<Rightarrow> (exn + bio) \<times> 's" where
  "connect_plain lib peer_address =
     bind_st (alloc_or_throw lib ConnectionSocketCreationFailure (BIO_new_connect lib peer_address)) (\<lambda>p.
       on_error
         (bind_st (positive_or_throw lib ConnectionError (BIO_do_connect lib p)) (\<lambda>_.
            return_st (ConnectionBIO p)))
         (BIO_free_all lib p))"

section \<open>Ownership\<close>

text \<open>
  \<open>roots s\<close> is the set of BIO chains that somebody has to free. Documented behaviour of
  OpenSSL: a constructor adds a fresh chain or fails; \<open>BIO_free_all\<close> removes a chain;
  \<open>BIO_set_accept_bios\<close> hands a chain over to the accept BIO; \<open>BIO_pop\<close> splits the accepted
  connection off; the other calls leave the chains alone.
\<close>

definition fresh_root :: "('s \<Rightarrow> nat set) \<Rightarrow> ('s \<Rightarrow> nat option \<times> 's) \<Rightarrow> bool" where
  "fresh_root roots f \<longleftrightarrow> (\<forall>s. case f s of
      (None, s') \<Rightarrow> roots s' = roots s
    | (Some p, s') \<Rightarrow> p \<notin> roots s \<and> roots s' = insert p (roots s))"

definition ownership_laws :: "'s openssl \<Rightarrow> ('s \<Rightarrow> nat set) \<Rightarrow> bool" where
  "ownership_laws lib roots \<longleftrightarrow>
     (\<forall>a. fresh_root roots (BIO_new_accept lib a)) \<and> (\<forall>a. fresh_root roots (BIO_new_connect lib a)) \<and>
     (\<forall>c. fresh_root roots (BIO_new_ssl lib c)) \<and> (\<forall>c. fresh_root roots (BIO_new_ssl_connect lib c)) \<and>
     (\<forall>p. fresh_root roots (BIO_pop lib p)) \<and>
     (\<forall>p s. roots (BIO_free_all lib p s) = roots s - {p}) \<and>
     (\<forall>p q s. roots (BIO_set_accept_bios lib p q s) = roots s - {q}) \<and>
     (\<forall>p a s. roots (BIO_set_conn_hostname lib p a s) = roots s) \<and>
     (\<forall>p s. roots (snd (BIO_do_accept lib p s)) = roots s) \<and>
     (\<forall>p s. roots (snd (BIO_do_handshake lib p s)) = roots s) \<and>
     (\<forall>p s. roots (snd (BIO_do_connect lib p s)) = roots s) \<and>
     (\<forall>s. roots (snd (ERR_get_error_line_data lib s)) = roots s)"

text \<open>A creator makes exactly one chain, the one its result holds, or none when it throws.\<close>

definition makes_one :: "('s \<Rightarrow> nat set) \<Rightarrow> ('a \<Rightarrow> nat option) \<Rightarrow> ('s \<Rightarrow> (exn + 'a) \<times> 's) \<Rightarrow> bool" where
  "makes_one roots handle m \<longleftrightarrow> (\<forall>s. case m s of
      (Inl e, s') \<Rightarrow> roots s' = roots s
    | (Inr b, s') \<Rightarrow> (case handle b of None \<Rightarrow> roots s' = roots s
        | Some p \<Rightarrow> p \<notin> roots s \<and> roots s' = insert p (roots s)))"


lemma ownership_lawsD:
  assumes "ownership_laws lib roots"
  shows "fresh_root roots (BIO_new_accept lib a)" "fresh_root roots (BIO_new_connect lib a)"
    "fresh_root roots (BIO_new_ssl lib c)" "fresh_root roots (BIO_new_ssl_connect lib c)"
    "fresh_root roots (BIO_pop lib p)"
    "roots (BIO_free_all lib p s) = roots s - {p}"
    "roots (BIO_set_accept_bios lib p q s) = roots s - {q}"
    "roots (BIO_set_conn_hostname lib p a s) = roots s"
    "roots (snd (BIO_do_accept lib p s)) = roots s"
    "roots (snd (BIO_do_handshake lib p s)) = roots s"
    "roots (snd (BIO_do_connect lib p s)) = roots s"
    "roots (snd (ERR_get_error_line_data lib s)) = roots s"
  using assms by (auto simp: ownership_laws_def)

text \<open>What the steps of a creator do to the chains.\<close>

definition keeps_roots :: "('s \<Rightarrow> nat set) \<Rightarrow> ('s \<Rightarrow> (exn + 'a) \<times> 's) \<Rightarrow> bool" where
  "keeps_roots roots m \<longleftrightarrow> (\<forall>s. roots (snd (m s)) = roots s)"

lemma throw_ssl_eq: "throw_ssl lib k s
    = (Inl (SSLError k (fst (ERR_get_error_line_data lib s))), snd (ERR_get_error_line_data lib s))"
  by (simp add: throw_ssl_def case_prod_beta)

lemma keeps_throw_ssl: "ownership_laws lib roots \<Longrightarrow> roots (snd (throw_ssl lib k s)) = roots s"
  by (simp add: throw_ssl_eq ownership_lawsD(12))

lemma keeps_positive:
  assumes "ownership_laws lib roots" "\<And>s. roots (snd (f s)) = roots s"
  shows "keeps_roots roots (positive_or_throw lib k f)"
  using assms
  by (simp add: keeps_roots_def positive_or_throw_def case_prod_beta keeps_throw_ssl)

lemma keeps_ssl: "ownership_laws lib roots \<Longrightarrow> keeps_roots roots (ssl_or_throw lib b)"
  by (simp add: keeps_roots_def ssl_or_throw_def keeps_throw_ssl split: option.splits)

lemma keeps_return: "keeps_roots roots (return_st x)"
  by (simp add: keeps_roots_def return_st_def)

lemma keeps_bind:
  assumes "keeps_roots roots m" "\<And>x. keeps_roots roots (f x)"
  shows "keeps_roots roots (bind_st m f)"
  unfolding keeps_roots_def
proof
  fix s
  show "roots (snd (bind_st m f s)) = roots s"
    using assms(1) [unfolded keeps_roots_def, rule_format, of s]
      assms(2) [unfolded keeps_roots_def, rule_format, of _ "snd (m s)"]
    by (cases "m s"; cases "fst (m s)") (simp_all add: bind_st_def)
qed

lemma makes_one_alloc:
  assumes "ownership_laws lib roots" "fresh_root roots f"
  shows "makes_one roots Some (alloc_or_throw lib k f)"
  unfolding makes_one_def
proof
  fix s
  obtain p s' where f: "f s = (p, s')" by fastforce
  show "case alloc_or_throw lib k f s of
      (Inl e, s') \<Rightarrow> roots s' = roots s
    | (Inr b, s') \<Rightarrow> (case Some b of None \<Rightarrow> roots s' = roots s
        | Some p \<Rightarrow> p \<notin> roots s \<and> roots s' = insert p (roots s))"
  proof (cases p)
    case None
    then show ?thesis
      using f assms(2) [unfolded fresh_root_def, rule_format, of s]
      by (simp add: alloc_or_throw_def throw_ssl_eq ownership_lawsD(12) [OF assms(1)])
  next
    case (Some q)
    then show ?thesis
      using f assms(2) [unfolded fresh_root_def, rule_format, of s] by (simp add: alloc_or_throw_def)
  qed
qed

text \<open>A chain that was made, then used in steps that leave the chains alone, with a guard.\<close>

lemma makes_one_guarded:
  assumes laws: "ownership_laws lib roots" and m: "makes_one roots Some m"
    and k: "\<And>p. keeps_roots roots (f p)"
    and h: "\<And>p s x s'. f p s = (Inr x, s') \<Longrightarrow> handle x = Some p"
  shows "makes_one roots handle (bind_st m (\<lambda>p. on_error (f p) (BIO_free_all lib p)))"
  unfolding makes_one_def
proof
  fix s
  obtain r s1 where r: "m s = (r, s1)" by fastforce
  show "case bind_st m (\<lambda>p. on_error (f p) (BIO_free_all lib p)) s of
      (Inl e, s') \<Rightarrow> roots s' = roots s
    | (Inr b, s') \<Rightarrow> (case handle b of None \<Rightarrow> roots s' = roots s
        | Some p \<Rightarrow> p \<notin> roots s \<and> roots s' = insert p (roots s))"
  proof (cases r)
    case (Inl e)
    then show ?thesis using r m [unfolded makes_one_def, rule_format, of s] by (simp add: bind_st_def)
  next
    case (Inr p)
    then have p: "p \<notin> roots s" "roots s1 = insert p (roots s)"
      using r m [unfolded makes_one_def, rule_format, of s] by auto
    obtain r2 s2 where r2: "f p s1 = (r2, s2)" by fastforce
    with k [of p] have "roots s2 = roots s1" unfolding keeps_roots_def by (metis snd_conv)
    then show ?thesis
      using Inr r r2 p h [of p s1 _ s2] ownership_lawsD(6) [OF laws]
      by (cases r2) (auto simp: bind_st_def on_error_def)
  qed
qed

lemma keeps_after: "keeps_roots roots m \<Longrightarrow> (\<And>s. roots (g s) = roots s) \<Longrightarrow> keeps_roots roots (\<lambda>s. m (g s))"
  by (simp add: keeps_roots_def)

lemma bind_result: "bind_st m (\<lambda>_. return_st y) s = (Inr x, s') \<Longrightarrow> x = y"
  by (auto simp: bind_st_def return_st_def split: prod.splits sum.splits)

lemma bind_resultE:
  assumes "bind_st m f s = (Inr x, s')" obtains y s1 where "m s = (Inr y, s1)" "f y s1 = (Inr x, s')"
  using assms by (auto simp: bind_st_def split: prod.splits sum.splits)

lemmas keeps_intros = keeps_bind keeps_positive keeps_ssl keeps_return

lemma createAcceptBIO_makes_one: "ownership_laws lib roots \<Longrightarrow>
    makes_one roots (Some \<circ> getBIO) (createAcceptBIO lib a flags)"
  unfolding createAcceptBIO_def
  by (intro makes_one_guarded makes_one_alloc keeps_intros)
    (auto simp: ownership_lawsD dest: bind_result)

lemma connect_plain_makes_one: "ownership_laws lib roots \<Longrightarrow>
    makes_one roots (Some \<circ> getBIO) (connect_plain lib a)"
  unfolding connect_plain_def
  by (intro makes_one_guarded makes_one_alloc keeps_intros)
    (auto simp: ownership_lawsD dest: bind_result)

lemma connect_ssl_makes_one: "ownership_laws lib roots \<Longrightarrow>
    makes_one roots (Some \<circ> getBIO) (connect_ssl lib ctx a)"
  unfolding connect_ssl_def
proof (rule makes_one_guarded)
  fix p
  assume laws: "ownership_laws lib roots"
  have "keeps_roots roots (bind_st (positive_or_throw lib ConnectionError (BIO_do_connect lib p)) (\<lambda>_.
        bind_st (positive_or_throw lib HandshakeError (BIO_do_handshake lib p)) (\<lambda>_.
        return_st (ConnectionBIO p))))"
    by (intro keeps_intros) (simp_all add: ownership_lawsD [OF laws] laws)
  then show "keeps_roots roots (bind_st (ssl_or_throw lib p) (\<lambda>_ s.
      bind_st (positive_or_throw lib ConnectionError (BIO_do_connect lib p)) (\<lambda>_.
        bind_st (positive_or_throw lib HandshakeError (BIO_do_handshake lib p)) (\<lambda>_.
        return_st (ConnectionBIO p))) (BIO_set_conn_hostname lib p a s)))"
    by (rule keeps_bind [OF keeps_ssl [OF laws] keeps_after]) (rule ownership_lawsD(8) [OF laws])
next
  fix p s x s'
  show "bind_st (ssl_or_throw lib p) (\<lambda>_ s.
      bind_st (positive_or_throw lib ConnectionError (BIO_do_connect lib p)) (\<lambda>_.
        bind_st (positive_or_throw lib HandshakeError (BIO_do_handshake lib p)) (\<lambda>_.
        return_st (ConnectionBIO p))) (BIO_set_conn_hostname lib p a s)) s = (Inr x, s')
      \<Longrightarrow> (Some \<circ> getBIO) x = Some p"
    by (elim bind_resultE) (auto simp: return_st_def)
qed (simp_all add: makes_one_alloc ownership_lawsD)

lemma fresh_rootD:
  assumes "fresh_root roots f"
  shows "f s = (None, s') \<Longrightarrow> roots s' = roots s"
    and "f s = (Some p, s') \<Longrightarrow> p \<notin> roots s \<and> roots s' = insert p (roots s)"
  using assms [unfolded fresh_root_def, rule_format, of s] by simp_all

lemma createSSLAcceptBIO_makes_one:
  assumes laws: "ownership_laws lib roots"
  shows "makes_one roots (Some \<circ> getBIO) (createSSLAcceptBIO lib a ctx flags)"
  unfolding makes_one_def
proof
  fix s
  note L = ownership_lawsD [OF laws]
  obtain r1 s1 where 1: "BIO_new_ssl lib ctx s = (r1, s1)" by fastforce
  obtain r2 s2 where 2: "BIO_new_accept lib a s1 = (r2, s2)" by fastforce
  show "case createSSLAcceptBIO lib a ctx flags s of
      (Inl e, s') \<Rightarrow> roots s' = roots s
    | (Inr b, s') \<Rightarrow> (case (Some \<circ> getBIO) b of None \<Rightarrow> roots s' = roots s
        | Some p \<Rightarrow> p \<notin> roots s \<and> roots s' = insert p (roots s))"
  proof (cases r1)
    case None
    then show ?thesis
      using 1 fresh_rootD(1) [OF L(3), of ctx s s1]
      by (simp add: createSSLAcceptBIO_def st_defs alloc_or_throw_def throw_ssl_eq L(12))
  next
    case (Some p)
    have p: "p \<notin> roots s" "roots s1 = insert p (roots s)"
      using 1 Some fresh_rootD(2) [OF L(3), of ctx s p s1] by simp_all
    have e: "roots (BIO_free_all lib p (snd (ERR_get_error_line_data lib s'))) = roots s' - {p}" for s'
      by (simp add: L(6) L(12))
    show ?thesis
    proof (cases "BIO_get_ssl lib p s1")
      case None
      then show ?thesis
        using 1 Some p by (simp add: createSSLAcceptBIO_def st_defs alloc_or_throw_def ssl_or_throw_def
          throw_ssl_eq e)
    next
      case (Some ssl)
      note ssl = this
      show ?thesis
      proof (cases r2)
        case None
        then show ?thesis
          using 1 2 \<open>r1 = Some p\<close> p ssl fresh_rootD(1) [OF L(1), of a s1 s2]
          by (simp add: createSSLAcceptBIO_def st_defs alloc_or_throw_def ssl_or_throw_def
              throw_ssl_eq e)
      next
        case (Some q)
        have q: "q \<notin> roots s1" "roots s2 = insert q (roots s1)"
          using 2 Some fresh_rootD(2) [OF L(1), of a s1 q s2] by simp_all
        obtain r3 s3 where 3: "BIO_do_accept lib q (BIO_set_accept_bios lib q p s2) = (r3, s3)"
          by fastforce
        then have "roots s3 = insert q (roots s)"
          using L(9) [of q "BIO_set_accept_bios lib q p s2"] L(7) p q by auto
        then show ?thesis
          using 1 2 3 \<open>r1 = Some p\<close> Some p q ssl
          by (auto simp add: createSSLAcceptBIO_def st_defs alloc_or_throw_def ssl_or_throw_def
              positive_or_throw_def throw_ssl_eq L(6) L(12))
      qed
    qed
  qed
qed

lemma bio_accept_makes_one:
  assumes laws: "ownership_laws lib roots"
  shows "makes_one roots (map_option getBIO) (bio_accept lib (AcceptBio p))"
  unfolding makes_one_def
proof
  fix s
  note L = ownership_lawsD [OF laws]
  obtain r1 s1 where 1: "BIO_do_accept lib p s = (r1, s1)" by fastforce
  obtain r2 s2 where 2: "BIO_pop lib p s1 = (r2, s2)" by fastforce
  have "roots s1 = roots s" using L(9) [of p s] 1 by simp
  show "case bio_accept lib (AcceptBio p) s of
      (Inl e, s') \<Rightarrow> roots s' = roots s
    | (Inr b, s') \<Rightarrow> (case map_option getBIO b of None \<Rightarrow> roots s' = roots s
        | Some p \<Rightarrow> p \<notin> roots s \<and> roots s' = insert p (roots s))"
  proof (cases r2)
    case None
    then show ?thesis
      using 1 2 \<open>roots s1 = roots s\<close> fresh_rootD(1) [OF L(5), of p s1 s2]
      by (simp add: bio_accept_def st_defs positive_or_throw_def throw_ssl_eq L(12))
  next
    case (Some q)
    then show ?thesis
      using 1 2 \<open>roots s1 = roots s\<close> fresh_rootD(2) [OF L(5), of p s1 q s2]
      by (auto simp: bio_accept_def st_defs positive_or_throw_def throw_ssl_eq case_prod_beta L(6,10,12))
  qed
qed

text \<open>
  C25: creating a listening BIO (with and without SSL), connecting (with and without SSL)
  and accepting each end in one of two ways: with an exception and every OpenSSL chain freed
  that was made on the way, or with an object that holds the only new chain.
\<close>

theorem bio_creation_leaks_nothing:
  assumes "ownership_laws lib roots"
  shows "makes_one roots (Some \<circ> getBIO) (createAcceptBIO lib a flags)
    \<and> makes_one roots (Some \<circ> getBIO) (createSSLAcceptBIO lib a ctx flags)
    \<and> makes_one roots (Some \<circ> getBIO) (connect_plain lib a)
    \<and> makes_one roots (Some \<circ> getBIO) (connect_ssl lib ctx a)
    \<and> makes_one roots (map_option getBIO) (bio_accept lib (AcceptBio p))"
  using assms createAcceptBIO_makes_one createSSLAcceptBIO_makes_one connect_plain_makes_one
    connect_ssl_makes_one bio_accept_makes_one by blast

text \<open>An OpenSSL in which everything works but the handshake, for concrete evaluations.\<close>

definition next_handle :: "nat list \<Rightarrow> nat option \<times> nat list" where
  "next_handle bs = (Some (Suc (sum_list bs)), Suc (sum_list bs) # bs)"

definition no_error :: error_line where
  "no_error = \<lparr>error_number = 0, error_file = [], error_line_number = 0, error_line_data = None, txt_string = False\<rparr>"

definition example_ssl :: "nat list openssl" where
  "example_ssl = \<lparr>BIO_reset = (\<lambda>_ s. s), BIO_read = (\<lambda>_ _ s. ((0, []), s)),
     BIO_write = (\<lambda>_ d s. (int (length d), s)), BIO_pending = (\<lambda>_ _. 0),
     BIO_should_retry = (\<lambda>_ _. False), BIO_should_read = (\<lambda>_ _. False),
     BIO_should_write = (\<lambda>_ _. False), BIO_do_accept = (\<lambda>_ s. (1, s)), BIO_pop = (\<lambda>_. next_handle),
     BIO_get_ssl = (\<lambda>p _. Some p), BIO_do_handshake = (\<lambda>_ s. (-1, s)), BIO_do_connect = (\<lambda>_ s. (1, s)),
     BIO_new_accept = (\<lambda>_. next_handle), BIO_new_connect = (\<lambda>_. next_handle),
     BIO_new_ssl = (\<lambda>_. next_handle), BIO_new_ssl_connect = (\<lambda>_. next_handle),
     BIO_set_accept_bios = (\<lambda>_ q s. filter (\<lambda>x. x \<noteq> q) s), BIO_set_conn_hostname = (\<lambda>_ _ s. s),
     BIO_free_all = (\<lambda>p s. filter (\<lambda>x. x \<noteq> p) s), BIO_get_fd = (\<lambda>p _. int p),
     ERR_get_error_line_data = (\<lambda>s. (no_error, s))\<rparr>"

lemma next_handle_fresh: "fresh_root set next_handle"
  using member_le_sum_list
  by (fastforce simp: fresh_root_def next_handle_def)

lemma example_ssl_laws: "ownership_laws example_ssl set"
  by (auto simp: ownership_laws_def example_ssl_def next_handle_fresh)

theorem bio_creation_leaks_nothing_witness:
  "makes_one set (Some \<circ> getBIO) (connect_ssl example_ssl 1 ''h:443'')
   \<and> connect_ssl example_ssl 1 ''h:443'' [] = (Inl (SSLError HandshakeError no_error), [])
   \<and> createSSLAcceptBIO example_ssl ''*:443'' 1 3 [] = (Inr (AcceptBio 2), [2])"
  using bio_creation_leaks_nothing [OF example_ssl_laws, of "''h:443''" 0 1]
  by (simp add: connect_ssl_def createSSLAcceptBIO_def example_ssl_def next_handle_def st_defs
      alloc_or_throw_def ssl_or_throw_def positive_or_throw_def throw_ssl_def)

end
