(* ===== verification/ConnectionHandler.thy ===== *)
theory ConnectionHandler
  imports Exceptions
begin

text \<open>
  \<^verbatim>\<open>lib/Spin/Private/ConnectionHandler.cpp\<close>: one worker thread that waits in \<open>select\<close> for
  all connections and calls back, and \<open>attach\<close> and \<open>detach\<close>, called by any thread. Every
  block under \<open>callbacks_lock_\<close> is one function on the state; the step relation below
  interleaves them. An entry of the list has an identity of its own (\<open>ident\<close>), because file
  descriptors are reused. The POSIX side of the conditional compilation is modelled.
\<close>

section \<open>State\<close>

datatype attachment = pending_attachment | attached | pending_detachment | detached

record 'c callback =
  ident :: nat
  fd :: int
  on_select :: 'c
  on_error_callback :: "'c option"
  attachment :: attachment

text \<open>
  Where the worker thread is: before the first block of the loop; in \<open>select\<close> with the
  descriptors it waits for; behind it, with the ready descriptors and whether the
  synchronisation pipe is among them; calling the callbacks it has copied, with the
  descriptors to remove so far; removing these (holding the lock); about to empty the pipe.
\<close>

datatype 'c phase =
    Collecting
  | Selecting "int list"
  | SelectFailed
  | Ready "int list" bool
  | Calling "(nat \<times> int \<times> 'c) list" "int list" bool
  | Removing "int list"
  | Draining bool
  | Stopped

text \<open>
  \<open>pipe_bytes\<close> counts the bytes in the synchronisation pipe, \<open>waiting\<close> has the entries whose
  \<open>detach\<close> waits on the condition, \<open>gone\<close> those whose \<open>detach\<close> has returned.
\<close>

record 'c handler =
  callbacks :: "'c callback list"
  next_ident :: nat
  pipe_bytes :: nat
  stopping :: bool
  phase :: "'c phase"
  waiting :: "nat list"
  gone :: "nat list"

definition ConnectionHandler :: "'c handler" where
  "ConnectionHandler = \<lparr>callbacks = [], next_ident = 0, pipe_bytes = 0, stopping = False,
     phase = Collecting, waiting = [], gone = []\<rparr>"

section \<open>Attaching and detaching\<close>

definition notifyThread :: "'c handler \<Rightarrow> 'c handler" where
  "notifyThread h = h\<lparr>pipe_bytes := Suc (pipe_bytes h)\<rparr>"

definition attach :: "int \<Rightarrow> 'c \<Rightarrow> 'c option \<Rightarrow> 'c handler \<Rightarrow> 'c handler" where
  "attach f sel err h = notifyThread (h\<lparr>
     callbacks := callbacks h @ [\<lparr>ident = next_ident h, fd = f, on_select = sel,
       on_error_callback = err, attachment = pending_attachment\<rparr>],
     next_ident := Suc (next_ident h)\<rparr>)"

text \<open>\<open>std::find_if\<close> with the descriptor: the first entry that has it.\<close>

fun find_fd :: "int \<Rightarrow> 'c callback list \<Rightarrow> 'c callback option" where
  "find_fd f [] = None"
| "find_fd f (c # cs) = (if fd c = f then Some c else find_fd f cs)"

definition set_attachment :: "nat \<Rightarrow> attachment \<Rightarrow> 'c callback list \<Rightarrow> 'c callback list" where
  "set_attachment i a = map (\<lambda>c. if ident c = i then c\<lparr>attachment := a\<rparr> else c)"

definition erase :: "nat \<Rightarrow> 'c callback list \<Rightarrow> 'c callback list" where
  "erase i = filter (\<lambda>c. ident c \<noteq> i)"

text \<open>\<open>detach\<close> up to the wait, in another thread than the worker; nothing happens without an entry.\<close>

definition detach_begin :: "int \<Rightarrow> 'c handler \<Rightarrow> 'c handler" where
  "detach_begin f h = (case find_fd f (callbacks h) of None \<Rightarrow> h
     | Some c \<Rightarrow> notifyThread (h\<lparr>callbacks := set_attachment (ident c) pending_detachment (callbacks h),
                                  waiting := ident c # waiting h\<rparr>))"

text \<open>The rest of it, once the entry \<open>i\<close> is \<open>detached\<close>.\<close>

definition detach_end :: "nat \<Rightarrow> 'c handler \<Rightarrow> 'c handler" where
  "detach_end i h = h\<lparr>callbacks := erase i (callbacks h), waiting := remove1 i (waiting h),
     gone := i # gone h\<rparr>"

text \<open>\<open>detach\<close> in the worker thread, from a callback: no wait.\<close>

definition detach_worker :: "int \<Rightarrow> 'c handler \<Rightarrow> 'c handler" where
  "detach_worker f h = (case find_fd f (callbacks h) of None \<Rightarrow> h
     | Some c \<Rightarrow> notifyThread (h\<lparr>callbacks := erase (ident c) (callbacks h), gone := ident c # gone h\<rparr>))"

definition stop :: "'c handler \<Rightarrow> 'c handler" where
  "stop h = notifyThread (h\<lparr>stopping := True\<rparr>)"

section \<open>The worker thread\<close>

text \<open>The first loop: new attachments become attached, requested detachments detached.\<close>

definition collect_state :: "'c callback \<Rightarrow> 'c callback" where
  "collect_state c = (case attachment c of
      pending_attachment \<Rightarrow> c\<lparr>attachment := attached\<rparr>
    | attached \<Rightarrow> c
    | pending_detachment \<Rightarrow> c\<lparr>attachment := detached\<rparr>
    | detached \<Rightarrow> c)"

definition is_live :: "'c callback \<Rightarrow> bool" where
  "is_live c \<longleftrightarrow> attachment c = pending_attachment \<or> attachment c = attached"

definition collect :: "'c handler \<Rightarrow> 'c handler" where
  "collect h = h\<lparr>callbacks := map collect_state (callbacks h),
     phase := Selecting (map fd (filter is_live (callbacks h)))\<rparr>"

text \<open>
  \<open>testFD_\<close> asks \<open>select\<close>, for one microsecond, whether the descriptor alone is readable; \<open>select_call\<close> is its result for the
  number of descriptors, the three sets and the seconds and microseconds.
\<close>

definition testFD :: "(int \<Rightarrow> int set \<Rightarrow> int set \<Rightarrow> int set \<Rightarrow> int \<times> int \<Rightarrow> int) \<Rightarrow> int \<Rightarrow> bool" where
  "testFD select_call f \<longleftrightarrow> select_call (f + 1) {f} {} {} (0, 1) \<ge> 0"

text \<open>After a failed \<open>select\<close>: the attached descriptors that \<open>testFD_\<close> finds bad.\<close>

definition bad_fds :: "(int \<Rightarrow> bool) \<Rightarrow> 'c callback list \<Rightarrow> int list" where
  "bad_fds good cs = map fd (filter (\<lambda>c. attachment c = attached \<and> \<not> good (fd c)) cs)"

text \<open>After a successful one: copies of the callbacks whose descriptor is ready.\<close>

definition gather :: "int list \<Rightarrow> 'c callback list \<Rightarrow> (nat \<times> int \<times> 'c) list" where
  "gather ready cs = map (\<lambda>c. (ident c, fd c, on_select c)) (filter (\<lambda>c. fd c \<in> set ready) cs)"

text \<open>
  The end of an iteration. When \<open>select\<close> failed the descriptor sets are as they were before
  the call, the pipe's descriptor among them.
\<close>

definition after_calls :: "int list \<Rightarrow> bool \<Rightarrow> 'c phase" where
  "after_calls to_remove pipe = (if to_remove \<noteq> [] then Removing to_remove else Draining pipe)"

definition remove_first :: "int \<Rightarrow> 'c callback list \<Rightarrow> 'c callback list" where
  "remove_first f cs = (case find_fd f cs of None \<Rightarrow> cs
     | Some c \<Rightarrow> set_attachment (ident c) pending_detachment cs)"

definition drain :: "nat \<Rightarrow> nat" where
  "drain n = n - 64"

section \<open>Steps\<close>

text \<open>
  \<open>Call i\<close> calls the on-select callback of entry \<open>i\<close> (and says whether it throws), \<open>Report\<close>
  the on-error callback. While the worker removes, it holds the lock, so other
  threads do not step. \<open>select\<close> returns ready descriptors it was given, and the pipe only
  when the pipe has bytes; it may also fail. \<open>Test bad\<close> is the loop after a failure when
  \<open>testFD_\<close> fails for the descriptors in \<open>bad\<close>. Reading an empty pipe blocks.
\<close>

datatype 'c label =
    Attach int 'c "'c option" | DetachBegin int | DetachEnd nat | DetachWorker int | Stop
  | Collect | Select "int list" bool | Fail | Test "int list" | Gather | Call nat 'c bool | Called | Report int | Removed | Drain

definition removing :: "'c handler \<Rightarrow> bool" where
  "removing h \<longleftrightarrow> (\<exists>fs. phase h = Removing fs)"

inductive step :: "'c handler \<Rightarrow> 'c label \<Rightarrow> 'c handler \<Rightarrow> bool" where
  Attach: "step h (Attach f sel err) (attach f sel err h)"
| DetachBegin: "\<not> removing h \<Longrightarrow> step h (DetachBegin f) (detach_begin f h)"
| DetachEnd: "\<lbrakk>\<not> removing h; i \<in> set (waiting h); c \<in> set (callbacks h); ident c = i;
    attachment c = detached\<rbrakk> \<Longrightarrow> step h (DetachEnd i) (detach_end i h)"
| DetachWorker: "phase h = Calling cs fs p \<or> phase h = Removing fs \<Longrightarrow>
    step h (DetachWorker f) (detach_worker f h)"
| Stop: "step h Stop (stop h)"
| Collect: "\<lbrakk>phase h = Collecting; \<not> stopping h\<rbrakk> \<Longrightarrow> step h Collect (collect h)"
| Quit: "\<lbrakk>phase h = Collecting; stopping h\<rbrakk> \<Longrightarrow> step h Collect (h\<lparr>phase := Stopped\<rparr>)"
| Select: "\<lbrakk>phase h = Selecting fds; set ready \<subseteq> set fds; p \<longrightarrow> pipe_bytes h > 0; ready \<noteq> [] \<or> p\<rbrakk>
    \<Longrightarrow> step h (Select ready p) (h\<lparr>phase := Ready ready p\<rparr>)"
| Fail: "phase h = Selecting fds \<Longrightarrow> step h Fail (h\<lparr>phase := SelectFailed\<rparr>)"
| Test: "phase h = SelectFailed \<Longrightarrow>
    step h (Test bad) (h\<lparr>phase := after_calls (bad_fds (\<lambda>f. f \<notin> set bad) (callbacks h)) True\<rparr>)"
| Gather: "phase h = Ready ready p \<Longrightarrow> step h Gather (h\<lparr>phase := Calling (gather ready (callbacks h)) [] p\<rparr>)"
| Call: "phase h = Calling ((i, f, cb) # cs) fs p \<Longrightarrow>
    step h (Call i cb throws) (h\<lparr>phase := Calling cs (if throws then fs @ [f] else fs) p\<rparr>)"
| Called: "phase h = Calling [] fs p \<Longrightarrow> step h Called (h\<lparr>phase := after_calls fs p\<rparr>)"
| Report: "phase h = Removing (f # fs) \<Longrightarrow>
    step h (Report f) (h\<lparr>callbacks := remove_first f (callbacks h), phase := Removing fs\<rparr>)"
| Removed: "phase h = Removing [] \<Longrightarrow> step h Removed (h\<lparr>phase := Collecting\<rparr>)"
| Drain: "\<lbrakk>phase h = Draining p; p \<longrightarrow> pipe_bytes h > 0\<rbrakk> \<Longrightarrow>
    step h Drain (h\<lparr>pipe_bytes := (if p then drain (pipe_bytes h) else pipe_bytes h), phase := Collecting\<rparr>)"

inductive_cases CallE: "step h (Call i cb t) h'"
inductive_cases DrainE: "step h Drain h'"
inductive_simps step_Collect_simps: "step h Collect h'"
inductive_simps step_DetachEnd_simps: "step h (DetachEnd i) h'"

text \<open>
  Runs in which a descriptor is attached only while no entry has it, and the worker
  thread detaches no entry that it is still going to call.
\<close>

definition disciplined :: "'c label \<Rightarrow> 'c handler \<Rightarrow> bool" where
  "disciplined l h = (case l of
      Attach f _ _ \<Rightarrow> find_fd f (callbacks h) = None
    | DetachWorker f \<Rightarrow> (case phase h of Calling cs _ _ \<Rightarrow> f \<notin> fst ` snd ` set cs | _ \<Rightarrow> True)
    | _ \<Rightarrow> True)"

inductive run :: "('c label \<Rightarrow> 'c handler \<Rightarrow> bool) \<Rightarrow> 'c handler \<Rightarrow> bool" for P where
  start: "run P ConnectionHandler"
| step: "run P h \<Longrightarrow> step h l h' \<Longrightarrow> P l h \<Longrightarrow> run P h'"

text \<open>Whatever \<open>select\<close> answers to \<open>testFD_\<close>, what the worker does behind its failure is such a step.\<close>

lemma test_step:
  assumes "phase h = SelectFailed"
  shows "step h (Test (bad_fds (testFD select_call) (callbacks h)))
    (h\<lparr>phase := after_calls (bad_fds (testFD select_call) (callbacks h)) True\<rparr>)"
proof -
  have "bad_fds (\<lambda>f. f \<notin> set (bad_fds (testFD select_call) (callbacks h))) (callbacks h) = bad_fds (testFD select_call) (callbacks h)"
    by (auto simp: bad_fds_def intro!: arg_cong [where f = "map fd"] filter_cong)
  then show ?thesis using step.Test [OF assms, of "bad_fds (testFD select_call) (callbacks h)"] by simp
qed

section \<open>No callback after its detachment\<close>

lemma find_fd_Some: "find_fd f cs = Some c \<Longrightarrow> c \<in> set cs \<and> fd c = f"
  by (induction cs) (auto split: if_splits)

lemma find_fd_None: "find_fd f cs = None \<longleftrightarrow> f \<notin> fd ` set cs"
  by (induction cs) auto

lemma set_attachment_maps [simp]:
  "map ident (set_attachment i a cs) = map ident cs" "map fd (set_attachment i a cs) = map fd cs"
  by (simp_all add: set_attachment_def)

lemma collect_state_fields [simp]:
  "ident (collect_state c) = ident c" "fd (collect_state c) = fd c"
  "on_select (collect_state c) = on_select c"
  by (simp_all add: collect_state_def split: attachment.splits)

lemma collect_state_settled [simp]:
  "attachment (collect_state c) \<noteq> pending_attachment"
  "attachment (collect_state c) \<noteq> pending_detachment"
  "attachment (collect_state c) = detached \<longleftrightarrow> attachment c = pending_detachment \<or> attachment c = detached"
  by (cases "attachment c"; simp add: collect_state_def)+

definition entries_ok :: "'c handler \<Rightarrow> bool" where
  "entries_ok h \<longleftrightarrow> distinct (map ident (callbacks h)) \<and> distinct (map fd (callbacks h))
     \<and> (\<forall>i \<in> ident ` set (callbacks h) \<union> set (gone h). i < next_ident h)
     \<and> ident ` set (callbacks h) \<inter> set (gone h) = {}"

text \<open>The entries the worker is going to call are in the list and not detached.\<close>

definition live_entry :: "'c callback list \<Rightarrow> nat \<times> int \<times> 'c \<Rightarrow> bool" where
  "live_entry cs t = (\<exists>c \<in> set cs. (ident c, fd c, on_select c) = t \<and> attachment c \<noteq> detached)"

definition calls_ok :: "'c handler \<Rightarrow> bool" where
  "calls_ok h = (case phase h of
      Selecting fds \<Rightarrow> (\<forall>c \<in> set (callbacks h). fd c \<in> set fds \<longrightarrow> attachment c \<noteq> detached)
    | Ready fds p \<Rightarrow> (\<forall>c \<in> set (callbacks h). fd c \<in> set fds \<longrightarrow> attachment c \<noteq> detached)
    | Calling ts fs p \<Rightarrow> (\<forall>t \<in> set ts. live_entry (callbacks h) t)
    | _ \<Rightarrow> True)"

lemma entries_ok_init: "entries_ok ConnectionHandler" "calls_ok ConnectionHandler"
  by (simp_all add: entries_ok_def calls_ok_def ConnectionHandler_def)

lemma entries_ok_attach: "entries_ok h \<Longrightarrow> find_fd f (callbacks h) = None \<Longrightarrow> entries_ok (attach f sel err h)"
  unfolding entries_ok_def attach_def notifyThread_def find_fd_None by (auto simp: less_Suc_eq)

lemma ident_set_attachment [simp]: "ident ` set (set_attachment i a cs) = ident ` set cs"
  by (metis set_attachment_maps(1) set_map)

lemma fd_set_attachment [simp]: "fd ` set (set_attachment i a cs) = fd ` set cs"
  by (metis set_attachment_maps(2) set_map)

lemma entries_ok_set_attachment: "entries_ok h \<Longrightarrow> callbacks h' = set_attachment i a (callbacks h) \<Longrightarrow>
    next_ident h' = next_ident h \<Longrightarrow> gone h' = gone h \<Longrightarrow> entries_ok h'"
  by (simp add: entries_ok_def)

lemma entries_ok_erase: "entries_ok h \<Longrightarrow> callbacks h' = erase i (callbacks h) \<Longrightarrow> i \<in> ident ` set (callbacks h) \<Longrightarrow>
    next_ident h' = next_ident h \<Longrightarrow> gone h' = i # gone h \<Longrightarrow> entries_ok h'"
  by (auto simp: entries_ok_def erase_def distinct_map_filter)

lemma entries_ok_collect: "entries_ok h \<Longrightarrow> entries_ok (collect h)"
  by (simp add: entries_ok_def collect_def comp_def image_image)

lemma entries_ok_phase: "entries_ok (h\<lparr>phase := p\<rparr>) = entries_ok h"
  "entries_ok (h\<lparr>phase := p, pipe_bytes := n\<rparr>) = entries_ok h"
  "entries_ok (h\<lparr>pipe_bytes := n, phase := p\<rparr>) = entries_ok h"
  "entries_ok (h\<lparr>pipe_bytes := n\<rparr>) = entries_ok h"
  "entries_ok (h\<lparr>stopping := b\<rparr>) = entries_ok h"
  by (simp_all add: entries_ok_def)

lemma step_entries_ok:
  assumes "step h l h'" "disciplined l h" "entries_ok h"
  shows "entries_ok h'"
  using assms
proof cases
  case (Attach f sel err)
  then show ?thesis using assms by (auto simp: disciplined_def intro: entries_ok_attach)
next
  case (DetachBegin f)
  then show ?thesis using assms
    by (auto simp: detach_begin_def notifyThread_def split: option.splits intro: entries_ok_set_attachment)
next
  case (DetachEnd i c)
  then show ?thesis using assms
    by (auto simp: detach_end_def intro!: entries_ok_erase [of h])
next
  case (DetachWorker cs fs p f)
  then show ?thesis using assms
    by (auto simp: detach_worker_def notifyThread_def split: option.splits
        intro!: entries_ok_erase [of h] dest!: find_fd_Some)
next
  case Stop
  then show ?thesis using assms by (simp add: stop_def notifyThread_def entries_ok_phase)
next
  case (Report f fs)
  then show ?thesis using assms
    by (auto simp: remove_first_def entries_ok_phase split: option.splits
        intro: entries_ok_set_attachment [of h])
qed (use assms entries_ok_collect in \<open>auto simp: entries_ok_phase\<close>)

lemma live_entry_mono:
  assumes "live_entry cs t" "\<And>c. c \<in> set cs \<Longrightarrow> attachment c \<noteq> detached \<Longrightarrow> (ident c, fd c, on_select c) = t \<Longrightarrow>
    \<exists>c' \<in> set cs'. (ident c', fd c', on_select c') = (ident c, fd c, on_select c) \<and> attachment c' \<noteq> detached"
  shows "live_entry cs' t"
  using assms unfolding live_entry_def by metis

lemma live_entry_attach: "live_entry cs t \<Longrightarrow> live_entry (cs @ [c]) t"
  by (auto simp: live_entry_def)

lemma live_entry_set_pending: "live_entry cs t \<Longrightarrow> live_entry (set_attachment i pending_detachment cs) t"
proof (rule live_entry_mono)
  fix c assume "c \<in> set cs" "attachment c \<noteq> detached"
  then show "\<exists>c' \<in> set (set_attachment i pending_detachment cs).
      (ident c', fd c', on_select c') = (ident c, fd c, on_select c) \<and> attachment c' \<noteq> detached"
    by (intro bexI [of _ "if ident c = i then c\<lparr>attachment := pending_detachment\<rparr> else c"])
      (auto simp: set_attachment_def)
qed

lemma live_entry_erase: "live_entry cs t \<Longrightarrow> fst t \<noteq> i \<Longrightarrow> live_entry (erase i cs) t"
  by (auto simp: live_entry_def erase_def)

lemma set_pending_detached: "c \<in> set (set_attachment i pending_detachment cs) \<Longrightarrow> attachment c = detached \<Longrightarrow>
    c \<in> set cs"
  by (auto simp: set_attachment_def split: if_splits)

lemma collect_live:
  assumes "distinct (map fd cs)" "c \<in> set cs" "fd c \<in> set (map fd (filter is_live cs))"
  shows "attachment (collect_state c) \<noteq> detached"
proof -
  obtain d where d: "d \<in> set cs" "is_live d" "fd d = fd c" using assms(3) by auto
  then have "d = c" using assms(1,2) by (meson distinct_map inj_onD)
  with d show ?thesis by (auto simp: is_live_def collect_state_def)
qed

lemma same_fd_same: "entries_ok h \<Longrightarrow> c \<in> set (callbacks h) \<Longrightarrow> d \<in> set (callbacks h) \<Longrightarrow> fd c = fd d \<Longrightarrow> c = d"
  unfolding entries_ok_def by (meson distinct_map inj_onD)

lemma same_ident_same: "entries_ok h \<Longrightarrow> c \<in> set (callbacks h) \<Longrightarrow> d \<in> set (callbacks h) \<Longrightarrow> ident c = ident d \<Longrightarrow> c = d"
  unfolding entries_ok_def by (meson distinct_map inj_onD)

lemma calls_ok_attach: "calls_ok h \<Longrightarrow> calls_ok (attach f sel err h)"
  by (auto simp: calls_ok_def attach_def notifyThread_def live_entry_attach split: phase.splits)

lemma calls_ok_set_pending: "calls_ok h \<Longrightarrow> phase h' = phase h \<Longrightarrow>
    callbacks h' = set_attachment i pending_detachment (callbacks h) \<Longrightarrow> calls_ok h'"
  using set_pending_detached
  by (fastforce simp: calls_ok_def live_entry_set_pending split: phase.splits)

lemma calls_ok_erase: "calls_ok h \<Longrightarrow> phase h' = phase h \<Longrightarrow> callbacks h' = erase i (callbacks h) \<Longrightarrow>
    (\<And>ts fs p. phase h = Calling ts fs p \<Longrightarrow> i \<notin> fst ` set ts) \<Longrightarrow> calls_ok h'"
  by (cases "phase h") (auto simp: calls_ok_def erase_def intro!: live_entry_erase [unfolded erase_def])

lemma calls_ok_collect: "entries_ok h \<Longrightarrow> calls_ok (collect h)"
  using collect_live [of "callbacks h"] by (simp add: calls_ok_def collect_def entries_ok_def)

lemma calls_ok_gather: "calls_ok h \<Longrightarrow> phase h = Ready r p \<Longrightarrow>
    calls_ok (h\<lparr>phase := Calling (gather r (callbacks h)) [] p\<rparr>)"
  by (fastforce simp: calls_ok_def gather_def live_entry_def)

lemma calls_ok_trivial: "calls_ok (h\<lparr>phase := after_calls fs p\<rparr>)"
  by (simp add: calls_ok_def after_calls_def)

lemma step_calls_ok:
  assumes "step h l h'" "disciplined l h" "entries_ok h" "calls_ok h"
  shows "calls_ok h'"
  using assms(1)
proof cases
  case (Attach f sel err)
  with assms show ?thesis by (simp add: calls_ok_attach)
next
  case (DetachBegin f)
  with assms show ?thesis
    by (auto simp: detach_begin_def notifyThread_def split: option.splits intro: calls_ok_set_pending [of h])
next
  case (DetachEnd i c)
  have "i \<notin> fst ` set ts" if "phase h = Calling ts fs p" for ts fs p
  proof
    assume "i \<in> fst ` set ts"
    then obtain t where "t \<in> set ts" "fst t = i" by auto
    with that assms(4) obtain d where "d \<in> set (callbacks h)" "ident d = i" "attachment d \<noteq> detached"
      by (fastforce simp: calls_ok_def live_entry_def)
    with DetachEnd same_ident_same [OF assms(3)] show False by blast
  qed
  with DetachEnd assms show ?thesis
    by (auto simp: detach_end_def intro!: calls_ok_erase [of h])
next
  case (DetachWorker cs fs p f)
  show ?thesis
  proof (cases "find_fd f (callbacks h)")
    case None
    with DetachWorker assms show ?thesis by (simp add: detach_worker_def)
  next
    case (Some c)
    then have c: "c \<in> set (callbacks h)" "fd c = f" using find_fd_Some by auto
    have "ident c \<notin> fst ` set ts" if "phase h = Calling ts fs' p'" for ts fs' p'
    proof
      assume "ident c \<in> fst ` set ts"
      then obtain t where t: "t \<in> set ts" "fst t = ident c" by auto
      with that assms(4) obtain d where "d \<in> set (callbacks h)" "(ident d, fd d, on_select d) = t"
        by (fastforce simp: calls_ok_def live_entry_def)
      with t c same_ident_same [OF assms(3)] have "fst (snd t) = f" by fastforce
      with t that assms(2) DetachWorker show False by (fastforce simp: disciplined_def)
    qed
    with DetachWorker Some assms show ?thesis
      by (auto simp: detach_worker_def notifyThread_def intro!: calls_ok_erase [of h])
  qed
next
  case Stop
  with assms show ?thesis by (auto simp: stop_def notifyThread_def calls_ok_def split: phase.splits)
next
  case Collect
  with assms show ?thesis by (simp add: calls_ok_collect)
next
  case (Select fds ready p)
  with assms show ?thesis by (auto simp: calls_ok_def)
next
  case (Gather ready p)
  with assms show ?thesis by (simp add: calls_ok_gather)
next
  case (Call i f cb cs fs p throws)
  with assms show ?thesis by (simp add: calls_ok_def)
qed (simp_all add: calls_ok_trivial, simp_all add: calls_ok_def)

lemma run_ok: "run disciplined h \<Longrightarrow> entries_ok h \<and> calls_ok h"
  by (induction rule: run.induct) (use entries_ok_init step_entries_ok step_calls_ok in blast)+

text \<open>
  C7: in every disciplined run, whatever the interleaving of the threads, the worker never
  calls the callback of an entry whose \<open>detach\<close> has returned, and every callback it
  calls belongs to an entry that is still in the list.
\<close>

theorem no_call_after_detach:
  assumes "run disciplined h" "step h (Call i cb throws) h'"
  shows "i \<notin> set (gone h) \<and> (\<exists>c \<in> set (callbacks h). ident c = i \<and> on_select c = cb)"
proof -
  obtain f cs fs p where "phase h = Calling ((i, f, cb) # cs) fs p"
    using assms(2) by (rule CallE)
  then obtain c where "c \<in> set (callbacks h)" "ident c = i" "on_select c = cb"
    using run_ok [OF assms(1)] by (fastforce simp: calls_ok_def live_entry_def)
  then show ?thesis using run_ok [OF assms(1)] by (fastforce simp: entries_ok_def)
qed

text \<open>A run in which one descriptor is attached, becomes ready, and is about to be called.\<close>

definition one_attached :: "nat handler" where
  "one_attached = collect (attach 5 7 None ConnectionHandler)"

definition about_to_call :: "nat handler" where
  "about_to_call = one_attached\<lparr>phase := Calling (gather [5] (callbacks one_attached)) [] False\<rparr>"

lemma run_one_attached: "run disciplined one_attached"
proof -
  have "run disciplined (attach 5 7 None ConnectionHandler :: nat handler)"
    by (rule run.step [OF run.start step.Attach])
      (simp add: disciplined_def ConnectionHandler_def)
  then show ?thesis unfolding one_attached_def
    by (rule run.step [OF _ step.Collect])
      (simp_all add: disciplined_def ConnectionHandler_def attach_def notifyThread_def)
qed

lemma one_attached_phase: "phase one_attached = Selecting [5]"
  by (simp add: one_attached_def collect_def attach_def notifyThread_def ConnectionHandler_def is_live_def)

lemma run_about_to_call: "run disciplined about_to_call"
proof -
  have "run disciplined (one_attached\<lparr>phase := Ready [5] False\<rparr>)"
    by (rule run.step [OF run_one_attached step.Select [OF one_attached_phase]])
      (simp_all add: disciplined_def)
  then have "run disciplined ((one_attached\<lparr>phase := Ready [5] False\<rparr>)\<lparr>phase :=
      Calling (gather [5] (callbacks (one_attached\<lparr>phase := Ready [5] False\<rparr>))) [] False\<rparr>)"
    by (rule run.step [OF _ step.Gather [of _ "[5]" False]]) (simp_all add: disciplined_def)
  then show ?thesis by (simp add: about_to_call_def)
qed

theorem no_call_after_detach_witness:
  "\<exists>h' :: nat handler. step about_to_call (Call 0 7 True) h' \<and> 0 \<notin> set (gone about_to_call)"
proof -
  have "phase about_to_call = Calling ((0, 5, 7) # []) [] False"
    by (simp add: about_to_call_def gather_def one_attached_def collect_def attach_def
        notifyThread_def ConnectionHandler_def collect_state_def)
  then have "step about_to_call (Call 0 7 True) (about_to_call\<lparr>phase := Calling [] [5] False\<rparr>)"
    using step.Call [of about_to_call 0 5 7 "[]" "[]" False True] by simp
  then show ?thesis using no_call_after_detach [OF run_about_to_call] by blast
qed

section \<open>Undisciplined runs\<close>

text \<open>The steps as a function, to follow a given sequence of labels.\<close>

fun perform :: "'c label \<Rightarrow> 'c handler \<Rightarrow> 'c handler option" where
  "perform (Attach f sel err) h = Some (attach f sel err h)"
| "perform (DetachBegin f) h = (case phase h of Removing _ \<Rightarrow> None | _ \<Rightarrow> Some (detach_begin f h))"
| "perform (DetachEnd i) h = (case phase h of Removing _ \<Rightarrow> None
    | _ \<Rightarrow> if i \<in> set (waiting h) \<and> (\<exists>c \<in> set (callbacks h). ident c = i \<and> attachment c = detached)
          then Some (detach_end i h) else None)"
| "perform (DetachWorker f) h = (case phase h of
      Calling _ _ _ \<Rightarrow> Some (detach_worker f h) | Removing _ \<Rightarrow> Some (detach_worker f h) | _ \<Rightarrow> None)"
| "perform Stop h = Some (stop h)"
| "perform Collect h = (case phase h of
      Collecting \<Rightarrow> Some (if stopping h then h\<lparr>phase := Stopped\<rparr> else collect h) | _ \<Rightarrow> None)"
| "perform (Select ready p) h = (case phase h of
      Selecting fds \<Rightarrow> if set ready \<subseteq> set fds \<and> (p \<longrightarrow> pipe_bytes h > 0) \<and> (ready \<noteq> [] \<or> p)
        then Some (h\<lparr>phase := Ready ready p\<rparr>) else None
    | _ \<Rightarrow> None)"
| "perform Fail h = (case phase h of Selecting _ \<Rightarrow> Some (h\<lparr>phase := SelectFailed\<rparr>) | _ \<Rightarrow> None)"
| "perform (Test bad) h = (case phase h of
      SelectFailed \<Rightarrow> Some (h\<lparr>phase := after_calls (bad_fds (\<lambda>f. f \<notin> set bad) (callbacks h)) True\<rparr>)
    | _ \<Rightarrow> None)"
| "perform Gather h = (case phase h of
      Ready ready p \<Rightarrow> Some (h\<lparr>phase := Calling (gather ready (callbacks h)) [] p\<rparr>) | _ \<Rightarrow> None)"
| "perform (Call i cb throws) h = (case phase h of
      Calling ((j, f, cb') # cs) fs p \<Rightarrow> if i = j \<and> cb = cb'
        then Some (h\<lparr>phase := Calling cs (if throws then fs @ [f] else fs) p\<rparr>) else None
    | _ \<Rightarrow> None)"
| "perform Called h = (case phase h of Calling [] fs p \<Rightarrow> Some (h\<lparr>phase := after_calls fs p\<rparr>) | _ \<Rightarrow> None)"
| "perform (Report f) h = (case phase h of
      Removing (g # fs) \<Rightarrow> if f = g
        then Some (h\<lparr>callbacks := remove_first f (callbacks h), phase := Removing fs\<rparr>) else None
    | _ \<Rightarrow> None)"
| "perform Removed h = (case phase h of Removing [] \<Rightarrow> Some (h\<lparr>phase := Collecting\<rparr>) | _ \<Rightarrow> None)"
| "perform Drain h = (case phase h of
      Draining p \<Rightarrow> if p \<longrightarrow> pipe_bytes h > 0
        then Some (h\<lparr>pipe_bytes := (if p then drain (pipe_bytes h) else pipe_bytes h), phase := Collecting\<rparr>)
        else None
    | _ \<Rightarrow> None)"

lemma perform_step: "perform l h = Some h' \<Longrightarrow> step h l h'"
proof (cases l)
  case (Call i cb throws)
  then show "perform l h = Some h' \<Longrightarrow> step h l h'"
    using step.Call [of h i _ cb _ _ _ throws]
    by (auto split: phase.splits list.splits if_splits)
next
  case Drain
  then show "perform l h = Some h' \<Longrightarrow> step h l h'"
    using step.Drain [of h] by (auto split: phase.splits if_splits)
qed (auto split: phase.splits list.splits if_splits intro!: step.intros simp: removing_def)

fun performs :: "('c label \<Rightarrow> 'c handler \<Rightarrow> bool) \<Rightarrow> 'c label list \<Rightarrow> 'c handler \<Rightarrow> 'c handler option" where
  "performs P [] h = Some h"
| "performs P (l # ls) h = (if P l h then (case perform l h of None \<Rightarrow> None | Some h' \<Rightarrow> performs P ls h') else None)"

lemma performs_run: "run P h \<Longrightarrow> performs P ls h = Some h' \<Longrightarrow> run P h'"
  by (induction ls arbitrary: h)
    (auto split: if_splits option.splits intro: run.step perform_step)

text \<open>The two halves of the discipline: fresh descriptors only; no \<open>detach\<close> in the worker thread.\<close>

definition fresh_fds :: "'c label \<Rightarrow> 'c handler \<Rightarrow> bool" where
  "fresh_fds l h = (case l of Attach f _ _ \<Rightarrow> find_fd f (callbacks h) = None | _ \<Rightarrow> True)"

definition no_worker_detach :: "'c label \<Rightarrow> 'c handler \<Rightarrow> bool" where
  "no_worker_detach l h = (case l of DetachWorker _ \<Rightarrow> False | _ \<Rightarrow> True)"

lemmas eval_handler = ConnectionHandler_def attach_def notifyThread_def detach_begin_def detach_end_def
  detach_worker_def collect_def collect_state_def is_live_def set_attachment_def erase_def gather_def
  after_calls_def bad_fds_def remove_first_def drain_def disciplined_def fresh_fds_def no_worker_detach_def

definition reused_fd :: "nat label list" where
  "reused_fd = [Attach 5 1 None, Attach 5 2 None, DetachBegin 5, Collect, Select [5] False, Gather, DetachEnd 0]"

definition detach_in_callback :: "nat label list" where
  "detach_in_callback = [Attach 5 1 None, Attach 6 2 None, Collect, Select [5, 6] False, Gather,
     Call 0 1 False, DetachWorker 6]"

text \<open>
  C21: each half of the discipline is needed. When a descriptor was closed and reused while its
  old entry is still in the list, the worker, which picks callbacks by descriptor and does
  not look at the state, copies the callback of the \<open>detached\<close> entry too, and calls it after
  \<open>detach\<close> has returned to its owner. And a callback that detaches another ready connection
  in the worker thread does not keep that one's callback from being called next.
\<close>

theorem stale_callback_reachable:
  "(\<exists>h h' :: nat handler. run no_worker_detach h \<and> 0 \<in> set (gone h) \<and> step h (Call 0 1 False) h')
   \<and> (\<exists>h h' :: nat handler. run fresh_fds h \<and> 1 \<in> set (gone h) \<and> step h (Call 1 2 False) h')"
proof
  obtain h where h: "performs no_worker_detach reused_fd ConnectionHandler = Some h"
    "0 \<in> set (gone h)" "perform (Call 0 1 False) h \<noteq> None"
    by (simp add: eval_handler reused_fd_def)
  then show "\<exists>h h' :: nat handler. run no_worker_detach h \<and> 0 \<in> set (gone h) \<and> step h (Call 0 1 False) h'"
    using performs_run [OF run.start] perform_step by blast
next
  obtain h where h: "performs fresh_fds detach_in_callback ConnectionHandler = Some h"
    "1 \<in> set (gone h)" "perform (Call 1 2 False) h \<noteq> None"
    by (simp add: eval_handler detach_in_callback_def)
  then show "\<exists>h h' :: nat handler. run fresh_fds h \<and> 1 \<in> set (gone h) \<and> step h (Call 1 2 False) h'"
    using performs_run [OF run.start] perform_step by blast
qed

section \<open>Wake-ups\<close>

text \<open>Work that waits for the worker thread: an entry in transit, or the request to stop.\<close>

definition work_pending :: "'c handler \<Rightarrow> bool" where
  "work_pending h \<longleftrightarrow> stopping h \<or>
     (\<exists>c \<in> set (callbacks h). attachment c = pending_attachment \<or> attachment c = pending_detachment)"

definition awake :: "'c handler \<Rightarrow> bool" where
  "awake h \<longleftrightarrow> ((\<exists>fds. phase h = Selecting fds) \<and> work_pending h \<longrightarrow> pipe_bytes h > 0)"

definition waiters_ok :: "'c handler \<Rightarrow> bool" where
  "waiters_ok h \<longleftrightarrow> (\<forall>c \<in> set (callbacks h). ident c \<in> set (waiting h) \<longrightarrow>
     attachment c = pending_detachment \<or> attachment c = detached)
   \<and> (\<forall>i \<in> ident ` set (callbacks h) \<union> set (waiting h). i < next_ident h)"

lemma step_awake: "step h l h' \<Longrightarrow> awake h \<Longrightarrow> awake h'"
  by (induction rule: step.induct)
    (auto simp: awake_def attach_def detach_begin_def detach_end_def detach_worker_def stop_def
      notifyThread_def collect_def work_pending_def erase_def after_calls_def
      split: option.splits if_splits)

lemma step_waiters: "step h l h' \<Longrightarrow> waiters_ok h \<Longrightarrow> waiters_ok h'"
proof (induction rule: step.induct)
  case (DetachBegin h f)
  then show ?case
    by (auto simp: waiters_ok_def detach_begin_def notifyThread_def set_attachment_def
        split: option.splits if_splits dest!: find_fd_Some)
next
  case (DetachEnd h i c)
  then show ?case
    by (auto simp: waiters_ok_def detach_end_def erase_def dest: notin_set_remove1 in_set_remove1 [THEN iffD1, rotated])
next
  case (Report h f fs)
  then show ?case
    by (auto simp: waiters_ok_def remove_first_def set_attachment_def split: option.splits if_splits
        dest!: find_fd_Some)
next
  case (Attach h f sel err)
  then have "next_ident h \<notin> set (waiting h)" by (auto simp: waiters_ok_def)
  with Attach show ?case by (auto simp: waiters_ok_def attach_def notifyThread_def less_Suc_eq)
qed (auto simp: waiters_ok_def detach_worker_def stop_def notifyThread_def collect_def erase_def
      split: option.splits)

lemma run_wake: "run P h \<Longrightarrow> awake h \<and> waiters_ok h"
proof (induction rule: run.induct)
  case start
  then show ?case by (simp add: awake_def waiters_ok_def ConnectionHandler_def)
next
  case (step h l h')
  then show ?case using step_awake step_waiters by blast
qed

text \<open>
  C8: in every run, when the worker waits in \<open>select\<close> while an attachment or detachment is
  pending or the end was requested, \<open>select\<close> can return (the pipe has a byte for it); and the
  next collection makes every entry whose \<open>detach\<close> waits detached, so that the
  waiting thread can go on.
\<close>

theorem wake_ups_are_not_lost:
  assumes "run P h"
  shows "(phase h = Selecting fds \<and> work_pending h \<longrightarrow> step h (Select [] True) (h\<lparr>phase := Ready [] True\<rparr>))
    \<and> (step h Collect h' \<and> \<not> stopping h \<and> c \<in> set (callbacks h) \<and> ident c \<in> set (waiting h) \<longrightarrow>
        step h' (DetachEnd (ident c)) (detach_end (ident c) h'))"
proof (intro conjI impI)
  assume "phase h = Selecting fds \<and> work_pending h"
  then show "step h (Select [] True) (h\<lparr>phase := Ready [] True\<rparr>)"
    using run_wake [OF assms] by (intro step.Select [of h fds]) (auto simp: awake_def)
next
  assume a: "step h Collect h' \<and> \<not> stopping h \<and> c \<in> set (callbacks h) \<and> ident c \<in> set (waiting h)"
  then have h': "h' = collect h" by (auto simp: step_Collect_simps)
  have "attachment (collect_state c) = detached"
    using a run_wake [OF assms] by (auto simp: waiters_ok_def)
  then show "step h' (DetachEnd (ident c)) (detach_end (ident c) h')"
    unfolding h' using a
    by (intro step.DetachEnd [of _ _ "collect_state c"]) (auto simp: collect_def removing_def)
qed

theorem wake_ups_are_not_lost_witness:
  "step (detach_begin 5 one_attached) (Select [] True) ((detach_begin 5 one_attached)\<lparr>phase := Ready [] True\<rparr>)"
proof -
  have "run no_worker_detach (detach_begin 5 one_attached)"
    using performs_run [OF run.start, of no_worker_detach "[Attach 5 7 None, Collect, DetachBegin 5]"
      "detach_begin 5 one_attached"]
    by (simp add: eval_handler one_attached_def)
  moreover have "phase (detach_begin 5 one_attached) = Selecting [5]" "work_pending (detach_begin 5 one_attached)"
    by (simp_all add: eval_handler one_attached_def work_pending_def)
  ultimately show ?thesis using wake_ups_are_not_lost by blast
qed

definition other_thread :: "'c label \<Rightarrow> bool" where
  "other_thread l = (case l of Attach _ _ _ \<Rightarrow> True | DetachBegin _ \<Rightarrow> True | DetachEnd _ \<Rightarrow> True
     | Stop \<Rightarrow> True | _ \<Rightarrow> False)"

text \<open>
  When \<open>select\<close> fails and every descriptor is found good (a signal arrived, say), the worker
  goes on to read the pipe because the descriptor sets are as before the call; the pipe
  is empty, so the worker blocks there: no step of the worker is possible until another
  thread attaches, detaches or stops, whatever data arrives on the attached descriptors.
\<close>

theorem failed_select_blocks_worker:
  "\<exists>h :: nat handler. run disciplined h \<and> phase h = Draining True
     \<and> (\<exists>c \<in> set (callbacks h). attachment c = attached)
     \<and> {l. \<exists>h'. step h l h'} \<subseteq> {l. other_thread l}"
proof -
  obtain h where h: "performs disciplined [Attach 5 7 None, Collect, Select [] True, Gather, Called, Drain,
        Collect, Fail, Test []] (ConnectionHandler :: nat handler) = Some h"
    and p: "phase h = Draining True" "pipe_bytes h = 0" "\<exists>c \<in> set (callbacks h). attachment c = attached"
    by (simp add: eval_handler)
  moreover have "run disciplined h" using performs_run [OF run.start h] .
  moreover have "other_thread l" if "step h l h'" for l h'
    using that p by cases (auto simp: other_thread_def)
  then have "{l. \<exists>h'. step h l h'} \<subseteq> {l. other_thread l}" by blast
  ultimately show ?thesis by blast
qed

section \<open>What a client of the handler relies on\<close>

text \<open>
  The list of watched descriptors with their callbacks, as connections and listeners see it.
  \<open>attach\<close> adds at the end, \<open>detach\<close> takes the first entry of its descriptor away.
\<close>

fun drop_fd :: "int \<Rightarrow> (int \<times> 'c) list \<Rightarrow> (int \<times> 'c) list" where
  "drop_fd f [] = []"
| "drop_fd f (w # ws) = (if fst w = f then ws else w # drop_fd f ws)"

lemma drop_fd_fresh: "f \<notin> fst ` set ws \<Longrightarrow> drop_fd f (ws @ [(f, c)] @ us) = ws @ us"
  by (induction ws) auto

lemma drop_fd_absent: "f \<notin> fst ` set ws \<Longrightarrow> drop_fd f ws = ws"
  by (induction ws) auto

locale notifier =
  fixes valid :: "'h \<Rightarrow> bool" and attach_to :: "int \<Rightarrow> 'c \<Rightarrow> 'c option \<Rightarrow> 'h \<Rightarrow> 'h"
    and detach_from :: "int \<Rightarrow> 'h \<Rightarrow> 'h" and watched :: "'h \<Rightarrow> (int \<times> 'c) list"
  assumes valid_attach: "valid h \<Longrightarrow> valid (attach_to f c e h)"
    and valid_detach: "valid h \<Longrightarrow> valid (detach_from f h)"
    and watched_attach: "valid h \<Longrightarrow> watched (attach_to f c e h) = watched h @ [(f, c)]"
    and watched_detach: "valid h \<Longrightarrow> watched (detach_from f h) = drop_fd f (watched h)"
begin

lemma attach_detach: "valid h \<Longrightarrow> f \<notin> fst ` set (watched h) \<Longrightarrow>
    watched (detach_from f (attach_to f c e h)) = watched h"
  by (simp add: watched_attach watched_detach valid_attach drop_fd_fresh [of _ _ _ "[]", simplified])

lemma attach_twice_detach: "valid h \<Longrightarrow> f \<notin> fst ` set (watched h) \<Longrightarrow>
    watched (detach_from f (attach_to f c' e' (attach_to f c e h))) = watched h @ [(f, c')]"
  by (simp add: watched_attach watched_detach valid_attach drop_fd_fresh [of _ _ _ "[(f, c')]", simplified])

lemma detach_absent: "valid h \<Longrightarrow> f \<notin> fst ` set (watched h) \<Longrightarrow> watched (detach_from f h) = watched h"
  by (simp add: watched_detach drop_fd_absent)

end

text \<open>
  The provider: \<open>detach\<close> in the worker thread, and \<open>detach\<close> in another thread with the
  collection by the worker that it waits for.
\<close>

definition watched_list :: "'c handler \<Rightarrow> (int \<times> 'c) list" where
  "watched_list h = map (\<lambda>c. (fd c, on_select c)) (callbacks h)"

definition detach_wait :: "int \<Rightarrow> 'c handler \<Rightarrow> 'c handler" where
  "detach_wait f h = (case find_fd f (callbacks h) of None \<Rightarrow> h
     | Some c \<Rightarrow> detach_end (ident c) (collect (detach_begin f h)))"

definition idents_ok :: "'c handler \<Rightarrow> bool" where
  "idents_ok h \<longleftrightarrow> distinct (map ident (callbacks h)) \<and> (\<forall>c \<in> set (callbacks h). ident c < next_ident h)"

lemma erase_found: "distinct (map ident cs) \<Longrightarrow> find_fd f cs = Some c \<Longrightarrow>
    map (\<lambda>c. (fd c, on_select c)) (erase (ident c) cs) = drop_fd f (map (\<lambda>c. (fd c, on_select c)) cs)"
proof (induction cs)
  case (Cons d cs)
  show ?case
  proof (cases "fd d = f")
    case True
    then have "erase (ident d) cs = cs"
      using Cons.prems by (auto simp: erase_def filter_id_conv) (metis imageI)
    with True Cons.prems show ?thesis by (simp add: erase_def)
  next
    case False
    then have "ident d \<noteq> ident c"
      using Cons.prems find_fd_Some [of f cs c] by auto
    with False Cons show ?thesis by (simp add: erase_def)
  qed
qed simp

lemma watched_erase_pending: "map (\<lambda>c. (fd c, on_select c)) (erase i (map collect_state (set_attachment j a cs)))
    = map (\<lambda>c. (fd c, on_select c)) (erase i cs)"
  by (induction cs) (auto simp: erase_def set_attachment_def)

lemma idents_erase: "distinct (map ident cs) \<Longrightarrow> distinct (map ident (erase i cs))"
  "c \<in> set (erase i cs) \<Longrightarrow> c \<in> set cs"
  by (auto simp: erase_def distinct_map_filter)

lemma idents_ok_detach:
  assumes "idents_ok h" "map ident (callbacks h') = map ident (callbacks h)" "next_ident h' = next_ident h"
  shows "idents_ok (h'\<lparr>callbacks := erase i (callbacks h'), waiting := w, gone := g\<rparr>)"
proof -
  have "ident ` set (callbacks h') = ident ` set (callbacks h)" using assms(2) by (metis set_map)
  moreover have "\<forall>i \<in> ident ` set (callbacks h). i < next_ident h"
    using assms(1) by (simp add: idents_ok_def)
  ultimately have "\<forall>c \<in> set (callbacks h'). ident c < next_ident h'"
    using assms(3) by (metis imageI)
  moreover have "distinct (map ident (callbacks h'))" using assms by (simp add: idents_ok_def)
  ultimately show ?thesis by (simp add: idents_ok_def idents_erase(1)) (meson idents_erase(2))
qed

interpretation worker_notifier: notifier idents_ok attach detach_worker watched_list
proof unfold_locales
  fix h :: "'c handler" and f :: int
  assume v: "idents_ok h"
  show "watched_list (detach_worker f h) = drop_fd f (watched_list h)"
  proof (cases "find_fd f (callbacks h)")
    case None
    then have "f \<notin> fst ` set (watched_list h)" by (auto simp: watched_list_def find_fd_None)
    with None show ?thesis by (simp add: detach_worker_def drop_fd_absent)
  next
    case (Some c)
    with v erase_found [of "callbacks h" f c] show ?thesis
      by (simp add: detach_worker_def notifyThread_def watched_list_def idents_ok_def)
  qed
  from v show "idents_ok (detach_worker f h)"
    by (auto simp: idents_ok_def detach_worker_def notifyThread_def split: option.splits
        intro: idents_erase(1) dest: idents_erase(2))
qed (auto simp: idents_ok_def attach_def notifyThread_def watched_list_def less_Suc_eq)

interpretation wait_notifier: notifier idents_ok attach detach_wait watched_list
proof unfold_locales
  fix h :: "'c handler" and f :: int
  assume v: "idents_ok h"
  show "watched_list (detach_wait f h) = drop_fd f (watched_list h)"
  proof (cases "find_fd f (callbacks h)")
    case None
    then have "f \<notin> fst ` set (watched_list h)" by (auto simp: watched_list_def find_fd_None)
    with None show ?thesis by (simp add: detach_wait_def drop_fd_absent)
  next
    case (Some c)
    with v erase_found [of "callbacks h" f c] show ?thesis
      by (simp add: detach_wait_def detach_begin_def detach_end_def collect_def notifyThread_def
          watched_list_def idents_ok_def watched_erase_pending)
  qed
  have "map ident (callbacks (collect (detach_begin f h))) = map ident (callbacks h)"
    by (simp add: collect_def detach_begin_def notifyThread_def comp_def set_attachment_def split: option.splits)
  moreover have "next_ident (collect (detach_begin f h)) = next_ident h"
    by (simp add: collect_def detach_begin_def notifyThread_def split: option.splits)
  ultimately show "idents_ok (detach_wait f h)"
    using v idents_ok_detach [OF v, of "collect (detach_begin f h)"]
    by (auto simp: detach_wait_def detach_end_def split: option.splits)
qed (auto simp: idents_ok_def attach_def notifyThread_def watched_list_def less_Suc_eq)

end
