(* ===== verification/Connection.thy ===== *)
theory Connection
  imports Bio ConnectionHandler HttpTypes Attributes
begin

text \<open>
  \<^verbatim>\<open>lib/Spin/Connection.h\<close> and \<^verbatim>\<open>Connection.cpp\<close>: reading and writing through a BIO, and the
  registration with the connection handler. The locks serialise the operations; each
  operation is one function on the connection and the state \<open>'s\<close> of OpenSSL.
\<close>

section \<open>State\<close>

text \<open>What can be attached to the connection handler: \<open>Connection::onDataReady_\<close> and
  \<open>Connection::onError_\<close> of a connection, \<open>Listener::onNewConnection_\<close> of a listener, or a
  call-back of a client.\<close>

datatype notification = OnDataReady nat | OnError nat | OnNewConnection nat | ClientCallback nat

text \<open>
  \<open>conn_id\<close> is the object's identity (\<open>this\<close>), \<open>cbio = None\<close> a closed connection, and the
  handlers are identified by numbers.
\<close>

record connection =
  conn_id :: nat
  cbio :: "bio option"
  data_handler :: "nat option"
  cfd :: int
  error_handler :: "nat option"

definition Connection :: "'s openssl \<Rightarrow> nat \<Rightarrow> bio \<Rightarrow> 's \<Rightarrow> connection" where
  "Connection lib i b s = \<lparr>conn_id = i, cbio = Some b, data_handler = None,
     cfd = bio_get_fd lib b s, error_handler = None\<rparr>"

definition usable :: "connection \<Rightarrow> bool" where
  "usable c \<longleftrightarrow> cbio c \<noteq> None"

definition default_read_block_size :: nat where
  "default_read_block_size = 4096"

text \<open>The reasons are the bits 1, 2 and 4.\<close>

definition retry_reason :: "'s openssl \<Rightarrow> bio \<Rightarrow> 's \<Rightarrow> nat" where
  "retry_reason lib b s = 1 + (if bio_should_read lib b s then 2 else 0) + (if bio_should_write lib b s then 4 else 0)"

section \<open>Writing\<close>

definition INT_MAX :: nat where
  "INT_MAX = 2147483647"

text \<open>The number of bytes written is an \<open>int\<close> that becomes a \<open>std::size_t\<close> in the result.\<close>

definition connection_write ::
  "'s openssl \<Rightarrow> connection \<Rightarrow> string \<Rightarrow> 's \<Rightarrow> (exn + 64 word \<times> nat) \<times> 's" where
  "connection_write lib c data s = (case cbio c of
      None \<Rightarrow> (Inl UnusableConnection, s)
    | Some b \<Rightarrow>
        if \<not> length data < INT_MAX then (Inl (logic_error ''assert(data.size() < INT_MAX)''), s)
        else if data \<noteq> [] then
          (case bio_write lib b data s of (written, s') \<Rightarrow>
             if written = -2 then (Inl MethodNotImplemented, s')
             else if written < int (length data) then
               if \<not> bio_should_retry lib b s' then (Inl ConnectionClosed, s')
               else (Inr (word_of_int written, retry_reason lib b s'), s')
             else (Inr (word_of_int written, 0), s'))
        else (Inr (0, 0), s))"

section \<open>Reading\<close>

text \<open>
  The part of \<open>read\<close> from \<open>read_entry_point\<close> on: \<open>off\<close> is \<open>start_offset\<close>, \<open>sofar\<close> is
  \<open>bytes_read_into_buffer\<close>. As long as the BIO fills every block and the buffer was empty,
  the loop goes on, so it may not end: \<open>None\<close>.
\<close>

definition put_at :: "nat \<Rightarrow> string \<Rightarrow> string \<Rightarrow> string" where
  "put_at off d b = take off b @ d @ drop (off + length d) b"

partial_function (option) read_loop ::
  "'s openssl \<Rightarrow> bio \<Rightarrow> bool \<Rightarrow> string \<Rightarrow> nat \<Rightarrow> 64 word \<Rightarrow> 's
     \<Rightarrow> ((exn + string \<times> 64 word \<times> nat) \<times> 's) option" where
  "read_loop lib b continue_until_retry buffer off sofar s =
     (if \<not> length buffer - off < INT_MAX then Some (Inl (logic_error ''assert(bytes_requested < INT_MAX)''), s) else
      case bio_read lib b (length buffer - off) s of ((bytes_read, d), s') \<Rightarrow>
      let buffer' = put_at off d buffer in
      if bytes_read < int (length buffer - off) then
        if \<not> bio_should_retry lib b s' \<and> bytes_read \<le> 0 then Some (Inl ConnectionClosed, s')
        else Some (Inr (buffer', sofar + word_of_int bytes_read, retry_reason lib b s'), s')
      else if continue_until_retry then
        read_loop lib b continue_until_retry (buffer' @ replicate default_read_block_size NUL)
          (length buffer') (word_of_nat (length buffer')) s'
      else Some (Inr (buffer', word_of_nat (length buffer'), 0), s'))"

definition connection_read ::
  "'s openssl \<Rightarrow> connection \<Rightarrow> string \<Rightarrow> 's \<Rightarrow> ((exn + string \<times> 64 word \<times> nat) \<times> 's) option" where
  "connection_read lib c buffer s = (case cbio c of
      None \<Rightarrow> Some (Inl UnusableConnection, s)
    | Some b \<Rightarrow>
        if buffer = [] then read_loop lib b True (replicate default_read_block_size NUL) 0 0 s
        else read_loop lib b False buffer 0 0 s)"

section \<open>The other operations\<close>

definition connection_poll :: "'s openssl \<Rightarrow> connection \<Rightarrow> 's \<Rightarrow> exn + bool" where
  "connection_poll lib c s = (case cbio c of None \<Rightarrow> Inl UnusableConnection | Some b \<Rightarrow> Inr (bio_poll lib b s))"

text \<open>\<open>bio_.reset()\<close> destroys the BIO; the descriptor and the handlers stay as they are.\<close>

definition connection_close :: "'s openssl \<Rightarrow> connection \<Rightarrow> 's \<Rightarrow> connection \<times> 's" where
  "connection_close lib c s = (c\<lparr>cbio := None\<rparr>, case cbio c of None \<Rightarrow> s | Some b \<Rightarrow> bio_destroy lib b s)"

definition connection_usesSSL :: "'s openssl \<Rightarrow> connection \<Rightarrow> 's \<Rightarrow> exn + bool" where
  "connection_usesSSL lib c s = (case cbio c of None \<Rightarrow> Inl UnusableConnection | Some b \<Rightarrow> Inr (bio_uses_ssl lib b s))"

text \<open>
  \<open>error_callback = None\<close> is the empty function object, in whose place \<open>onError_\<close> of this
  connection is attached. The data handler is set before the descriptor is tested.
\<close>

definition setNewDataHandler ::
  "nat \<Rightarrow> notification option \<Rightarrow> connection \<Rightarrow> notification handler
     \<Rightarrow> (exn + unit) \<times> connection \<times> notification handler" where
  "setNewDataHandler handler error_callback c h =
     (let error_callback = (case error_callback of None \<Rightarrow> OnError (conn_id c) | Some f \<Rightarrow> f);
          c = c\<lparr>data_handler := Some handler\<rparr>
      in if cfd c = -1 then (Inl UnusableConnection, c, h)
         else (Inr (), c, attach (cfd c) (OnDataReady (conn_id c)) (Some error_callback) h))"

text \<open>\<open>detach_from\<close> is the handler's \<open>detach\<close>, as it behaves in the calling thread.\<close>

definition clearNewDataHandler ::
  "(int \<Rightarrow> notification handler \<Rightarrow> notification handler) \<Rightarrow> connection \<Rightarrow> notification handler
     \<Rightarrow> (exn + unit) \<times> connection \<times> notification handler" where
  "clearNewDataHandler detach_from c h =
     (if data_handler c \<noteq> None then
        if cfd c = -1 then (Inl UnusableConnection, c, h)
        else (Inr (), c\<lparr>data_handler := None\<rparr>, detach_from (cfd c) h)
      else (Inr (), c, h))"

definition setErrorHandler :: "nat \<Rightarrow> connection \<Rightarrow> connection" where
  "setErrorHandler f c = c\<lparr>error_handler := Some f\<rparr>"

definition clearErrorHandler :: "connection \<Rightarrow> connection" where
  "clearErrorHandler c = c\<lparr>error_handler := None\<rparr>"

text \<open>\<open>peer\<close> is the address that \<open>getpeername\<close> stores for the descriptor.\<close>

definition getPeerAddress :: "(int \<Rightarrow> 32 word) \<Rightarrow> connection \<Rightarrow> exn + address" where
  "getPeerAddress peer c = (case cbio c of None \<Rightarrow> Inl UnusableConnection | Some _ \<Rightarrow> Inr (Address_u32 (peer (cfd c))))"

definition setReadTimeout :: "(int \<Rightarrow> 32 word \<Rightarrow> 's \<Rightarrow> 's) \<Rightarrow> connection \<Rightarrow> 32 word \<Rightarrow> 's \<Rightarrow> (exn + unit) \<times> 's" where
  "setReadTimeout set_receive_timeout c seconds s = (case cbio c of
      None \<Rightarrow> (Inl UnusableConnection, s)
    | Some _ \<Rightarrow> (Inr (), set_receive_timeout (cfd c) seconds s))"

text \<open>The notifications: which handler is called, if one is set.\<close>

definition onDataReady_ref :: "connection \<Rightarrow> nat option" where
  "onDataReady_ref c = data_handler c"

definition onError_ref :: "connection \<Rightarrow> nat option" where
  "onError_ref c = error_handler c"

text \<open>The destructor clears the data handler and destroys the BIO.\<close>

definition connection_destroy ::
  "'s openssl \<Rightarrow> (int \<Rightarrow> notification handler \<Rightarrow> notification handler) \<Rightarrow> connection
     \<Rightarrow> notification handler \<Rightarrow> 's \<Rightarrow> (exn + unit) \<times> notification handler \<times> 's" where
  "connection_destroy lib detach_from c h s =
     (case clearNewDataHandler detach_from c h of (r, c', h') \<Rightarrow> (r, h', snd (connection_close lib c' s)))"

section \<open>What read returns\<close>

text \<open>
  A BIO that hands out the bytes \<open>pending s\<close> as they are asked for; when there are none left,
  it asks to retry later (\<open>open_end\<close>) or reports the end of the connection.
\<close>

definition drains :: "'s openssl \<Rightarrow> bio \<Rightarrow> bool \<Rightarrow> ('s \<Rightarrow> string) \<Rightarrow> bool" where
  "drains lib b open_end pending \<longleftrightarrow> (\<forall>n s. n > 0 \<longrightarrow> (case bio_read lib b n s of ((r, d), s') \<Rightarrow>
     if pending s = [] then r = (if open_end then -1 else 0) \<and> d = [] \<and> pending s' = []
        \<and> bio_should_retry lib b s' = open_end
     else d = take n (pending s) \<and> r = int (length d) \<and> pending s' = drop n (pending s)))"

lemma drains_empty: "drains lib b open_end pending \<Longrightarrow> n > 0 \<Longrightarrow> pending s = [] \<Longrightarrow>
    \<exists>s'. bio_read lib b n s = ((if open_end then -1 else 0, []), s') \<and> bio_should_retry lib b s' = open_end
      \<and> pending s' = []"
  unfolding drains_def by (drule spec [of _ n], drule spec [of _ s]) (simp split: prod.splits)

lemma drains_some: "drains lib b open_end pending \<Longrightarrow> n > 0 \<Longrightarrow> pending s \<noteq> [] \<Longrightarrow>
    \<exists>s'. bio_read lib b n s = ((int (length (take n (pending s))), take n (pending s)), s')
      \<and> pending s' = drop n (pending s)"
  unfolding drains_def by (drule spec [of _ n], drule spec [of _ s]) (simp split: prod.splits)

lemma put_at_block: "length d \<le> k \<Longrightarrow> put_at (length g) d (g @ replicate k NUL) = g @ d @ replicate (k - length d) NUL"
  by (simp add: put_at_def)

lemma block_size_pos [simp]: "0 < default_read_block_size" "default_read_block_size \<noteq> 0" "default_read_block_size < INT_MAX"
  by (simp_all add: default_read_block_size_def INT_MAX_def)

text \<open>The state behind a read that took bytes.\<close>

definition after_data :: "'s openssl \<Rightarrow> bio \<Rightarrow> ('s \<Rightarrow> string) \<Rightarrow> 's \<Rightarrow> bool" where
  "after_data lib b pending s' \<longleftrightarrow> (\<exists>n s. n > 0 \<and> pending s \<noteq> [] \<and> s' = snd (bio_read lib b n s))"

lemma read_loop_drains:
  assumes "drains lib b open_end pending"
  shows "\<exists>s'. pending s' = [] \<and> (length (pending s) mod default_read_block_size \<noteq> 0 \<longrightarrow> after_data lib b pending s') \<and>
    (let all = got @ pending s; k = length (pending s) mod default_read_block_size in
     read_loop lib b True (got @ replicate default_read_block_size NUL) (length got) (word_of_nat (length got)) s
     = Some (if k \<noteq> 0 then Inr (all @ replicate (default_read_block_size - k) NUL, word_of_nat (length all), retry_reason lib b s')
             else if open_end then Inr (all @ replicate default_read_block_size NUL, word_of_nat (length all) - 1, retry_reason lib b s')
             else Inl ConnectionClosed, s'))"
proof (induction "length (pending s)" arbitrary: s got rule: less_induct)
  case less
  let ?N = default_read_block_size
  let ?B = "got @ replicate ?N NUL"
  show ?case
  proof (cases "pending s = []")
    case True
    then obtain s' where "bio_read lib b ?N s = ((if open_end then -1 else 0, []), s')"
      "bio_should_retry lib b s' = open_end" "pending s' = []"
      using drains_empty [OF assms, of ?N s] by auto
    then show ?thesis using True
      by (intro exI [of _ s']) (subst read_loop.simps, simp add: put_at_block [of "[]", simplified])
  next
    case False
    then obtain s' where s': "bio_read lib b ?N s
        = ((int (length (take ?N (pending s))), take ?N (pending s)), s')"
      "pending s' = drop ?N (pending s)"
      using drains_some [OF assms, of ?N s] by auto
    show ?thesis
    proof (cases "length (pending s) < ?N")
      case True
      have "after_data lib b pending s'"
        unfolding after_data_def using False s'(1) by (intro exI [of _ ?N] exI [of _ s]) simp
      then show ?thesis using False s' True
        by (intro exI [of _ s']) (subst read_loop.simps, simp add: put_at_block Let_def)
    next
      case long: False
      let ?d = "take ?N (pending s)"
      have l: "length ?d = ?N" using long by simp
      have p: "put_at (length got) ?d ?B = got @ ?d"
        using put_at_block [of ?d ?N got] l by simp
      have "read_loop lib b True ?B (length got) (word_of_nat (length got)) s
        = read_loop lib b True ((got @ ?d) @ replicate ?N NUL) (length (got @ ?d)) (word_of_nat (length (got @ ?d))) s'"
        using long by (subst read_loop.simps) (simp add: s'(1) p Let_def min_def)
      moreover have "length (pending s') < length (pending s)" using False by (simp add: s'(2) diff_less)
      moreover have "(got @ ?d) @ pending s' = got @ pending s" using s'(2) by simp
      moreover have "length (pending s') mod ?N = length (pending s) mod ?N"
        using s'(2) long by (simp add: le_mod_geq)
      ultimately show ?thesis using less [of s' "got @ ?d"] by (simp only:)
    qed
  qed
qed

lemma connection_read_drains:
  assumes "drains lib b open_end pending" "cbio c = Some b" "length (pending s) mod 4096 \<noteq> 0"
  obtains s' reason where "pending s' = []" "connection_read lib c [] s
    = Some (Inr (pending s @ replicate (4096 - length (pending s) mod 4096) NUL, word_of_nat (length (pending s)), reason), s')"
    "reason = retry_reason lib b s'" "after_data lib b pending s'"
  using read_loop_drains [OF assms(1), where got = "[]" and s = s] assms(2,3)
  unfolding connection_read_def default_read_block_size_def [symmetric]
  by (auto simp: Let_def)

text \<open>
  C14: reading with an empty buffer takes everything that is pending, in blocks of 4096 bytes.
  The number returned is the number of bytes when that is not a multiple of 4096; when it
  is, the number is one too small (modulo 2 to the 64) on a connection that stays open,
  because the -1 of the last, empty, read is added, and on a connection that was closed
  behind the data an exception is thrown and the data is lost.
\<close>

theorem read_counts:
  fixes s :: 's
  assumes "drains lib b open_end pending" "cbio c = Some b"
  shows "\<exists>s'. pending s' = [] \<and> connection_read lib c [] s = Some
    (if length (pending s) mod 4096 \<noteq> 0
     then Inr (pending s @ replicate (4096 - length (pending s) mod 4096) NUL,
               word_of_nat (length (pending s)), retry_reason lib b s')
     else if open_end
     then Inr (pending s @ replicate 4096 NUL, word_of_nat (length (pending s)) - 1, retry_reason lib b s')
     else Inl ConnectionClosed, s')"
  using read_loop_drains [OF assms(1), where got = "[]" and s = s] assms(2)
  unfolding connection_read_def default_read_block_size_def [symmetric]
  by (auto simp: Let_def)

text \<open>A BIO over a string of pending bytes, for concrete evaluations.\<close>

definition memory_ssl :: "bool \<Rightarrow> string openssl" where
  "memory_ssl open_end = \<lparr>BIO_reset = (\<lambda>_ s. s),
     BIO_read = (\<lambda>_ n s. if s = [] then ((if open_end then -1 else 0, []), s)
       else ((int (length (take n s)), take n s), drop n s)),
     BIO_write = (\<lambda>_ d s. (if open_end then -1 else int (length d), s)), BIO_pending = (\<lambda>_. length),
     BIO_should_retry = (\<lambda>_ _. open_end), BIO_should_read = (\<lambda>_ _. open_end),
     BIO_should_write = (\<lambda>_ _. False), BIO_do_accept = (\<lambda>_ s. (1, s)), BIO_pop = (\<lambda>_ s. (None, s)),
     BIO_get_ssl = (\<lambda>_ _. None), BIO_do_handshake = (\<lambda>_ s. (1, s)), BIO_do_connect = (\<lambda>_ s. (1, s)),
     BIO_new_accept = (\<lambda>_ s. (Some 1, s)), BIO_new_connect = (\<lambda>_ s. (Some 1, s)),
     BIO_new_ssl = (\<lambda>_ s. (None, s)), BIO_new_ssl_connect = (\<lambda>_ s. (None, s)),
     BIO_set_accept_bios = (\<lambda>_ _ s. s), BIO_set_conn_hostname = (\<lambda>_ _ s. s),
     BIO_free_all = (\<lambda>_ s. s), BIO_get_fd = (\<lambda>p _. int p), ERR_get_error_line_data = (\<lambda>s. (no_error, s))\<rparr>"

definition memory_connection :: connection where
  "memory_connection = \<lparr>conn_id = 0, cbio = Some (ConnectionBIO 5), data_handler = None, cfd = 5, error_handler = None\<rparr>"

lemma memory_drains: "drains (memory_ssl open_end) (ConnectionBIO 5) open_end (\<lambda>s. s)"
  by (auto simp: drains_def bio_read_def bio_should_retry_def memory_ssl_def)

theorem read_counts_witness:
  "connection_read (memory_ssl False) memory_connection [] ''abc''
     = Some (Inr (''abc'' @ replicate 4093 NUL, 3, 1), [])
   \<and> connection_read (memory_ssl True) memory_connection [] (replicate 4096 SP)
     = Some (Inr (replicate 4096 SP @ replicate 4096 NUL, 4095, 3), [])
   \<and> connection_read (memory_ssl False) memory_connection [] (replicate 4096 SP) = Some (Inl ConnectionClosed, [])"
proof -
  have b: "cbio memory_connection = Some (ConnectionBIO 5)" by (simp add: memory_connection_def)
  have r: "retry_reason (memory_ssl e) (ConnectionBIO 5) s = (if e then 3 else 1)" for e s
    by (simp add: retry_reason_def bio_should_read_def bio_should_write_def memory_ssl_def)
  show ?thesis
    using read_counts [OF memory_drains b, of False "''abc''"]
      read_counts [OF memory_drains b, of True "replicate 4096 SP"]
      read_counts [OF memory_drains b, of False "replicate 4096 SP"]
    by (simp add: r)
qed

text \<open>
  A write of nothing succeeds without a call; otherwise a full write gives the number of
  bytes and no reason, a partial one the number and the reasons, a permanent failure
  raises, and a write that OpenSSL asks to repeat (-1) gives the number 2^64 - 1.
\<close>

theorem write_reports:
  assumes "cbio c = Some b" "bio_write lib b data s = (r, s')" "r \<le> int (length data)" "length data < INT_MAX"
  shows "connection_write lib c [] s = (Inr (0, 0), s)
    \<and> (data \<noteq> [] \<and> r = int (length data) \<longrightarrow> connection_write lib c data s = (Inr (word_of_nat (length data), 0), s'))
    \<and> (data \<noteq> [] \<and> 0 \<le> r \<and> r < int (length data) \<and> bio_should_retry lib b s' \<longrightarrow>
        (\<exists>n. connection_write lib c data s = (Inr (n, retry_reason lib b s'), s') \<and> uint n = r))
    \<and> (data \<noteq> [] \<and> r \<noteq> -2 \<and> r < int (length data) \<and> \<not> bio_should_retry lib b s' \<longrightarrow>
        connection_write lib c data s = (Inl ConnectionClosed, s'))
    \<and> (data \<noteq> [] \<and> r = -1 \<and> bio_should_retry lib b s' \<longrightarrow>
        (\<exists>n. connection_write lib c data s = (Inr (n, retry_reason lib b s'), s') \<and> uint n = 2 ^ 64 - 1))"
proof -
  have "uint (word_of_int r :: 64 word) = r" if "0 \<le> r"
    using that assms(3,4) by (simp add: uint_word_of_int INT_MAX_def)
  moreover have "uint (word_of_int (-1) :: 64 word) = 2 ^ 64 - 1"
    by (simp add: unsigned_minus_1_eq_mask mask_eq_exp_minus_1)
  ultimately show ?thesis
    using assms by (auto simp: connection_write_def)
qed

theorem write_reports_witness:
  "connection_write (memory_ssl True) memory_connection ''abc'' [] = (Inr (- 1, 3), [])
   \<and> connection_write (memory_ssl False) memory_connection ''abc'' [] = (Inr (3, 0), [])"
proof -
  have b: "cbio memory_connection = Some (ConnectionBIO 5)" by (simp add: memory_connection_def)
  have w: "bio_write (memory_ssl e) (ConnectionBIO 5) ''abc'' [] = (if e then -1 else 3, [])" for e
    by (simp add: bio_write_def memory_ssl_def)
  have r: "retry_reason (memory_ssl True) (ConnectionBIO 5) [] = 3" "bio_should_retry (memory_ssl True) (ConnectionBIO 5) []"
    by (simp_all add: retry_reason_def bio_should_read_def bio_should_write_def bio_should_retry_def memory_ssl_def)
  obtain n where n: "connection_write (memory_ssl True) memory_connection ''abc'' [] = (Inr (n, 3), [])"
    "uint n = 2 ^ 64 - 1"
    using write_reports [OF b w, of True] r by (auto simp: INT_MAX_def)
  have "n = - 1" by (rule word_uint_eqI) (simp add: n(2) unsigned_minus_1_eq_mask mask_eq_exp_minus_1)
  with n show ?thesis using write_reports [OF b w, of False] by (simp add: INT_MAX_def)
qed

section \<open>Registering with the connection handler\<close>

text \<open>
  C28: setting a data handler on a connection whose descriptor nobody watches and clearing it
  again, from any thread, leaves the watched descriptors as they were; setting it twice
  and clearing it once leaves the connection's call-back behind, although the connection
  then has no data handler to clear; and a connection without a descriptor keeps the
  handler it could not attach, so that clearing it (in the destructor) throws again.
\<close>

theorem data_handler_registration:
  assumes "idents_ok h" "cfd c \<noteq> -1" "cfd c \<notin> fst ` set (watched_list h)"
  shows "(case setNewDataHandler d e c h of (r, c1, h1) \<Rightarrow> r = Inr () \<and> data_handler c1 = Some d
        \<and> (\<forall>detach_from \<in> {detach_worker, detach_wait}. case clearNewDataHandler detach_from c1 h1 of (r', c2, h2) \<Rightarrow>
             r' = Inr () \<and> data_handler c2 = None \<and> watched_list h2 = watched_list h))
    \<and> (case setNewDataHandler d e c h of (_, c1, h1) \<Rightarrow> case setNewDataHandler d' e' c1 h1 of (_, c2, h2) \<Rightarrow>
        case clearNewDataHandler detach_worker c2 h2 of (_, c3, h3) \<Rightarrow>
          data_handler c3 = None \<and> watched_list h3 = watched_list h @ [(cfd c, OnDataReady (conn_id c))])
    \<and> (case setNewDataHandler d e (c\<lparr>cfd := -1\<rparr>) h of (r, c1, h1) \<Rightarrow> r = Inl UnusableConnection
        \<and> fst (clearNewDataHandler detach_worker c1 h1) = Inl UnusableConnection)"
  using assms worker_notifier.attach_detach wait_notifier.attach_detach worker_notifier.attach_twice_detach
  by (auto simp: setNewDataHandler_def clearNewDataHandler_def Let_def)

theorem data_handler_registration_witness:
  "watched_list (snd (snd (clearNewDataHandler detach_worker
       (fst (snd (setNewDataHandler 1 None memory_connection ConnectionHandler)))
       (snd (snd (setNewDataHandler 1 None memory_connection ConnectionHandler)))))) = []"
proof -
  have "idents_ok (ConnectionHandler :: notification handler)"
    "watched_list (ConnectionHandler :: notification handler) = []"
    by (simp_all add: idents_ok_def ConnectionHandler_def watched_list_def)
  then show ?thesis
    using data_handler_registration [of ConnectionHandler memory_connection 1 None 1 None]
    by (simp add: memory_connection_def case_prod_beta)
qed

end
