(* ===== verification/HTTPDataHandler.thy ===== *)
theory HTTPDataHandler
  imports MessageReader Connection
begin

text \<open>
  \<^verbatim>\<open>lib/Spin/Handlers/HTTPDataHandler.cpp\<close> and \<^verbatim>\<open>HTTPRequestHandler.cpp\<close>: turning the bytes
  of a connection into requests. What is left over between two notifications is kept in an
  attribute of the connection: the request so far (if there is one), the bytes not yet
  used, and whether all headers were found.
\<close>

section \<open>Extracting a request\<close>

datatype http_method = Options | Get | Head | Post | Put | Delete | Trace | Connect

definition supported_methods :: "string \<rightharpoonup> http_method" where
  "supported_methods = map_of
     [(''OPTIONS'', Options), (''GET'', Get), (''HEAD'', Head), (''POST'', Post), (''PUT'', Put),
      (''DELETE'', Delete), (''TRACE'', Trace), (''CONNECT'', Connect)]"

type_synonym leftover = "request option \<times> string \<times> bool"

definition extract_request :: "nat \<Rightarrow> string \<Rightarrow> exn + request option \<times> nat" where
  "extract_request conn b = extractRequestHeader (Request conn) supported_methods b 0 (length b)"

text \<open>
  The loop behind \<open>after_connection_attributes_are_got\<close>: the request, the buffer, the
  iterator and \<open>end_of_headers_found\<close>. The attribute is empty afterwards. (With an
  attribute that holds no request, the loop runs a second time, now without attribute.)
\<close>

definition acquire :: "nat \<Rightarrow> leftover option \<Rightarrow> string \<Rightarrow> exn + request option \<times> string \<times> nat \<times> bool" where
  "acquire conn attr b = (case attr of
      None \<Rightarrow> (case extract_request conn b of Inl e \<Rightarrow> Inl e | Inr (rq, wh) \<Rightarrow> Inr (rq, b, wh, False))
    | Some (rq, temp_buffer, eoh) \<Rightarrow>
        let b = temp_buffer @ b in
        if rq \<noteq> None \<or> b = [] then Inr (rq, b, 0, eoh)
        else (case extract_request conn b of Inl e \<Rightarrow> Inl e | Inr (rq, wh) \<Rightarrow> Inr (rq, b, wh, eoh)))"

definition add_request_header :: "header \<Rightarrow> request \<Rightarrow> request" where
  "add_request_header h r = r\<lparr>header_fields := header_fields r @ [h]\<rparr>"

interpretation request_message: header_message add_request_header header_fields
  by unfold_locales (simp add: add_request_header_def)

text \<open>
  How one pass ends: with an exception; with something to keep in the attribute; or with a
  complete request, handed to the request handler, and the bytes behind it. (\<open>NullRequest\<close>
  is the use of a null pointer as the request.)
\<close>

datatype pass = Raise exn | Keep leftover | Deliver request string | NullRequest

definition find_body :: "boost_lib \<Rightarrow> request option \<Rightarrow> string \<Rightarrow> nat \<Rightarrow> bool \<Rightarrow> pass" where
  "find_body L rq b wh eoh =
     (if eoh then
        (case rq of None \<Rightarrow> NullRequest | Some r \<Rightarrow>
          (case find_header ''Content-Length'' (header_fields r) of
             Some h \<Rightarrow>
               (case cast_size_t L (hvalue h) of
                  None \<Rightarrow> Raise bad_lexical_cast
                | Some body_size \<Rightarrow>
                    if length b - wh < body_size then Keep (Some r, drop wh b, eoh)
                    else Deliver (r\<lparr>body := body r @ seg b wh (wh + body_size)\<rparr>) (drop (wh + body_size) b))
           | None \<Rightarrow> Deliver r (drop wh b)))
      else Keep (rq, drop wh b, eoh))"

definition serve_pass :: "boost_lib \<Rightarrow> nat \<Rightarrow> leftover option \<Rightarrow> string \<Rightarrow> pass" where
  "serve_pass L conn attr b = (case acquire conn attr b of
      Inl e \<Rightarrow> Raise e
    | Inr (None, b, wh, eoh) \<Rightarrow> find_body L None b wh eoh
    | Inr (Some r, b, wh, eoh) \<Rightarrow>
        (case header_loop add_request_header b wh eoh r of
           Inl e \<Rightarrow> Raise e
         | Inr (r, wh, eoh) \<Rightarrow> find_body L (Some r) b wh eoh))"

section \<open>Serving a buffer\<close>

lemma extractRequestHeader_bounds:
  assumes "extractRequestHeader mk methods b cur (length b) = Inr (Some r, wh)" "cur \<le> length b"
  shows "cur < wh \<and> wh \<le> length b"
proof -
  let ?n = "length b"
  define w1 where "w1 = advanceThroughIgnorableWhiteSpace b cur ?n"
  define e1 where "e1 = advanceUntilIgnorableWhiteSpace b w1 ?n"
  define w2 where "w2 = advanceThroughIgnorableWhiteSpace b e1 ?n"
  define e2 where "e2 = advanceUntilIgnorableWhiteSpace b w2 ?n"
  define w3 where "w3 = advanceThroughIgnorableWhiteSpace b e2 ?n"
  define e3 where "e3 = advanceUntilIgnorableWhiteSpace b w3 ?n"
  have b: "cur \<le> w1" "w1 \<le> ?n" using scan_bounds(1,2) assms(2) by (simp_all add: w1_def)
  then have c: "w1 \<le> e1" "e1 \<le> ?n" using scan_bounds(3,4) by (simp_all add: e1_def)
  then have d: "e1 \<le> w2" "w2 \<le> ?n" using scan_bounds(1,2) by (simp_all add: w2_def)
  then have e: "w2 \<le> e2" "e2 \<le> ?n" using scan_bounds(3,4) by (simp_all add: e2_def)
  then have f: "e2 \<le> w3" "w3 \<le> ?n" using scan_bounds(1,2) by (simp_all add: w3_def)
  then have g: "w3 \<le> e3" "e3 \<le> ?n" using scan_bounds(3,4) by (simp_all add: e3_def)
  have "wh = e3 \<and> (seg b w3 e3 = ''HTTP/1.0'' \<or> seg b w3 e3 = ''HTTP/1.1'')"
    using assms(1)
    by (simp add: extractRequestHeader_def Let_def w1_def [symmetric] e1_def [symmetric] w2_def [symmetric]
        e2_def [symmetric] w3_def [symmetric] e3_def [symmetric] split: if_splits)
  moreover from this have "w3 < e3" by (cases "w3 < e3") auto
  ultimately show ?thesis using b c d e f g by simp
qed

text \<open>The bytes a pass works on, and how many of them it leaves.\<close>

fun available :: "leftover option \<Rightarrow> string \<Rightarrow> string" where
  "available None b = b"
| "available (Some (rq, t, eoh)) b = t @ b"

fun resumes :: "leftover option \<Rightarrow> bool" where
  "resumes (Some (Some r, t, eoh)) = True"
| "resumes attr = False"

lemma extract_request_bounds: "extract_request conn b = Inr (Some r, wh) \<Longrightarrow> 0 < wh \<and> wh \<le> length b"
  using extractRequestHeader_bounds [of "Request conn" supported_methods b 0] by (simp add: extract_request_def)

lemma acquire_progress:
  assumes "acquire conn attr b = Inr (Some r, b', wh, eoh)"
  shows "b' = available attr b \<and> wh \<le> length b' \<and> (resumes attr \<or> 0 < wh)"
  using assms extract_request_bounds [of conn _ r wh]
  by (cases "(attr, b)" rule: available.cases)
    (fastforce simp: acquire_def Let_def split: sum.splits if_splits)+

lemma find_body_rest: "find_body L rq b wh eoh = Deliver r rest \<Longrightarrow> length rest \<le> length b - wh"
  by (auto simp: find_body_def split: if_splits option.splits)

lemma serve_pass_rest:
  assumes "serve_pass L conn attr b = Deliver r rest"
  shows "length rest \<le> length (available attr b) \<and> (resumes attr \<or> length rest < length (available attr b))"
proof -
  obtain rq b' wh eoh where a: "acquire conn attr b = Inr (rq, b', wh, eoh)"
    using assms by (auto simp: serve_pass_def split: sum.splits)
  show ?thesis
  proof (cases rq)
    case None
    with a assms show ?thesis by (auto simp: serve_pass_def find_body_def split: if_splits)
  next
    case (Some r0)
    with a assms obtain r' wh' eoh' where h: "header_loop add_request_header b' wh eoh r0 = Inr (r', wh', eoh')"
      "find_body L (Some r') b' wh' eoh' = Deliver r rest"
      by (auto simp: serve_pass_def split: sum.splits)
    moreover have "wh \<le> length b'" using acquire_progress [of conn attr b r0] a Some by blast
    ultimately have "wh \<le> wh'" "wh' \<le> length b'" "length rest \<le> length b' - wh'"
      using header_loop_bounds [OF _ h(1)] find_body_rest by blast+
    then show ?thesis using acquire_progress [of conn attr b r0 b' wh eoh] a Some by auto
  qed
qed

text \<open>
  How a call of \<open>onDataReady\<close> ends, the attribute it leaves and the requests it has handed
  over. The \<open>goto\<close> is the recursive call.
\<close>

datatype status = Done | Threw exn | Crashed

function serve :: "boost_lib \<Rightarrow> nat \<Rightarrow> leftover option \<Rightarrow> string \<Rightarrow> status \<times> leftover option \<times> request list" where
  "serve L conn attr b = (case serve_pass L conn attr b of
      Raise e \<Rightarrow> (Threw e, None, [])
    | NullRequest \<Rightarrow> (Crashed, None, [])
    | Keep l \<Rightarrow> (Done, Some l, [])
    | Deliver r rest \<Rightarrow>
        if rest \<noteq> [] then
          (case serve L conn (Some (None, rest, False)) [] of (st, attr', rs) \<Rightarrow> (st, attr', r # rs))
        else (Done, None, [r]))"
  by pat_completeness auto
termination
proof (relation "measure (\<lambda>(L, conn, attr, b). 2 * length (available attr b) + (if resumes attr then 1 else 0))",
    goal_cases)
  case (2 L conn attr b r rest)
  then show ?case using serve_pass_rest [of L conn attr b r rest] by auto
qed simp

declare serve.simps [simp del]

lemma serve_cases:
  "serve_pass L conn attr b = Raise e \<Longrightarrow> serve L conn attr b = (Threw e, None, [])"
  "serve_pass L conn attr b = NullRequest \<Longrightarrow> serve L conn attr b = (Crashed, None, [])"
  "serve_pass L conn attr b = Keep l \<Longrightarrow> serve L conn attr b = (Done, Some l, [])"
  "serve_pass L conn attr b = Deliver r [] \<Longrightarrow> serve L conn attr b = (Done, None, [r])"
  by (subst serve.simps; simp)+

text \<open>\<open>buffer.resize\<close>: shortened, or filled up; beyond the largest size of a vector it throws.\<close>

definition resize :: "nat \<Rightarrow> string \<Rightarrow> exn + string" where
  "resize n b = (if n < 2 ^ 63 then Inr (take n b @ replicate (n - length b) NUL) else Inl length_error)"

section \<open>The request handler\<close>

text \<open>\<open>HTTPRequestHandler\<close>: a queue; \<open>getNextRequest\<close> waits while it is empty (\<open>None\<close>).\<close>

definition handle :: "request \<Rightarrow> request list \<Rightarrow> request list" where
  "handle r requests = requests @ [r]"

definition getNextRequest :: "request list \<Rightarrow> (request \<times> request list) option" where
  "getNextRequest requests = (case requests of [] \<Rightarrow> None | r # rs \<Rightarrow> Some (r, rs))"

text \<open>A first-in first-out queue, as the data handler and the thread that takes requests see it.\<close>

locale request_queue =
  fixes contents :: "'q \<Rightarrow> 'r list" and put :: "'r \<Rightarrow> 'q \<Rightarrow> 'q" and get :: "'q \<Rightarrow> ('r \<times> 'q) option"
  assumes contents_put: "contents (put r q) = contents q @ [r]"
    and get_None: "get q = None \<longleftrightarrow> contents q = []"
    and get_Some: "get q = Some (r, q') \<Longrightarrow> contents q = r # contents q'"
begin

fun fetch :: "nat \<Rightarrow> 'q \<Rightarrow> 'r list" where
  "fetch 0 q = []"
| "fetch (Suc n) q = (case get q of None \<Rightarrow> [] | Some (r, q') \<Rightarrow> r # fetch n q')"

lemma contents_fold: "contents (fold put rs q) = contents q @ rs"
  by (induction rs arbitrary: q) (simp_all add: contents_put)

lemma fetch_contents: "fetch n q = take n (contents q)"
proof (induction n arbitrary: q)
  case (Suc n)
  show ?case
    using Suc get_None [of q] get_Some [of q] by (cases "get q") auto
qed simp

lemma fifo: "fetch n (fold put rs q) = take n (contents q @ rs)"
  by (simp add: fetch_contents contents_fold)

end

interpretation requests: request_queue "\<lambda>q. q" handle getNextRequest
  by unfold_locales (auto simp: handle_def getNextRequest_def split: list.splits)

definition onDataReady ::
  "boost_lib \<Rightarrow> 's openssl \<Rightarrow> connection \<Rightarrow> leftover option \<Rightarrow> request list \<Rightarrow> 's
     \<Rightarrow> (status \<times> leftover option \<times> request list \<times> 's) option" where
  "onDataReady L lib c attr queue s = (case connection_read lib c [] s of
      None \<Rightarrow> None
    | Some (Inl e, s') \<Rightarrow> Some (Threw e, attr, queue, s')
    | Some (Inr (buffer, bytes_read, reason), s') \<Rightarrow>
        (case resize (unat bytes_read) buffer of
           Inl e \<Rightarrow> Some (Threw e, attr, queue, s')
         | Inr b \<Rightarrow> (case serve L (conn_id c) attr b of
             (st, attr', rs) \<Rightarrow> Some (st, attr', fold handle rs queue, s'))))"

section \<open>The requests a client sends\<close>

definition start_line :: "request \<Rightarrow> string" where
  "start_line r = verb r @ [SP] @ url r @ [SP] @ protocol_and_version r"

definition request_wire :: "request \<Rightarrow> string" where
  "request_wire r = start_line r @ CRLF @ header_block (header_fields r) @ body r"

definition good_start_line :: "request \<Rightarrow> bool" where
  "good_start_line r \<longleftrightarrow> verb r \<in> dom supported_methods \<and> url r \<noteq> []
     \<and> (\<forall>c \<in> set (url r). \<not> isIgnorableWhiteSpace c)
     \<and> (protocol_and_version r = ''HTTP/1.0'' \<or> protocol_and_version r = ''HTTP/1.1'')"

text \<open>The body is announced by a \<open>Content-Length\<close> field, and does not start with white space.\<close>

definition good_body :: "boost_lib \<Rightarrow> request \<Rightarrow> bool" where
  "good_body L r \<longleftrightarrow> clean_start (body r) \<and>
     (case find_header ''Content-Length'' (header_fields r) of
        None \<Rightarrow> body r = [] | Some h \<Rightarrow> cast_size_t L (hvalue h) = Some (length (body r)))"

definition good_request :: "boost_lib \<Rightarrow> request \<Rightarrow> bool" where
  "good_request L r \<longleftrightarrow> good_start_line r \<and> (\<forall>h \<in> set (header_fields r). good_header h) \<and> good_body L r"

lemma supported_verb:
  assumes "v \<in> dom supported_methods"
  shows "v \<noteq> [] \<and> (\<forall>c \<in> set v. \<not> isIgnorableWhiteSpace c)"
proof -
  have "v \<in> {''OPTIONS'', ''GET'', ''HEAD'', ''POST'', ''PUT'', ''DELETE'', ''TRACE'', ''CONNECT''}"
    using assms by (auto simp: supported_methods_def split: if_splits)
  then show ?thesis by (auto simp: isIgnorableWhiteSpace_def)
qed

lemma protocol_text: "p = ''HTTP/1.0'' \<or> p = ''HTTP/1.1'' \<Longrightarrow> p \<noteq> [] \<and> (\<forall>c \<in> set p. \<not> isIgnorableWhiteSpace c)"
  by (auto simp: isIgnorableWhiteSpace_def)

text \<open>A token behind one space.\<close>

lemma next_token:
  assumes "b = pre @ [SP] @ tok @ rest" "tok \<noteq> []" "\<forall>c\<in>set tok. \<not> isIgnorableWhiteSpace c"
    and "rest = [] \<or> isIgnorableWhiteSpace (hd rest)"
  shows "advanceThroughIgnorableWhiteSpace b (length pre) (length b) = length (pre @ [SP])"
    and "advanceUntilIgnorableWhiteSpace b (length (pre @ [SP])) (length b) = length (pre @ [SP] @ tok)"
    and "seg b (length (pre @ [SP])) (length (pre @ [SP] @ tok)) = tok"
proof -
  have b2: "b = (pre @ [SP]) @ tok @ rest" by (simp add: assms(1))
  have "advanceThroughIgnorableWhiteSpace b (length pre) (length b) = length pre + length [SP]"
    using assms by (intro advance_through_ws_skip [of _ "tok @ rest"]) auto
  then show "advanceThroughIgnorableWhiteSpace b (length pre) (length b) = length (pre @ [SP])" by simp
  have "advanceUntilIgnorableWhiteSpace b (length (pre @ [SP])) (length b) = length (pre @ [SP]) + length tok"
    using assms by (intro advance_until_ws_skip [OF _ _ b2]) auto
  then show "advanceUntilIgnorableWhiteSpace b (length (pre @ [SP])) (length b) = length (pre @ [SP] @ tok)"
    by simp
  show "seg b (length (pre @ [SP])) (length (pre @ [SP] @ tok)) = tok"
    by (simp add: assms(1) seg_def)
qed

lemma extract_start_line:
  assumes r: "good_start_line r" and b: "b = start_line r @ rest" and rest: "rest \<noteq> []" "isIgnorableWhiteSpace (hd rest)"
  shows "extract_request c b
    = Inr (Some (Request c (verb r) (url r) (protocol_and_version r)), length (start_line r))"
proof -
  let ?v = "verb r" and ?u = "url r" and ?p = "protocol_and_version r"
  have v: "?v \<noteq> []" "\<forall>c \<in> set ?v. \<not> isIgnorableWhiteSpace c" "supported_methods ?v \<noteq> None"
    using r supported_verb [of ?v] by (auto simp: good_start_line_def)
  have p: "?p \<noteq> []" "\<forall>c \<in> set ?p. \<not> isIgnorableWhiteSpace c"
    using r protocol_text [of ?p] by (auto simp: good_start_line_def)
  have u: "?u \<noteq> []" "\<forall>c \<in> set ?u. \<not> isIgnorableWhiteSpace c" using r by (auto simp: good_start_line_def)
  have b0: "b = [] @ ?v @ ([SP] @ ?u @ [SP] @ ?p @ rest)" by (simp add: b start_line_def)
  have b1: "b = ?v @ [SP] @ ?u @ ([SP] @ ?p @ rest)" by (simp add: b start_line_def)
  have b2: "b = (?v @ [SP] @ ?u) @ [SP] @ ?p @ rest" by (simp add: b start_line_def)
  have "advanceThroughIgnorableWhiteSpace b 0 (length b) = 0"
    using advance_through_ws_skip [of "[]" b b "[]"] v by (simp add: b start_line_def)
  moreover have "advanceUntilIgnorableWhiteSpace b 0 (length b) = length ?v"
    using advance_until_ws_skip [OF v(2) _ b0] by simp
  moreover have "seg b 0 (length ?v) = ?v" by (simp add: b1 seg_def)
  moreover note t1 = next_token [OF b1 u]
  moreover note t2 = next_token [OF b2 p]
  moreover have "length b \<noteq> length ?v" "length b \<noteq> length (?v @ [SP] @ ?u)"
    "length b \<noteq> length ((?v @ [SP] @ ?u) @ [SP] @ ?p)" using rest by (simp_all add: b1)
  moreover have "length (start_line r) = length ((?v @ [SP] @ ?u) @ [SP] @ ?p)" by (simp add: start_line_def)
  ultimately show ?thesis
    using v(3) r rest
    by (simp add: extract_request_def extractRequestHeader_def Let_def good_start_line_def
        del: length_append append.simps append_assoc)
qed

lemma fold_add_request_header:
  "fold add_request_header hs m = m\<lparr>header_fields := header_fields m @ hs\<rparr>"
  by (induction hs arbitrary: m) (simp_all add: add_request_header_def)

text \<open>With bytes of a start line in the attribute, everything is as if they came with the new ones.\<close>

lemma serve_pass_start:
  assumes "t @ u \<noteq> []"
  shows "serve_pass L c (Some (None, t, False)) u = serve_pass L c None (t @ u)"
proof -
  define b where "b = t @ u"
  have "b \<noteq> []" using assms by (simp add: b_def)
  then have "acquire c (Some (None, t, False)) u = acquire c None b"
    unfolding acquire_def option.case prod.case Let_def b_def [symmetric] by simp
  then show ?thesis by (simp add: serve_pass_def b_def)
qed

lemma serve_start: "t @ u \<noteq> [] \<Longrightarrow> serve L c (Some (None, t, False)) u = serve L c None (t @ u)"
  using serve_pass_start [of t u L c] by (subst (1 2) serve.simps) simp

lemma find_body_good:
  assumes "good_body L r" "drop wh b = body r @ rest" "wh \<le> length b"
  shows "find_body L (Some (r\<lparr>body := []\<rparr>)) b wh True = Deliver r rest"
proof (cases "find_header ''Content-Length'' (header_fields r)")
  case None
  with assms show ?thesis by (simp add: find_body_def good_body_def)
next
  case (Some h)
  have "length b - wh = length (body r @ rest)" using assms(2) by (metis length_drop)
  moreover have "seg b wh (wh + length (body r)) = body r" using assms(2) by (simp add: seg_def)
  moreover have "drop (wh + length (body r)) b = rest"
    using assms(2) by (metis add.commute append_eq_conv_conj drop_drop)
  ultimately show ?thesis using Some assms(1) by (simp add: find_body_def good_body_def)
qed

lemma clean_start_append: "clean_start b \<Longrightarrow> clean_start rest \<Longrightarrow> clean_start (b @ rest)"
  by (cases b) (simp_all add: clean_start_def)

lemma request_start: "good_start_line r \<Longrightarrow> start_line r \<noteq> [] \<and> clean_start (start_line r @ rest)"
  using supported_verb [of "verb r"] by (auto simp: good_start_line_def start_line_def clean_start_def)

lemma request_eq: "connection r = c \<Longrightarrow>
    Request c (verb r) (url r) (protocol_and_version r) \<lparr>header_fields := header_fields r\<rparr> = r\<lparr>body := []\<rparr>"
  by (simp add: Request_def)

text \<open>What is left of a block behind \<open>sep\<close> (nothing, or the rest of a line end), then a body.\<close>

lemma finish_block:
  assumes "b = pre @ sep @ header_block hs @ body r @ rest" "\<forall>h \<in> set hs. good_header h"
    and "good_body L r" "clean_start rest" "r0\<lparr>header_fields := header_fields r0 @ hs\<rparr> = r\<lparr>body := []\<rparr>"
    and "\<forall>c\<in>set sep. isIgnorableWhiteSpace c" "count_list sep CR < 2" "count_list sep LF < 2"
    and "hs = [] \<Longrightarrow> CR \<in> set sep \<or> LF \<in> set sep"
  shows "(case header_loop add_request_header b (length pre) False r0 of
      Inl e \<Rightarrow> Raise e | Inr (r, wh, eoh) \<Rightarrow> find_body L (Some r) b wh eoh) = Deliver r rest"
proof -
  have "header_loop add_request_header b (length pre) False r0
      = Inr (fold add_request_header hs r0, length (pre @ sep @ header_block hs), True)"
    using assms by (intro header_loop_block [where rest = "body r @ rest"])
      (auto simp: good_body_def clean_start_append)
  moreover have "drop (length (pre @ sep @ header_block hs)) b = body r @ rest"
    by (simp add: assms(1))
  ultimately show ?thesis
    using find_body_good [OF assms(3), of "length (pre @ sep @ header_block hs)" b rest] assms(5)
    by (simp add: fold_add_request_header assms(1))
qed

lemma serve_pass_request:
  assumes "good_request L r" "connection r = c" "clean_start rest"
  shows "serve_pass L c None (request_wire r @ rest) = Deliver r rest"
proof -
  let ?b = "request_wire r @ rest"
  have b: "?b = start_line r @ CRLF @ header_block (header_fields r) @ body r @ rest"
    by (simp add: request_wire_def)
  have "extract_request c ?b
      = Inr (Some (Request c (verb r) (url r) (protocol_and_version r)), length (start_line r))"
    using assms by (intro extract_start_line [OF _ b]) (auto simp: good_request_def)
  then show ?thesis
    using finish_block [OF b _ _ assms(3), of L "Request c (verb r) (url r) (protocol_and_version r)"]
      assms(1) request_eq [OF assms(2)]
    by (simp add: serve_pass_def acquire_def good_request_def Request_def)
qed

lemma wires_clean: "\<forall>r \<in> set rs. good_request L r \<Longrightarrow> clean_start (concat (map request_wire rs))"
  using request_start by (cases rs) (auto simp: request_wire_def good_request_def)

lemma serve_requests:
  assumes "\<forall>r \<in> set rs. good_request L r \<and> connection r = c" "rs \<noteq> []"
  shows "serve L c None (concat (map request_wire rs)) = (Done, None, rs)"
  using assms
proof (induction rs)
  case (Cons r rs)
  let ?rest = "concat (map request_wire rs)"
  have p: "serve_pass L c None (request_wire r @ ?rest) = Deliver r ?rest"
    using Cons.prems wires_clean [of rs L] by (intro serve_pass_request) auto
  show ?case
  proof (cases "rs = []")
    case True
    with p show ?thesis by (subst serve.simps) simp
  next
    case False
    then have "?rest \<noteq> []" using request_start Cons.prems
      by (cases rs) (auto simp: request_wire_def good_request_def)
    then have "serve L c (Some (None, ?rest, False)) [] = (Done, None, rs)"
      using serve_start [of ?rest "[]" L c] Cons False by simp
    with p \<open>?rest \<noteq> []\<close> show ?thesis by (subst serve.simps) simp
  qed
qed simp

lemma onDataReady_requests:
  assumes "drains lib b open_end pending" "cbio c = Some b"
    and "\<forall>r \<in> set rs. good_request L r \<and> connection r = conn_id c" "rs \<noteq> []"
    and "pending s = concat (map request_wire rs)" "length (pending s) mod 4096 \<noteq> 0" "length (pending s) < 2 ^ 63"
  obtains x s' where "onDataReady L lib c None queue s = Some (Done, None, fold handle rs queue, s')" "pending s' = []"
    "connection_read lib c [] s = Some (x, s')"
proof -
  obtain s' reason where s': "pending s' = []" "connection_read lib c [] s
      = Some (Inr (pending s @ replicate (4096 - length (pending s) mod 4096) NUL,
          word_of_nat (length (pending s)), reason), s')"
    by (rule connection_read_drains [OF assms(1,2,6)])
  have "unat (word_of_nat (length (pending s)) :: 64 word) = length (pending s)"
    using assms(7) by (simp add: unat_of_nat)
  with s' have "onDataReady L lib c None queue s = Some (Done, None, fold handle rs queue, s')"
    using serve_requests [of rs L "conn_id c"] assms(3,4,5,7)
    by (simp add: onDataReady_def resize_def)
  then show ?thesis using s' by (intro that)
qed

text \<open>
  C4: when the bytes of any number of requests of the usual form, one behind the other, are pending on a
  connection, one notification reads them, delivers exactly these requests, in order and
  with their headers and bodies, to the queue, from which they are fetched in that order, and leaves nothing over.
  The usual form (\<open>good_request\<close>): a method of the eight, a URL without white space, header fields of one line each, and a
  body that its \<open>Content-Length\<close> announces and that does not start with white space (\<open>white_space_of_body_is_lost\<close> has what
  becomes of one that does). The total length is not a multiple of the block size (of one that is, \<open>read\<close> loses the last byte).
\<close>

theorem pipelined_requests_delivered:
  assumes "drains lib b open_end pending" "cbio c = Some b"
    and "\<forall>r \<in> set rs. good_request L r \<and> connection r = conn_id c" "rs \<noteq> []"
    and "pending s = concat (map request_wire rs)" "length (pending s) mod 4096 \<noteq> 0" "length (pending s) < 2 ^ 63"
  shows "\<exists>queue' s'. onDataReady L lib c None queue s = Some (Done, None, queue', s') \<and> pending s' = []
    \<and> requests.fetch (length queue + length rs) queue' = queue @ rs"
proof -
  obtain s' where "onDataReady L lib c None queue s = Some (Done, None, fold handle rs queue, s')" "pending s' = []"
    by (rule onDataReady_requests [OF assms])
  moreover have "requests.fetch (length queue + length rs) (fold handle rs queue) = queue @ rs"
    by (simp add: requests.fifo)
  ultimately show ?thesis by blast
qed

text \<open>Two requests on the memory connection.\<close>

definition example_get :: request where
  "example_get = (Request 0 ''GET'' ''/'' ''HTTP/1.1'')\<lparr>header_fields := [Header ''Host'' ''h'']\<rparr>"

definition example_put :: request where
  "example_put = (Request 0 ''PUT'' ''/x'' ''HTTP/1.0'')
     \<lparr>header_fields := [Header ''Content-Length'' ''3''], body := ''a b''\<rparr>"

lemma example_good: "good_request boost_ref example_get" "good_request boost_ref example_put"
proof -
  have "cast_size_t boost_ref ''3'' = Some 3"
    using decimal_castsD(2) [of boost_ref 3] by (simp add: show_nat.simps)
  then show "good_request boost_ref example_get" "good_request boost_ref example_put"
    by (auto simp: example_get_def example_put_def Request_def good_request_def good_start_line_def supported_methods_def
        good_header_def trimmed_def one_line_def good_body_def clean_start_def isIgnorableWhiteSpace_def isNewLine_def)
qed

theorem pipelined_requests_delivered_witness:
  "\<exists>queue' s'. onDataReady boost_ref (memory_ssl True) memory_connection None []
      (request_wire example_put @ request_wire example_get) = Some (Done, None, queue', s')
    \<and> requests.fetch (length [example_put, example_get]) queue' = [example_put, example_get]"
proof -
  have "length (request_wire example_put @ request_wire example_get) = 68"
    by (simp add: request_wire_def start_line_def example_put_def example_get_def Request_def
        header_block_Cons header_line_def)
  then show ?thesis
    using pipelined_requests_delivered [OF memory_drains, of memory_connection "[example_put, example_get]"
        boost_ref "request_wire example_put @ request_wire example_get" True "[]"] example_good
    by (auto simp: memory_connection_def example_get_def example_put_def Request_def)
qed

section \<open>Requests in pieces\<close>

text \<open>A start line that is cut off: the last token reaches the end of the buffer.\<close>

lemma last_token:
  assumes "b = pre @ [SP] @ tok" "\<forall>c\<in>set tok. \<not> isIgnorableWhiteSpace c"
  shows "advanceThroughIgnorableWhiteSpace b (length pre) (length b) = length (pre @ [SP])"
    and "advanceUntilIgnorableWhiteSpace b (length (pre @ [SP])) (length b) = length b"
proof -
  have b2: "b = (pre @ [SP]) @ tok @ []" by (simp add: assms(1))
  have "advanceThroughIgnorableWhiteSpace b (length pre) (length b) = length pre + length [SP]"
    using assms by (intro advance_through_ws_skip [of _ tok]) (cases tok; auto)+
  then show "advanceThroughIgnorableWhiteSpace b (length pre) (length b) = length (pre @ [SP])" by simp
  have "advanceUntilIgnorableWhiteSpace b (length (pre @ [SP])) (length b) = length (pre @ [SP]) + length tok"
    using assms by (intro advance_until_ws_skip [OF _ _ b2]) auto
  then show "advanceUntilIgnorableWhiteSpace b (length (pre @ [SP])) (length b) = length b"
    by (simp add: assms(1))
qed

lemma extract_partial:
  assumes r: "good_start_line r" and t: "t @ x = start_line r"
  shows "extract_request c t = Inr (None, 0)"
proof -
  let ?v = "verb r" and ?u = "url r" and ?p = "protocol_and_version r" and ?n = "length t"
  have v: "?v \<noteq> []" "\<forall>c \<in> set ?v. \<not> isIgnorableWhiteSpace c" "supported_methods ?v \<noteq> None"
    using r supported_verb [of ?v] by (auto simp: good_start_line_def)
  have p: "\<forall>c \<in> set ?p. \<not> isIgnorableWhiteSpace c"
    using r protocol_text [of ?p] by (auto simp: good_start_line_def)
  have u: "?u \<noteq> []" "\<forall>c \<in> set ?u. \<not> isIgnorableWhiteSpace c" using r by (auto simp: good_start_line_def)
  consider us where "t @ us = ?v" | us ws where "t = ?v @ [SP] @ us" "us @ ws = ?u"
    | us ws where "t = (?v @ [SP] @ ?u) @ [SP] @ us" "us @ ws = ?p"
    using t by (auto simp: start_line_def append_eq_append_conv2 append_eq_Cons_conv Cons_eq_append_conv)
  then show ?thesis
  proof cases
    case 1
    have ws: "\<forall>c \<in> set t. \<not> isIgnorableWhiteSpace c" using v(2) by (simp add: 1 [symmetric])
    have "advanceThroughIgnorableWhiteSpace t 0 ?n = 0"
      using advance_through_ws_skip [of "[]" t t "[]"] ws by (cases t) auto
    moreover have "advanceUntilIgnorableWhiteSpace t 0 ?n = ?n"
      using advance_until_ws_skip [of t "[]" t "[]"] ws by auto
    ultimately show ?thesis by (simp add: extract_request_def extractRequestHeader_def)
  next
    case 2
    have b0: "t = [] @ ?v @ ([SP] @ us)" by (simp add: 2)
    have "advanceThroughIgnorableWhiteSpace t 0 ?n = 0"
      using advance_through_ws_skip [of "[]" t t "[]"] v by (simp add: 2)
    moreover have "advanceUntilIgnorableWhiteSpace t 0 ?n = length ?v"
      using advance_until_ws_skip [OF v(2) _ b0] by simp
    moreover have "seg t 0 (length ?v) = ?v" by (simp add: 2 seg_def)
    moreover note last_token [OF 2(1)]
    moreover have "\<forall>c\<in>set us. \<not> isIgnorableWhiteSpace c" using u(2) by (simp add: 2(2) [symmetric])
    moreover have "length t \<noteq> length ?v" by (simp add: 2)
    ultimately show ?thesis
      using v(3) by (simp add: extract_request_def extractRequestHeader_def Let_def
          del: length_append append.simps append_assoc)
  next
    case 3
    have b0: "t = [] @ ?v @ ([SP] @ ?u @ [SP] @ us)" by (simp add: 3)
    have b1: "t = ?v @ [SP] @ ?u @ ([SP] @ us)" by (simp add: 3)
    have "advanceThroughIgnorableWhiteSpace t 0 ?n = 0"
      using advance_through_ws_skip [of "[]" t t "[]"] v by (simp add: 3)
    moreover have "advanceUntilIgnorableWhiteSpace t 0 ?n = length ?v"
      using advance_until_ws_skip [OF v(2) _ b0] by simp
    moreover have "seg t 0 (length ?v) = ?v" by (simp add: 3 seg_def)
    moreover note next_token [OF b1 u] last_token [OF 3(1)]
    moreover have "\<forall>c\<in>set us. \<not> isIgnorableWhiteSpace c" using p by (simp add: 3(2) [symmetric])
    moreover have "length t \<noteq> length ?v" "length t \<noteq> length (?v @ [SP] @ ?u)" by (simp_all add: 3)
    ultimately show ?thesis
      using v(3) by (simp add: extract_request_def extractRequestHeader_def Let_def
          del: length_append append.simps append_assoc)
  qed
qed

lemma header_loop_blank:
  assumes "b = pre @ sep" "\<forall>c\<in>set sep. isIgnorableWhiteSpace c" "count_list sep CR < 2" "count_list sep LF < 2"
  shows "header_loop add b (length pre) False m = Inr (m, length b, False)"
proof -
  have w: "advanceThroughIgnorableWhiteSpace b (length pre) (length b) = length b"
    using advance_through_ws_skip [of sep "[]" b pre] assms by simp
  have "seg b (length pre) (length b) = sep" by (simp add: assms(1) seg_def)
  then have "moreHeaders b (length pre) (length b)" using assms by (simp add: moreHeaders_eq)
  then show ?thesis
    using w findHeaderEnd_beyond [of b "length b"] by (subst header_loop.simps) (simp add: Let_def)
qed

text \<open>The second piece: the attribute has the request so far and the start of the next field.\<close>

lemma serve_rest_of_head:
  assumes "part @ u = sep @ header_block hs @ body r" "\<forall>h \<in> set hs. good_header h" "good_body L r"
    and "r0\<lparr>header_fields := header_fields r0 @ hs\<rparr> = r\<lparr>body := []\<rparr>"
    and "\<forall>c\<in>set sep. isIgnorableWhiteSpace c" "count_list sep CR < 2" "count_list sep LF < 2" "hs \<noteq> []"
  shows "serve L c (Some (Some r0, part, False)) u = (Done, None, [r])"
proof -
  have "(case header_loop add_request_header (part @ u) (length ([] :: string)) False r0 of
      Inl e \<Rightarrow> Raise e | Inr (r, wh, eoh) \<Rightarrow> find_body L (Some r) (part @ u) wh eoh) = Deliver r []"
    using assms by (intro finish_block [where pre = "[]" and sep = sep and hs = hs and rest = "[]"]) auto
  then have "serve_pass L c (Some (Some r0, part, False)) u = Deliver r []"
    by (simp add: serve_pass_def acquire_def)
  then show ?thesis by (subst serve.simps) simp
qed

text \<open>Where a request can be cut: in the start line, in the line end behind it, or later.\<close>

lemma cut_places:
  assumes "t @ u = start_line r @ CRLF @ rest"
  obtains (start) x where "t @ x = start_line r"
    | (line_end) sep sep' where "t = start_line r @ sep" "sep @ sep' = CRLF" "sep \<noteq> []"
    | (fields) t' where "t = start_line r @ CRLF @ t'" "t' \<noteq> []"
proof -
  consider x where "t @ x = start_line r" | x where "t = start_line r @ x" "x @ u = CRLF @ rest"
    using assms append_eq_append_conv2 [of t u "start_line r" "CRLF @ rest"] by blast
  then show thesis
  proof cases
    case 2
    then obtain y where "x = CRLF @ y \<or> x @ y = CRLF"
      using append_eq_append_conv2 [of x u CRLF rest] by blast
    then show thesis
      using 2(1) start [of "[]"] line_end [of x y] line_end [of CRLF "[]"] fields [of y]
      by (cases "x = []"; cases "y = []"; auto)
  qed (use start in blast)
qed

lemma fields_so_far:
  assumes "connection r = c" "header_fields r = hs @ hs'"
  shows "fold add_request_header hs (Request c (verb r) (url r) (protocol_and_version r))
      \<lparr>header_fields := header_fields (fold add_request_header hs (Request c (verb r) (url r) (protocol_and_version r))) @ hs'\<rparr>
    = r\<lparr>body := []\<rparr>"
  using assms(2) request_eq [OF assms(1)] by (simp add: fold_add_request_header Request_def)

lemma cut_in_start_line:
  assumes "good_request L r" "connection r = c" "t @ u = request_wire r" "t @ x = start_line r"
  shows "\<exists>l. serve L c None t = (Done, Some l, []) \<and> serve L c (Some l) u = (Done, None, [r])"
proof -
  have good: "good_start_line r" using assms(1) by (simp add: good_request_def)
  have "serve L c None t = (Done, Some (None, t, False), [])"
    using extract_partial [OF good assms(4)]
    by (subst serve.simps) (simp add: serve_pass_def acquire_def find_body_def)
  moreover have "serve L c (Some (None, t, False)) u = (Done, None, [r])"
    using serve_start [of t u L c] serve_requests [of "[r]" L c] assms request_start [OF good]
    by (simp add: request_wire_def)
  ultimately show ?thesis by blast
qed

lemma cut_behind_start_line:
  assumes "good_request L r" "connection r = c" "header_fields r \<noteq> []" "t @ u = request_wire r"
    and cut: "t = start_line r @ sep" "sep @ sep' = CRLF" "sep \<noteq> []"
  shows "\<exists>l. serve L c None t = (Done, Some l, []) \<and> serve L c (Some l) u = (Done, None, [r])"
proof -
  let ?hs = "header_fields r" and ?m = "Request c (verb r) (url r) (protocol_and_version r)"
  have good: "good_start_line r" "\<forall>h \<in> set ?hs. good_header h" "good_body L r"
    using assms(1) by (auto simp: good_request_def)
  have wire: "t @ u = start_line r @ CRLF @ header_block ?hs @ body r" using assms(4) by (simp add: request_wire_def)
  have sep: "isIgnorableWhiteSpace (hd sep)" "\<forall>c\<in>set sep. isIgnorableWhiteSpace c"
    "count_list sep CR < 2" "count_list sep LF < 2"
    "\<forall>c\<in>set sep'. isIgnorableWhiteSpace c" "count_list sep' CR < 2" "count_list sep' LF < 2"
    using cut(2,3) by (auto simp: Cons_eq_append_conv append_eq_Cons_conv)
  have "serve_pass L c None t = Keep (Some ?m, [], False)"
    using extract_start_line [OF good(1) cut(1,3) sep(1)] header_loop_blank [OF cut(1) sep(2-4), of add_request_header ?m]
    by (simp add: serve_pass_def acquire_def find_body_def)
  then have "serve L c None t = (Done, Some (Some ?m, [], False), [])"
    by (subst serve.simps) simp
  moreover have "[] @ u = sep' @ header_block ?hs @ body r"
    using wire cut(1,2) by (metis append.assoc append_Nil same_append_eq)
  then have "serve L c (Some (Some ?m, [], False)) u = (Done, None, [r])"
    using good fields_so_far [OF assms(2), of "[]" ?hs] sep assms(3)
    by (intro serve_rest_of_head [where sep = sep' and hs = ?hs]) auto
  ultimately show ?thesis by blast
qed

lemma cut_in_fields:
  assumes "good_request L r" "connection r = c" "t @ u = request_wire r"
    and cut: "t = start_line r @ CRLF @ t'" "t' \<noteq> []" "length t' \<le> length (header_lines (header_fields r))"
  shows "\<exists>l. serve L c None t = (Done, Some l, []) \<and> serve L c (Some l) u = (Done, None, [r])"
proof -
  let ?hs = "header_fields r" and ?m = "Request c (verb r) (url r) (protocol_and_version r)"
  have good: "good_start_line r" "\<forall>h \<in> set ?hs. good_header h" "good_body L r"
    using assms(1) by (auto simp: good_request_def)
  have "t' @ u = header_lines ?hs @ CRLF @ body r"
    using assms(3) cut(1) by (simp add: request_wire_def header_block_lines)
  then obtain missing where missing: "t' @ missing = header_lines ?hs" "u = missing @ CRLF @ body r"
    using cut(3) by (auto simp: append_eq_append_conv2)
  obtain taken left part where p: "?hs = taken @ left" "left \<noteq> []" "t' = header_lines taken @ part"
    "part @ missing = header_lines left"
    "header_loop add_request_header t (length (start_line r)) False ?m
      = Inr (fold add_request_header taken ?m, length t - length part, False)"
    by (rule header_loop_partial [OF cut(1,2) missing(1) good(2)]) auto
  have "drop (length t - length part) t = part" by (simp add: cut(1) p(3))
  moreover have "extract_request c t = Inr (Some ?m, length (start_line r))"
    using good(1) cut(1) by (intro extract_start_line) auto
  ultimately have "serve_pass L c None t = Keep (Some (fold add_request_header taken ?m), part, False)"
    using p(5) by (simp add: serve_pass_def acquire_def find_body_def)
  then have "serve L c None t = (Done, Some (Some (fold add_request_header taken ?m), part, False), [])"
    by (subst serve.simps) simp
  moreover have "part @ u = [] @ header_block left @ body r"
    using p(4) missing(2) by (simp add: header_block_lines)
  then have "serve L c (Some (Some (fold add_request_header taken ?m), part, False)) u = (Done, None, [r])"
    using good fields_so_far [OF assms(2) p(1)] p(1,2) by (intro serve_rest_of_head [where sep = "[]" and hs = left]) auto
  ultimately show ?thesis by blast
qed

text \<open>
  C10: a request of the usual form (\<open>good_request\<close>, as for the requests back to back above) that has header fields may arrive
  in two pieces, cut anywhere in its start line or its header fields (in front of the empty line): the first piece delivers
  nothing and leaves the connection's attribute set, and the second piece delivers the request. The usual form requires
  that the body does not start with white space; \<open>white_space_of_body_is_lost\<close> has what becomes of one that does.
\<close>

theorem fragmented_request_delivered:
  assumes "good_request L r" "connection r = c" "header_fields r \<noteq> []"
    and "t @ u = request_wire r" "length t \<le> length (start_line r @ CRLF @ header_lines (header_fields r))"
  shows "\<exists>l. serve L c None t = (Done, Some l, []) \<and> serve L c (Some l) u = (Done, None, [r])"
proof -
  have "t @ u = start_line r @ CRLF @ header_block (header_fields r) @ body r" using assms(4) by (simp add: request_wire_def)
  then show ?thesis
  proof (rule cut_places)
    fix x assume "t @ x = start_line r"
    then show ?thesis by (rule cut_in_start_line [OF assms(1,2,4)])
  next
    fix sep sep' assume "t = start_line r @ sep" "sep @ sep' = CRLF" "sep \<noteq> []"
    then show ?thesis by (rule cut_behind_start_line [OF assms(1-4)])
  next
    fix t' assume t': "t = start_line r @ CRLF @ t'" "t' \<noteq> []"
    with assms(5) show ?thesis by (intro cut_in_fields [OF assms(1,2,4)]) simp_all
  qed
qed

theorem fragmented_request_delivered_witness:
  "\<exists>l. serve boost_ref 0 None ''PUT /x HTTP/1.0'' = (Done, Some l, [])
     \<and> serve boost_ref 0 (Some l) (CRLF @ ''Content-Length: 3'' @ CRLF @ CRLF @ ''a b'') = (Done, None, [example_put])"
  using fragmented_request_delivered [OF example_good(2), of 0 "''PUT /x HTTP/1.0''"
    "CRLF @ ''Content-Length: 3'' @ CRLF @ CRLF @ ''a b''"]
  by (simp add: example_put_def Request_def request_wire_def start_line_def header_block_Cons header_line_def)

section \<open>Safety\<close>

definition leftover_ok :: "leftover option \<Rightarrow> bool" where
  "leftover_ok attr = (case attr of None \<Rightarrow> True
     | Some (None, t, eoh) \<Rightarrow> \<not> eoh
     | Some (Some r, t, eoh) \<Rightarrow> body r = [])"

text \<open>The body of a delivered request is as long as its first \<open>Content-Length\<close> field says.\<close>

definition body_as_announced :: "boost_lib \<Rightarrow> request \<Rightarrow> bool" where
  "body_as_announced L r = (case find_header ''Content-Length'' (header_fields r) of
      None \<Rightarrow> body r = [] | Some h \<Rightarrow> cast_size_t L (hvalue h) = Some (length (body r)))"

lemma extract_request_body: "extract_request c b = Inr (Some r, wh) \<Longrightarrow> body r = [] \<and> header_fields r = []"
  by (auto simp: extract_request_def extractRequestHeader_def Let_def Request_def split: if_splits)

lemma header_loop_body: "header_loop add_request_header b wh eoh r = Inr (r', wh', eoh') \<Longrightarrow> body r' = body r"
proof (induction add_request_header b wh eoh r rule: header_loop.induct)
  case (1 b wh eoh r)
  define whence where "whence = advanceThroughIgnorableWhiteSpace b wh (length b)"
  define whence' where "whence' = findHeaderEnd b whence (length b)"
  from 1(2) show ?case
    using 1(1) [OF whence_def _ refl whence'_def]
    by (subst (asm) header_loop.simps)
      (fastforce simp: Let_def whence_def [symmetric] whence'_def [symmetric] add_request_header_def
        split: if_splits sum.splits prod.splits)
qed

text \<open>
  The two assertions of \<open>onDataReady\<close> hold: behind a request line that is not complete the iterator is where it was, and a
  request that a body is put into has none (\<open>acquire_ok\<close>).
\<close>

lemma extract_request_incomplete: "extract_request c b = Inr (None, wh) \<Longrightarrow> wh = 0"
  by (auto simp: extract_request_def extractRequestHeader_def Let_def split: if_splits)

lemma acquire_ok:
  assumes "acquire c attr b = Inr (rq, b', wh, eoh)" "leftover_ok attr"
  shows "(rq = None \<longrightarrow> \<not> eoh) \<and> (\<forall>r. rq = Some r \<longrightarrow> body r = [])"
  using assms extract_request_body
  by (auto simp: acquire_def leftover_ok_def Let_def split: option.splits sum.splits if_splits)

lemma find_body_ok:
  assumes "rq = None \<longrightarrow> \<not> eoh" "\<forall>r. rq = Some r \<longrightarrow> body r = []" "wh \<le> length b"
  shows "find_body L rq b wh eoh \<noteq> NullRequest
    \<and> (\<forall>l. find_body L rq b wh eoh = Keep l \<longrightarrow> leftover_ok (Some l))
    \<and> (\<forall>r rest. find_body L rq b wh eoh = Deliver r rest \<longrightarrow> body_as_announced L r)"
  using assms
  by (cases rq) (auto simp: find_body_def leftover_ok_def body_as_announced_def split: option.splits)

lemma serve_pass_ok:
  assumes "leftover_ok attr"
  shows "serve_pass L c attr b \<noteq> NullRequest
    \<and> (\<forall>l. serve_pass L c attr b = Keep l \<longrightarrow> leftover_ok (Some l))
    \<and> (\<forall>r rest. serve_pass L c attr b = Deliver r rest \<longrightarrow> body_as_announced L r)"
proof (cases "acquire c attr b")
  case (Inr x)
  then obtain rq b' wh eoh where a: "acquire c attr b = Inr (rq, b', wh, eoh)" by (cases x) auto
  note ok = acquire_ok [OF a assms]
  show ?thesis
  proof (cases rq)
    case None
    with a ok show ?thesis by (simp add: serve_pass_def find_body_def leftover_ok_def)
  next
    case (Some r)
    have wh: "wh \<le> length b'" using acquire_progress a Some by blast
    show ?thesis
    proof (cases "header_loop add_request_header b' wh eoh r")
      case (Inr y)
      then obtain r' wh' eoh' where h: "header_loop add_request_header b' wh eoh r = Inr (r', wh', eoh')"
        by (cases y) auto
      then have "body r' = []" "wh' \<le> length b'"
        using header_loop_body ok Some header_loop_bounds [OF wh h] by auto
      then show ?thesis using a Some h find_body_ok [of "Some r'" eoh' wh' b' L] by (simp add: serve_pass_def)
    qed (use a Some in \<open>simp add: serve_pass_def\<close>)
  qed
qed (simp add: serve_pass_def)

lemma serve_keeps:
  assumes "leftover_ok attr" "serve L c attr b = (st, attr', rs)"
  shows "st \<noteq> Crashed \<and> leftover_ok attr' \<and> (\<forall>r \<in> set rs. body_as_announced L r)
    \<and> (\<forall>e. st = Threw e \<longrightarrow> attr' = None)"
  using assms
proof (induction L c attr b arbitrary: st attr' rs rule: serve.induct)
  case (1 L c attr b)
  show ?case
  proof (cases "serve_pass L c attr b")
    case (Deliver r rest)
    show ?thesis
    proof (cases "rest = []")
      case True
      with Deliver 1 serve_pass_ok [of attr L c b] serve_cases(4) [of L c attr b r] show ?thesis
        by (auto simp: leftover_ok_def [of None])
    next
      case False
      obtain st2 attr2 rs2 where s: "serve L c (Some (None, rest, False)) [] = (st2, attr2, rs2)"
        using prod_cases3 by blast
      moreover have "serve L c attr b = (st2, attr2, r # rs2)"
        using Deliver False s by (subst serve.simps) simp
      moreover have "leftover_ok (Some (None, rest, False))" by (simp add: leftover_ok_def)
      ultimately show ?thesis
        using 1 Deliver False serve_pass_ok [of attr L c b] by auto
    qed
  qed (use 1 serve_pass_ok [of attr L c b] serve_cases in \<open>auto simp: leftover_ok_def [of None]\<close>)
qed

text \<open>
  C11: whatever bytes arrive, and however they are cut, serving them never uses a request that is
  not there, leaves the attribute in order for the next notification (empty when an
  exception was thrown), and every request handed over has exactly the body its
  \<open>Content-Length\<close> announced, or none.
\<close>

theorem serve_safe:
  assumes "leftover_ok attr" "serve L c attr b = (st, attr', rs)"
  shows "st \<noteq> Crashed \<and> leftover_ok attr' \<and> (\<forall>r \<in> set rs. body_as_announced L r)
    \<and> (\<forall>e. st = Threw e \<longrightarrow> attr' = None)"
  using assms by (rule serve_keeps)

theorem serve_safe_witness:
  "fst (serve boost_ref 0 (Some (None, ''GET '', False)) (''/ HTTP/1.1'' @ CRLF @ ''Host: h'' @ CRLF @ CRLF)) \<noteq> Crashed
   \<and> body_as_announced boost_ref example_get"
proof -
  let ?u = "''/ HTTP/1.1'' @ CRLF @ ''Host: h'' @ CRLF @ CRLF"
  have w: "''GET '' @ ?u = concat (map request_wire [example_get])"
    by (simp add: request_wire_def start_line_def example_get_def Request_def header_block_Cons header_line_def)
  have "connection example_get = 0" by (simp add: example_get_def Request_def)
  then have "serve boost_ref 0 None (''GET '' @ ?u) = (Done, None, [example_get])"
    unfolding w using example_good(1) by (intro serve_requests) simp_all
  then have s: "serve boost_ref 0 (Some (None, ''GET '', False)) ?u = (Done, None, [example_get])"
    by (subst serve_start) simp_all
  from serve_safe [OF _ s] show ?thesis unfolding s by (simp add: leftover_ok_def)
qed

section \<open>Cuts that lose a request\<close>

text \<open>
  A request without header fields that is cut between its line end and the empty line is
  never delivered: the empty line, coming alone, is white space with a single line end, and
  what was read stays in the attribute.
\<close>

theorem cut_before_empty_line_is_lost:
  assumes "good_start_line r" "connection r = c" "header_fields r = []" "body r = []"
  shows "serve L c None (start_line r @ CRLF) = (Done, Some (Some r, [], False), [])
    \<and> serve L c (Some (Some r, [], False)) CRLF = (Done, Some (Some r, [], False), [])"
proof
  have r: "Request c (verb r) (url r) (protocol_and_version r) = r"
    using assms by (simp add: Request_def)
  have "header_loop add_request_header (start_line r @ CRLF) (length (start_line r)) False r
      = Inr (r, length (start_line r @ CRLF), False)"
    by (rule header_loop_blank) auto
  then show "serve L c None (start_line r @ CRLF) = (Done, Some (Some r, [], False), [])"
    using extract_start_line [OF assms(1), of _ CRLF c] r
    by (intro serve_cases) (simp add: serve_pass_def acquire_def find_body_def)
  have "header_loop add_request_header CRLF (length ([] :: string)) False r = Inr (r, length CRLF, False)"
    by (rule header_loop_blank) auto
  then show "serve L c (Some (Some r, [], False)) CRLF = (Done, Some (Some r, [], False), [])"
    by (intro serve_cases) (simp add: serve_pass_def acquire_def find_body_def)
qed

text \<open>
  White space at the start of a body is not kept. New lines are passed over with the empty line, so that as many bytes of
  the body are missing, and the first bytes of the next request will be taken for them; behind a space or tab, the last
  header field is taken for a folded one, which ends at the next new line. In both cases the request is complete and not delivered.
\<close>

theorem white_space_of_body_is_lost:
  assumes "good_start_line r" "connection r = c" "header_fields r = hs @ [h]" "\<forall>g \<in> set (header_fields r). good_header g"
    and "find_header ''Content-Length'' (header_fields r) = Some l" "cast_size_t L (hvalue l) = Some (length (body r))"
  shows "body r = nl @ x \<Longrightarrow> nl \<noteq> [] \<Longrightarrow> \<forall>d \<in> set nl. isNewLine d \<Longrightarrow> clean_start x
      \<Longrightarrow> serve L c None (request_wire r) = (Done, Some (Some (r\<lparr>body := []\<rparr>), x, True), [])"
    and "body r \<noteq> [] \<Longrightarrow> \<forall>d \<in> set (body r). \<not> isNewLine d \<Longrightarrow> isIgnorableWhiteSpace (hd (body r))
      \<Longrightarrow> serve L c None (request_wire r)
        = (Done, Some (Some (r\<lparr>header_fields := hs, body := []\<rparr>), header_line h @ CRLF @ CRLF @ body r, False), [])"
proof -
  let ?m = "Request c (verb r) (url r) (protocol_and_version r)" and ?b = "request_wire r" and ?s = "start_line r"
  have e: "extract_request c ?b = Inr (Some ?m, length ?s)"
    using assms(1) by (intro extract_start_line) (auto simp: request_wire_def)
  have good: "\<forall>g \<in> set (hs @ [h]). good_header g" using assms(3,4) by simp
  have sep: "\<forall>d \<in> set CRLF. isIgnorableWhiteSpace d" "count_list CRLF CR < 2" "count_list CRLF LF < 2"
    by (auto simp: isIgnorableWhiteSpace_def)
  show "serve L c None ?b = (Done, Some (Some (r\<lparr>body := []\<rparr>), x, True), [])"
    if "body r = nl @ x" "nl \<noteq> []" "\<forall>d \<in> set nl. isNewLine d" "clean_start x"
  proof -
    have b: "?b = ?s @ CRLF @ header_block (hs @ [h]) @ nl @ x" using assms(3) that(1) by (simp add: request_wire_def)
    have "header_loop add_request_header ?b (length ?s) False ?m
        = Inr (fold add_request_header (hs @ [h]) ?m, length (?s @ CRLF @ header_block (hs @ [h]) @ nl), True)"
      by (rule header_loop_new_lines [OF b good sep that(3,4)])
    moreover have "fold add_request_header (hs @ [h]) ?m = r\<lparr>body := []\<rparr>"
      using request_eq [OF assms(2)] assms(3) unfolding fold_add_request_header by (simp add: Request_def)
    moreover have "length ?b - length (?s @ CRLF @ header_block (hs @ [h]) @ nl) < length (body r)" using that(1,2) by (simp add: b)
    ultimately show ?thesis
      using e assms(5,6) by (intro serve_cases) (simp add: serve_pass_def acquire_def find_body_def b)
  qed
  show "serve L c None ?b = (Done, Some (Some (r\<lparr>header_fields := hs, body := []\<rparr>), header_line h @ CRLF @ CRLF @ body r, False), [])"
    if x: "body r \<noteq> []" "\<forall>d \<in> set (body r). \<not> isNewLine d" "isIgnorableWhiteSpace (hd (body r))"
  proof -
    have b: "?b = ?s @ CRLF @ header_block (hs @ [h]) @ body r" using assms(3) by (simp add: request_wire_def)
    obtain wh where "header_loop add_request_header ?b (length ?s) False ?m = Inr (fold add_request_header hs ?m, wh, False)"
      "drop wh ?b = header_line h @ CRLF @ CRLF @ body r"
      using header_loop_folded [OF b good sep x, of add_request_header ?m] by blast
    moreover have "fold add_request_header hs ?m = r\<lparr>header_fields := hs, body := []\<rparr>"
      using assms(2) unfolding fold_add_request_header by (simp add: Request_def)
    ultimately show ?thesis using e by (intro serve_cases) (simp add: serve_pass_def acquire_def find_body_def)
  qed
qed

text \<open>A line of the body without a colon, taken for a header field.\<close>

lemma header_loop_body_line:
  assumes "b = x @ LF # y" "x \<noteq> []" "one_line x" "\<not> isIgnorableWhiteSpace (hd x)" "CHR '':'' \<notin> set x"
    and "y \<noteq> []" "\<not> isIgnorableWhiteSpace (hd y)"
  shows "header_loop add b 0 eoh m = Inl (InvalidHeader x)"
proof -
  have b: "b = [] @ x @ [LF] @ y" using assms(1) by simp
  have w: "advanceThroughIgnorableWhiteSpace b 0 (length b) = 0"
    using advance_through_ws_skip [of "[]" b b "[]"] assms by simp
  have "moreHeaders b 0 0" by (simp add: moreHeaders_eq)
  moreover have e: "findHeaderEnd b 0 (length b) = length x"
    using findHeaderEnd_line [OF b assms(2,3), of] assms(6,7) by simp
  moreover have s: "seg b 0 (length x) = x" by (simp add: b seg_def)
  then have "splitHeader b 0 (length x) = Inl (InvalidHeader x)"
    using assms(1,5) by (simp add: splitHeader_def find_char_eq Let_def, subst takeWhile_all, auto)
  ultimately show ?thesis using w assms(2) by (subst header_loop.simps) (simp add: Let_def)
qed

theorem cut_before_empty_line_is_lost_witness:
  "serve boost_ref 0 None (''GET / HTTP/1.1'' @ CRLF) = (Done, Some (Some (Request 0 ''GET'' ''/'' ''HTTP/1.1''), [], False), [])"
  using cut_before_empty_line_is_lost [of "Request 0 ''GET'' ''/'' ''HTTP/1.1''" 0 boost_ref]
  by (simp add: Request_def good_start_line_def supported_methods_def start_line_def isIgnorableWhiteSpace_def)



end
