(* ===== verification/Listener.thy ===== *)
theory Listener
  imports Connection
begin

text \<open>
  \<^verbatim>\<open>lib/Spin/Listener.cpp\<close> and \<^verbatim>\<open>Connector.cpp\<close>: the two ways to come by a connection. A
  listener owns an accept BIO and, like a connection, registers itself with the connection
  handler; a connector is without state. Both say where to listen or connect to as a
  text that is handed to OpenSSL.
\<close>

section \<open>The address texts\<close>

text \<open>\<open>fmt % (unsigned int)x\<close> and \<open>fmt % port\<close>: what \<open>operator<<\<close> writes, in decimal.\<close>

definition dotted :: "boost_lib \<Rightarrow> (nat \<Rightarrow> 8 word) \<Rightarrow> string" where
  "dotted L b = format_str L ''%1%.%2%.%3%.%4%''
     [show_nat (unat (b 0)), show_nat (unat (b 1)), show_nat (unat (b 2)), show_nat (unat (b 3))]"

definition constructLocalAddress :: "boost_lib \<Rightarrow> address \<Rightarrow> 16 word \<Rightarrow> string" where
  "constructLocalAddress L local_address local_port =
     (let local_address_s = (if u32 local_address = 0 then ''*'' else dotted L (u8_of local_address));
          port_s = (if local_port = 0 then ''*'' else show_nat (unat local_port))
      in format_str L ''%1%:%2%'' [local_address_s, port_s])"

definition target_of_address :: "boost_lib \<Rightarrow> address \<Rightarrow> 16 word \<Rightarrow> string" where
  "target_of_address L remote_address port = format_str L ''%1%.%2%.%3%.%4%:%5%''
     (map (\<lambda>i. show_nat (unat (u8_of remote_address i))) [0, 1, 2, 3] @ [show_nat (unat port)])"

definition target_of_name :: "boost_lib \<Rightarrow> string \<Rightarrow> 16 word \<Rightarrow> string" where
  "target_of_name L remote_address port = format_str L ''%1%:%2%'' [remote_address, show_nat (unat port)]"

text \<open>
  The secured \<open>connect\<close> formats the bytes without the conversion to \<open>unsigned int\<close>, and
  \<open>operator<<\<close> writes an \<open>unsigned char\<close> as the character it is.
\<close>

definition ssl_target_of_address :: "boost_lib \<Rightarrow> address \<Rightarrow> 16 word \<Rightarrow> string" where
  "ssl_target_of_address L remote_address port = format_str L ''%1%.%2%.%3%.%4%:%5%''
     (map (\<lambda>i. [char_of (unat (u8_of remote_address i))]) [0, 1, 2, 3] @ [show_nat (unat port)])"

section \<open>Connectors\<close>

text \<open>\<open>i\<close> is the identity of the new connection.\<close>

definition make_connection :: "'s openssl \<Rightarrow> nat \<Rightarrow> bio \<Rightarrow> 's \<Rightarrow> (exn + connection) \<times> 's" where
  "make_connection lib i b s = (Inr (Connection lib i b s), s)"

definition connect_address :: "boost_lib \<Rightarrow> 's openssl \<Rightarrow> nat \<Rightarrow> address \<Rightarrow> 16 word \<Rightarrow> 's \<Rightarrow> (exn + connection) \<times> 's" where
  "connect_address L lib i remote_address port =
     bind_st (connect_plain lib (target_of_address L remote_address port)) (make_connection lib i)"

definition connect_name :: "boost_lib \<Rightarrow> 's openssl \<Rightarrow> nat \<Rightarrow> string \<Rightarrow> 16 word \<Rightarrow> 's \<Rightarrow> (exn + connection) \<times> 's" where
  "connect_name L lib i remote_address port =
     bind_st (connect_plain lib (target_of_name L remote_address port)) (make_connection lib i)"

definition connect_ssl_address ::
  "boost_lib \<Rightarrow> 's openssl \<Rightarrow> nat \<Rightarrow> nat \<Rightarrow> address \<Rightarrow> 16 word \<Rightarrow> 's \<Rightarrow> (exn + connection) \<times> 's" where
  "connect_ssl_address L lib i ctx remote_address port =
     bind_st (connect_ssl lib ctx (ssl_target_of_address L remote_address port)) (make_connection lib i)"

definition connect_ssl_name ::
  "boost_lib \<Rightarrow> 's openssl \<Rightarrow> nat \<Rightarrow> nat \<Rightarrow> string \<Rightarrow> 16 word \<Rightarrow> 's \<Rightarrow> (exn + connection) \<times> 's" where
  "connect_ssl_name L lib i ctx remote_address port =
     bind_st (connect_ssl lib ctx (target_of_name L remote_address port)) (make_connection lib i)"

section \<open>Listeners\<close>

record listener =
  listener_id :: nat
  lbio :: "bio option"
  new_connection_handler :: "nat option"

definition make_listener :: "nat \<Rightarrow> bio \<Rightarrow> 's \<Rightarrow> (exn + listener) \<times> 's" where
  "make_listener i b = return_st \<lparr>listener_id = i, lbio = Some b, new_connection_handler = None\<rparr>"

definition Listener :: "boost_lib \<Rightarrow> 's openssl \<Rightarrow> nat \<Rightarrow> address \<Rightarrow> 16 word \<Rightarrow> 's \<Rightarrow> (exn + listener) \<times> 's" where
  "Listener L lib i local_address local_port =
     bind_st (createAcceptBIO lib (constructLocalAddress L local_address local_port) non_blocking) (make_listener i)"

text \<open>\<open>ctx\<close> is what \<open>getContext\<close> returns for the listener's copy of the security context.\<close>

definition SSLListener ::
  "boost_lib \<Rightarrow> 's openssl \<Rightarrow> nat \<Rightarrow> nat \<Rightarrow> address \<Rightarrow> 16 word \<Rightarrow> 's \<Rightarrow> (exn + listener) \<times> 's" where
  "SSLListener L lib i ctx local_address local_port =
     bind_st (createSSLAcceptBIO lib (constructLocalAddress L local_address local_port) ctx (auto_retry + non_blocking))
       (make_listener i)"

text \<open>
  \<open>accept\<close> passes what \<open>BIO::accept\<close> returns to the constructor of \<open>Connection\<close>, which
  calls its \<open>getFD\<close>; with a null pointer that has no defined result: \<open>Inr None\<close>.
\<close>

definition listener_accept :: "'s openssl \<Rightarrow> nat \<Rightarrow> listener \<Rightarrow> 's \<Rightarrow> (exn + connection option) \<times> 's" where
  "listener_accept lib i l = (case lbio l of
      None \<Rightarrow> throw_st UnusableListener
    | Some b \<Rightarrow> bind_st (bio_accept lib b) (\<lambda>r s. (Inr (map_option (\<lambda>b. Connection lib i b s) r), s)))"

definition abort :: "'s openssl \<Rightarrow> listener \<Rightarrow> 's \<Rightarrow> (exn + unit) \<times> 's" where
  "abort lib l s = (case lbio l of None \<Rightarrow> (Inl UnusableListener, s) | Some b \<Rightarrow> (Inr (), bio_reset lib b s))"

definition setNewConnectionHandler ::
  "'s openssl \<Rightarrow> nat \<Rightarrow> listener \<Rightarrow> notification handler \<Rightarrow> 's \<Rightarrow> (exn + unit) \<times> listener \<times> notification handler" where
  "setNewConnectionHandler lib handler l h s =
     (let l = l\<lparr>new_connection_handler := Some handler\<rparr> in
      case lbio l of None \<Rightarrow> (Inl UnusableListener, l, h)
      | Some b \<Rightarrow> (Inr (), l, attach (bio_get_fd lib b s) (OnNewConnection (listener_id l)) None h))"

definition clearNewConnectionHandler ::
  "'s openssl \<Rightarrow> (int \<Rightarrow> notification handler \<Rightarrow> notification handler) \<Rightarrow> listener \<Rightarrow> notification handler
     \<Rightarrow> 's \<Rightarrow> (exn + unit) \<times> listener \<times> notification handler" where
  "clearNewConnectionHandler lib detach_from l h s =
     (if new_connection_handler l \<noteq> None then
        (case lbio l of None \<Rightarrow> (Inl UnusableListener, l, h)
         | Some b \<Rightarrow> (Inr (), l\<lparr>new_connection_handler := None\<rparr>, detach_from (bio_get_fd lib b s) h))
      else (Inr (), l, h))"

definition listener_destroy ::
  "'s openssl \<Rightarrow> (int \<Rightarrow> notification handler \<Rightarrow> notification handler) \<Rightarrow> listener \<Rightarrow> notification handler
     \<Rightarrow> 's \<Rightarrow> (exn + unit) \<times> notification handler \<times> 's" where
  "listener_destroy lib detach_from l h s = (case clearNewConnectionHandler lib detach_from l h s of
      (r, l', h') \<Rightarrow> (r, h', case lbio l' of None \<Rightarrow> s | Some b \<Rightarrow> bio_destroy lib b s))"

section \<open>Where OpenSSL is sent\<close>

text \<open>The reading of such a text: the four numbers and the port.\<close>

fun split_at :: "char \<Rightarrow> string \<Rightarrow> string list" where
  "split_at c [] = [[]]"
| "split_at c (d # s) = (if d = c then [] # split_at c s else case split_at c s of w # ws \<Rightarrow> (d # w) # ws | [] \<Rightarrow> [[d]])"

definition read_target :: "string \<Rightarrow> (nat option list \<times> nat option) option" where
  "read_target t = (case split_at CHR '':'' t of
      [a, p] \<Rightarrow> Some (map read_nat (split_at CHR ''.'' a), read_nat p) | _ \<Rightarrow> None)"

lemma split_at_skip: "c \<notin> set w \<Longrightarrow> split_at c (w @ c # s) = w # split_at c s"
  by (induction w) auto

lemma split_at_end: "c \<notin> set w \<Longrightarrow> split_at c w = [w]"
  by (induction w) auto

lemma show_nat_no_sep [simp]: "CHR ''.'' \<notin> set (show_nat n)" "CHR '':'' \<notin> set (show_nat n)"
  using show_nat_digits [of n] digit_not_special by (auto simp: list_all_iff)

lemma target_wire:
  assumes "positional_format L"
  shows "target_of_address L a p = show_nat (unat (u8_of a 0)) @ ''.'' @ show_nat (unat (u8_of a 1)) @ ''.''
      @ show_nat (unat (u8_of a 2)) @ ''.'' @ show_nat (unat (u8_of a 3)) @ '':'' @ show_nat (unat p)"
  using assms by (simp add: target_of_address_def positional_formatD is_digit_def digit_value_def)

text \<open>
  The text that an unsecured connector passes on for an IPv4 address is its dotted notation
  and the port: reading it gives the four bytes of the address and the port.
\<close>

theorem target_denotes_address:
  assumes "positional_format L"
  shows "read_target (target_of_address L a p)
    = Some (map (\<lambda>i. Some (unat (u8_of a i))) [0, 1, 2, 3], Some (unat p))"
proof -
  let ?n = "\<lambda>i. show_nat (unat (u8_of a i))"
  have t: "target_of_address L a p
      = (?n 0 @ ''.'' @ ?n 1 @ ''.'' @ ?n 2 @ ''.'' @ ?n 3) @ CHR '':'' # show_nat (unat p)"
    using target_wire [OF assms] by simp
  have "split_at CHR '':'' (target_of_address L a p)
      = [?n 0 @ ''.'' @ ?n 1 @ ''.'' @ ?n 2 @ ''.'' @ ?n 3, show_nat (unat p)]"
    unfolding t by (subst split_at_skip) (auto simp: split_at_end)
  moreover have "split_at CHR ''.'' (?n 0 @ ''.'' @ ?n 1 @ ''.'' @ ?n 2 @ ''.'' @ ?n 3) = map ?n [0, 1, 2, 3]"
    by (simp add: split_at_skip split_at_end)
  ultimately show ?thesis by (simp add: read_target_def)
qed

theorem target_denotes_address_witness:
  "read_target (target_of_address boost_ref (Address_u8 127 0 0 1) 80) = Some ([Some 127, Some 0, Some 0, Some 1], Some 80)"
  using target_denotes_address [of boost_ref "Address_u8 127 0 0 1" 80] by (simp add: Address_u8_def u8_of_def)

lemma byte_not_decimal: "n < 256 \<Longrightarrow> [char_of n] \<noteq> show_nat n"
proof
  assume n: "n < 256" "[char_of n] = show_nat n"
  show False
  proof (cases "n < 10")
    case True
    then have "(char_of n :: char) = char_of (48 + n)" using n(2) by (simp add: show_nat.simps digit_char_def)
    then have "of_char (char_of n :: char) = (of_char (char_of (48 + n) :: char) :: nat)" by simp
    then show False using True by (simp add: of_char_of)
  next
    case False
    then have "show_nat n = show_nat (n div 10) @ [digit_char (n mod 10)]" by (subst show_nat.simps) simp
    then show False using n(2) by (cases "show_nat (n div 10)") auto
  qed
qed

text \<open>
  The text that the secured connector passes on for an address is never the one of the unsecured connector:
  it consists of the raw bytes.
\<close>

theorem ssl_target_is_not_the_address:
  assumes "positional_format L"
  shows "ssl_target_of_address L a p \<noteq> target_of_address L a p"
proof
  let ?n = "\<lambda>i. unat (u8_of a i)"
  assume eq: "ssl_target_of_address L a p = target_of_address L a p"
  have s: "ssl_target_of_address L a p = char_of (?n 0) # CHR ''.'' # char_of (?n 1) # ''.'' @ [char_of (?n 2)] @ ''.''
      @ [char_of (?n 3)] @ '':'' @ show_nat (unat p)"
    using assms by (simp add: ssl_target_of_address_def positional_formatD is_digit_def digit_value_def)
  obtain d ds where d: "show_nat (?n 0) = d # ds" by (cases "show_nat (?n 0)") auto
  have "?n 0 < 256" using unsigned_less [of "u8_of a 0"] by simp
  then have "[char_of (?n 0)] \<noteq> show_nat (?n 0)" by (rule byte_not_decimal)
  moreover have "CHR ''.'' \<notin> set ds" using show_nat_no_sep(1) [of "?n 0"] d by simp
  ultimately show False using eq d by (cases ds) (auto simp: s target_wire [OF assms])
qed

theorem ssl_target_is_not_the_address_witness:
  "ssl_target_of_address boost_ref (Address_u8 127 0 0 1) 443 \<noteq> target_of_address boost_ref (Address_u8 127 0 0 1) 443"
  by (rule ssl_target_is_not_the_address) simp

section \<open>Listening\<close>

text \<open>
  Setting a handler on a listener makes the connection handler watch its descriptor, clearing
  it in any thread leaves the watched descriptors as they were, and what a watched listener
  accepts is never the null connection.
\<close>

theorem listener_registration:
  assumes "lbio l = Some (AcceptBio b)" "idents_ok h" "bio_get_fd lib (AcceptBio b) s \<notin> fst ` set (watched_list h)"
  shows "(case setNewConnectionHandler lib k l h s of (r, l1, h1) \<Rightarrow> r = Inr ()
      \<and> watched_list h1 = watched_list h @ [(bio_get_fd lib (AcceptBio b) s, OnNewConnection (listener_id l))]
      \<and> (\<forall>detach_from \<in> {detach_worker, detach_wait}. case clearNewConnectionHandler lib detach_from l1 h1 s of
          (r', l2, h2) \<Rightarrow> r' = Inr () \<and> new_connection_handler l2 = None \<and> watched_list h2 = watched_list h)
      \<and> (\<forall>i s. fst (listener_accept lib i l1 s) \<noteq> Inr None))"
  using assms worker_notifier.attach_detach wait_notifier.attach_detach worker_notifier.watched_attach
  by (auto simp: setNewConnectionHandler_def clearNewConnectionHandler_def listener_accept_def bio_accept_def
      st_defs split: prod.splits sum.splits option.splits if_splits)

theorem listener_registration_witness:
  "watched_list (snd (snd (setNewConnectionHandler example_ssl 1
       \<lparr>listener_id = 0, lbio = Some (AcceptBio 5), new_connection_handler = None\<rparr> ConnectionHandler [])))
     = [(bio_get_fd example_ssl (AcceptBio 5) [], OnNewConnection 0)]"
proof -
  have "idents_ok (ConnectionHandler :: notification handler)"
    "watched_list (ConnectionHandler :: notification handler) = []"
    by (simp_all add: idents_ok_def ConnectionHandler_def watched_list_def)
  then show ?thesis
    using listener_registration [of "\<lparr>listener_id = 0, lbio = Some (AcceptBio 5), new_connection_handler = None\<rparr>" 5
        ConnectionHandler example_ssl "[]" 1]
    by (simp add: case_prod_beta)
qed

end
