(* ===== verification/Server.thy ===== *)
theory Server
  imports HTTPDataHandler Listener
begin

text \<open>
  The server as a whole: \<^verbatim>\<open>lib/Spin/Handlers/HTTPConnectionHandler.cpp\<close>, which takes the
  connections that a listener accepts into service, the notifications that the worker thread
  of the connection handler delivers (\<^verbatim>\<open>Listener::onNewConnection_\<close>,
  \<^verbatim>\<open>Connection::onDataReady_\<close>, the error handler of a served connection), and the loop of
  \<^verbatim>\<open>bin/Mesothelae/main.cpp\<close>, which answers requests in the main thread.
\<close>

section \<open>State\<close>

text \<open>
  What the server runs on, \<open>validate\<close> being the overridable filter of the connection
  handler, \<open>peer\<close> the answers of \<open>getpeername\<close>.
\<close>

record 's environment =
  boost :: boost_lib
  ssl :: "'s openssl"
  validate :: "address \<Rightarrow> bool"
  peer :: "int \<Rightarrow> 32 word"

definition validate_default :: "address \<Rightarrow> bool" where
  "validate_default peer_address = True"

text \<open>
  The main thread: before \<open>getNextRequest\<close>; with a request whose connection it has not locked yet; with a reference to
  the connection \<open>i\<close> and what it still has to do there; in the destructor of \<open>i\<close>, whose \<open>detach\<close> waits for the entry \<open>k\<close>.
\<close>

datatype reply = Write string | Close

datatype main_thread = Fetching | Taken request | Serving nat "reply option list" | Dropping nat nat

text \<open>
  The worker in \<open>Connection::onDataReady_\<close>, with a reference to the connection \<open>i\<close>: before it reads; behind that, with the
  status the call will end with and the requests it still has to hand over.
\<close>

datatype worker_call = No_call | Entered nat | Handing nat status "request list"

text \<open>
  \<open>objects\<close> are the \<open>Connection\<close> objects in memory, \<open>leftovers\<close> their attribute, \<open>connections\<close> the list of the
  connection handler, and \<open>request_list\<close> the queue of the request handler. An object's identity is never used again.
\<close>

record 's server =
  objects :: "nat \<rightharpoonup> connection"
  leftovers :: "nat \<Rightarrow> leftover option"
  connections :: "nat list"
  request_list :: "request list"
  listening :: listener
  hnd :: "notification handler"
  os :: 's
  next_object :: nat
  main_at :: main_thread
  worker_at :: worker_call

text \<open>
  References to a connection are held by the list, the main thread and the worker in a call-back. An object without one
  is being destroyed: weak pointers to it have expired.
\<close>

fun served :: "main_thread \<Rightarrow> nat option" where
  "served (Serving i rs) = Some i"
| "served m = None"

fun entered :: "worker_call \<Rightarrow> nat option" where
  "entered No_call = None"
| "entered (Entered i) = Some i"
| "entered (Handing i st rs) = Some i"

definition held :: "'s server \<Rightarrow> nat \<Rightarrow> bool" where
  "held srv i \<longleftrightarrow> i \<in> set (connections srv) \<or> served (main_at srv) = Some i \<or> entered (worker_at srv) = Some i"

section \<open>The HTTP connection handler\<close>

text \<open>
  The destructor of a connection in the worker thread. An exception that leaves
  the destructor leaves the worker thread, which ends the program.
\<close>

definition release :: "'s environment \<Rightarrow> connection \<Rightarrow> 's server \<Rightarrow> status \<times> 's server" where
  "release E c srv = (case connection_destroy (ssl E) detach_worker c (hnd srv) (os srv) of (r, h', s') \<Rightarrow>
     (case r of Inl _ \<Rightarrow> Crashed | Inr _ \<Rightarrow> Done,
      srv\<lparr>objects := (objects srv)(conn_id c := None), hnd := h', os := s'\<rparr>))"

text \<open>The worker thread has given up a reference to \<open>i\<close>: if it was the last one, the object is destroyed.\<close>

definition unreference :: "'s environment \<Rightarrow> nat \<Rightarrow> 's server \<Rightarrow> status \<times> 's server" where
  "unreference E i srv = (if held srv i then (Done, srv)
     else case objects srv i of None \<Rightarrow> (Crashed, srv) | Some c \<Rightarrow> release E c srv)"

text \<open>The call operator of \<open>ErrorHandler\<close>, bound to the connection \<open>i\<close>.\<close>

definition ErrorHandler :: "'s environment \<Rightarrow> nat \<Rightarrow> 's server \<Rightarrow> status \<times> 's server" where
  "ErrorHandler E i srv =
     (if i \<in> set (connections srv) then unreference E i (srv\<lparr>connections := remove1 i (connections srv)\<rparr>)
      else (Done, srv))"

text \<open>The exception \<open>e\<close> leaves the function that holds the only reference to \<open>c\<close>.\<close>

definition unwind :: "'s environment \<Rightarrow> exn \<Rightarrow> connection \<Rightarrow> 's server \<Rightarrow> status \<times> 's server" where
  "unwind E e c srv = (case release E c srv of (st, srv') \<Rightarrow> (if st = Crashed then Crashed else Threw e, srv'))"

definition handleNewConnection :: "'s environment \<Rightarrow> connection \<Rightarrow> 's server \<Rightarrow> status \<times> 's server" where
  "handleNewConnection E c srv = (case getPeerAddress (peer E) c of
      Inl e \<Rightarrow> unwind E e c srv
    | Inr peer_address \<Rightarrow>
        if \<not> validate E peer_address then release E c srv
        else (case setNewDataHandler 0 (Some (ClientCallback (conn_id c))) c (hnd srv) of
            (Inl e, c', h') \<Rightarrow> unwind E e c' (srv\<lparr>hnd := h'\<rparr>)
          | (Inr _, c', h') \<Rightarrow>
              (Done, srv\<lparr>objects := (objects srv)(conn_id c \<mapsto> c'), hnd := h',
                 connections := connections srv @ [conn_id c]\<rparr>)))"

text \<open>
  The destructor deletes the list, front to back, and with each entry a reference to a connection; \<open>detach_from\<close> is
  \<open>detach\<close> in the thread that deletes.
\<close>

fun destroy_connections ::
  "'s environment \<Rightarrow> (int \<Rightarrow> notification handler \<Rightarrow> notification handler) \<Rightarrow> nat list \<Rightarrow> 's server \<Rightarrow> status \<times> 's server" where
  "destroy_connections E detach_from [] srv = (Done, srv)"
| "destroy_connections E detach_from (i # is) srv =
     (if held (srv\<lparr>connections := is\<rparr>) i then destroy_connections E detach_from is (srv\<lparr>connections := is\<rparr>)
      else case objects srv i of
        None \<Rightarrow> (Crashed, srv)
      | Some c \<Rightarrow> (case connection_destroy (ssl E) detach_from c (hnd srv) (os srv) of
          (Inl e, h', s') \<Rightarrow> (Crashed, srv\<lparr>hnd := h', os := s'\<rparr>)
        | (Inr _, h', s') \<Rightarrow> destroy_connections E detach_from is
            (srv\<lparr>objects := (objects srv)(i := None), connections := is, hnd := h', os := s'\<rparr>)))"

definition HTTPConnectionHandler_destroy ::
  "'s environment \<Rightarrow> (int \<Rightarrow> notification handler \<Rightarrow> notification handler) \<Rightarrow> 's server \<Rightarrow> status \<times> 's server" where
  "HTTPConnectionHandler_destroy E detach_from srv = destroy_connections E detach_from (connections srv) srv"

section \<open>Notifications\<close>

definition onNewConnection :: "'s environment \<Rightarrow> 's server \<Rightarrow> status \<times> 's server" where
  "onNewConnection E srv =
     (if new_connection_handler (listening srv) = None then (Done, srv)
      else (case listener_accept (ssl E) (next_object srv) (listening srv) (os srv) of
          (Inl e, s') \<Rightarrow> (Threw e, srv\<lparr>os := s'\<rparr>)
        | (Inr None, s') \<Rightarrow> (Crashed, srv\<lparr>os := s'\<rparr>)
        | (Inr (Some c), s') \<Rightarrow>
            handleNewConnection E c (srv\<lparr>os := s', next_object := Suc (next_object srv),
              leftovers := (leftovers srv)(next_object srv := None)\<rparr>)))"

text \<open>
  \<open>Connection::onDataReady_\<close> up to the call of the data handler: \<open>shared_from_this\<close> throws when no reference is left. A call
  for an object that does not exist any more is a use of a dangling pointer.
\<close>

definition onDataReady_enter :: "nat \<Rightarrow> 's server \<Rightarrow> status \<times> 's server" where
  "onDataReady_enter i srv = (case objects srv i of
      None \<Rightarrow> (Crashed, srv)
    | Some c \<Rightarrow> if onDataReady_ref c = None then (Done, srv)
        else if held srv i then (Done, srv\<lparr>worker_at := Entered i\<rparr>)
        else (Threw bad_weak_ptr, srv))"

text \<open>
  The rest of the call, step by step: reading and parsing, then \<open>handle\<close> for each request, then the return, where the
  reference is given up. The first \<open>None\<close>: the worker is in no such call; the second: the call does not return.
\<close>

definition call_step :: "'s environment \<Rightarrow> 's server \<Rightarrow> (status \<times> 's server) option" where
  "call_step E srv = (case worker_at srv of
      No_call \<Rightarrow> None
    | Entered i \<Rightarrow> (case objects srv i of
          None \<Rightarrow> Some (Crashed, srv)
        | Some c \<Rightarrow> (case onDataReady (boost E) (ssl E) c (leftovers srv i) [] (os srv) of
              None \<Rightarrow> None
            | Some (st, attr', rs, s') \<Rightarrow> Some (if st = Crashed then Crashed else Done,
                srv\<lparr>leftovers := (leftovers srv)(i := attr'), os := s', worker_at := Handing i st rs\<rparr>)))
    | Handing i st (r # rs) \<Rightarrow> Some (Done, srv\<lparr>request_list := handle r (request_list srv), worker_at := Handing i st rs\<rparr>)
    | Handing i st [] \<Rightarrow> (case unreference E i (srv\<lparr>worker_at := No_call\<rparr>) of
          (st', srv') \<Rightarrow> Some (if st' = Crashed then Crashed else st, srv')))"

text \<open>A notification that the worker delivers. For \<open>OnDataReady\<close>, the call goes on with \<open>call_step\<close>.\<close>

definition notify :: "'s environment \<Rightarrow> notification \<Rightarrow> 's server \<Rightarrow> status \<times> 's server" where
  "notify E n srv = (case n of
      OnNewConnection k \<Rightarrow> if k = listener_id (listening srv) then onNewConnection E srv else (Crashed, srv)
    | OnDataReady i \<Rightarrow> onDataReady_enter i srv
    | OnError i \<Rightarrow> (if objects srv i = None then Crashed else Done, srv)
    | ClientCallback i \<Rightarrow> ErrorHandler E i srv)"

text \<open>What is called for the descriptor \<open>f\<close> when the worker removes it.\<close>

definition error_call :: "int \<Rightarrow> notification handler \<Rightarrow> notification option" where
  "error_call f h = Option.bind (find_fd f (callbacks h)) on_error_callback"

section \<open>The main thread\<close>

text \<open>\<open>None\<close> is a response from a status code without reason string.\<close>

definition write_response :: "boost_lib \<Rightarrow> request \<Rightarrow> status_code \<Rightarrow> (response \<Rightarrow> response) \<Rightarrow> reply option" where
  "write_response L r code f = map_option (\<lambda>resp. Write (serialize L (f resp)))
     (Response_of_code (protocol_and_version r) code)"

definition html :: "string \<Rightarrow> response \<Rightarrow> response" where
  "html b = setBody b \<circ> addHeader ''Content-Type'' ''text/html''"

text \<open>The chain of tests on the method and the URL: what is done on the connection, in order.\<close>

definition leading_white_space :: string where
  "leading_white_space = replicate 4 SP @ [CR, LF, LF, LF, LF, LF, CR] @ replicate 10 SP @ [HT, HT, HT] @ replicate 4 SP"

definition answer :: "boost_lib \<Rightarrow> request \<Rightarrow> reply option list" where
  "answer L r =
     (if verb r = ''GET'' then
        if url r = ''/'' then [write_response L r Found (addHeader ''Location'' ''/index.html'')]
        else if url r = ''/index.html'' then
          [write_response L r OK (html ''<html><body><p>Hello, world!</p></body></html>'')]
        else if url r = ''/with%20space'' then
          [write_response L r OK (html ''<html><body><p>Hello, space!</p></body></html>'')]
        else if url r = ''/send_leading_whitespace'' then
          [Some (Write leading_white_space), write_response L r Found (addHeader ''Location'' ''/index.html'')]
        else if url r = ''/close_connection'' then [Some Close]
        else [write_response L r Not_found (\<lambda>resp. resp)]
      else [write_response L r Not_implemented (\<lambda>resp. resp)])"

text \<open>One of these actions. The result \<open>None\<close> is not defined by the program.\<close>

definition perform_reply :: "'s openssl \<Rightarrow> connection \<Rightarrow> reply option \<Rightarrow> 's \<Rightarrow> (exn + unit) option \<times> connection \<times> 's" where
  "perform_reply lib c r s = (case r of
      None \<Rightarrow> (None, c, s)
    | Some (Write w) \<Rightarrow> (case connection_write lib c w s of
          (Inl e, s') \<Rightarrow> (Some (Inl e), c, s')
        | (Inr _, s') \<Rightarrow> (Some (Inr ()), c, s'))
    | Some Close \<Rightarrow> (case connection_close lib c s of (c', s') \<Rightarrow> (Some (Inr ()), c', s')))"

text \<open>
  The main thread gives up its reference to \<open>i\<close> at the end of a round. If it was the last one, the destructor runs here: it
  detaches the connection and waits until the worker has seen that, and then frees the BIO. While the worker
  removes entries it holds the lock, and \<open>detach\<close> waits for that (\<open>None\<close>).
\<close>

definition free_connection :: "'s environment \<Rightarrow> nat \<Rightarrow> connection \<Rightarrow> 's server \<Rightarrow> 's server" where
  "free_connection E i c srv =
     srv\<lparr>objects := (objects srv)(i := None), os := snd (connection_close (ssl E) c (os srv)), main_at := Fetching\<rparr>"

definition lock_held :: "'c handler \<Rightarrow> bool" where
  "lock_held h = (case phase h of Removing _ \<Rightarrow> True | _ \<Rightarrow> False)"

definition drop_connection :: "'s environment \<Rightarrow> nat \<Rightarrow> 's server \<Rightarrow> (status \<times> 's server) option" where
  "drop_connection E i srv =
     (if held (srv\<lparr>main_at := Fetching\<rparr>) i then Some (Done, srv\<lparr>main_at := Fetching\<rparr>)
      else case objects srv i of
        None \<Rightarrow> Some (Crashed, srv)
      | Some c \<Rightarrow>
          if data_handler c = None then Some (Done, free_connection E i c srv)
          else if cfd c = -1 then Some (Crashed, srv)
          else if lock_held (hnd srv) then None
          else (case find_fd (cfd c) (callbacks (hnd srv)) of
              None \<Rightarrow> Some (Done, free_connection E i c srv)
            | Some e \<Rightarrow> Some (Done, srv\<lparr>hnd := detach_begin (cfd c) (hnd srv), main_at := Dropping i (ident e)\<rparr>)))"

text \<open>The end of that \<open>detach\<close>, whose iterator must not have been invalidated.\<close>

definition drop_detached :: "'s environment \<Rightarrow> nat \<Rightarrow> nat \<Rightarrow> 's server \<Rightarrow> (status \<times> 's server) option" where
  "drop_detached E i k srv = (case (objects srv i, find (\<lambda>e. ident e = k) (callbacks (hnd srv))) of
      (Some c, Some e) \<Rightarrow>
        if lock_held (hnd srv) \<or> attachment e \<noteq> detached then None
        else Some (Done, free_connection E i c (srv\<lparr>hnd := detach_end k (hnd srv)\<rparr>))
    | _ \<Rightarrow> Some (Crashed, srv))"

text \<open>
  One step of the loop; \<open>None\<close>: it waits. An exception on the connection is caught, and printed.
\<close>

definition main_step :: "'s environment \<Rightarrow> 's server \<Rightarrow> (status \<times> 's server) option" where
  "main_step E srv = (case main_at srv of
      Fetching \<Rightarrow> map_option (\<lambda>(r, q'). (Done, srv\<lparr>request_list := q', main_at := Taken r\<rparr>)) (getNextRequest (request_list srv))
    | Taken r \<Rightarrow> Some (Done, srv\<lparr>main_at :=
        if held srv (connection r) then Serving (connection r) (answer (boost E) r) else Fetching\<rparr>)
    | Serving i [] \<Rightarrow> drop_connection E i srv
    | Serving i (a # as) \<Rightarrow> (case objects srv i of
          None \<Rightarrow> Some (Crashed, srv)
        | Some c \<Rightarrow> (case perform_reply (ssl E) c a (os srv) of (r, c', s') \<Rightarrow>
            (let srv' = srv\<lparr>objects := (objects srv)(i \<mapsto> c'), os := s'\<rparr> in
             case r of
               None \<Rightarrow> Some (Crashed, srv')
             | Some (Inl e) \<Rightarrow> Some (Done, srv'\<lparr>main_at := Serving i []\<rparr>)
             | Some (Inr _) \<Rightarrow> Some (Done, srv'\<lparr>main_at := Serving i as\<rparr>))))
    | Dropping i k \<Rightarrow> drop_detached E i k srv)"

section \<open>Runs\<close>

text \<open>The steps of the worker in which it calls nobody.\<close>

definition silent :: "'c label \<Rightarrow> bool" where
  "silent l = (case l of Collect \<Rightarrow> True | Select _ _ \<Rightarrow> True | Fail \<Rightarrow> True | Test _ \<Rightarrow> True | Gather \<Rightarrow> True
     | Called \<Rightarrow> True | Removed \<Rightarrow> True | Drain \<Rightarrow> True | _ \<Rightarrow> False)"

text \<open>
  A step of the server, with its outcome: the worker alone; the worker delivering a notification; the steps of a call for
  a connection with data, up to its return; the worker reporting an error; a step of the main thread.
\<close>

inductive server_step :: "'s environment \<Rightarrow> 's server \<Rightarrow> status \<Rightarrow> 's server \<Rightarrow> bool" for E where
  Worker: "silent l \<Longrightarrow> step (hnd srv) l h' \<Longrightarrow> server_step E srv Done (srv\<lparr>hnd := h'\<rparr>)"
| Notify: "\<lbrakk>phase (hnd srv) = Calling ((k, f, cb) # cs) fs p; \<forall>j. cb \<noteq> OnDataReady j; notify E cb srv = (st, srv');
    step (hnd srv') (Call k cb (st \<noteq> Done)) h'\<rbrakk> \<Longrightarrow> server_step E srv st (srv'\<lparr>hnd := h'\<rparr>)"
| Enter: "\<lbrakk>phase (hnd srv) = Calling ((k, f, OnDataReady j) # cs) fs p; worker_at srv = No_call;
    notify E (OnDataReady j) srv = (Done, srv'); worker_at srv' = Entered j\<rbrakk> \<Longrightarrow> server_step E srv Done srv'"
| Enter_not: "\<lbrakk>phase (hnd srv) = Calling ((k, f, OnDataReady j) # cs) fs p; worker_at srv = No_call;
    notify E (OnDataReady j) srv = (st, srv'); worker_at srv' = No_call;
    step (hnd srv') (Call k (OnDataReady j) (st \<noteq> Done)) h'\<rbrakk> \<Longrightarrow> server_step E srv st (srv'\<lparr>hnd := h'\<rparr>)"
| Within: "\<lbrakk>\<forall>j st. worker_at srv \<noteq> Handing j st []; call_step E srv = Some (st, srv')\<rbrakk> \<Longrightarrow> server_step E srv st srv'"
| Leave: "\<lbrakk>phase (hnd srv) = Calling ((k, f, OnDataReady j) # cs) fs p; worker_at srv = Handing j st [];
    step (hnd srv) (Call k (OnDataReady j) (st \<noteq> Done)) h'; call_step E (srv\<lparr>hnd := h'\<rparr>) = Some (st', srv')\<rbrakk>
    \<Longrightarrow> server_step E srv st' srv'"
| Report: "\<lbrakk>step (hnd srv) (label.Report f) h'; error_call f (hnd srv) = None\<rbrakk>
    \<Longrightarrow> server_step E srv Done (srv\<lparr>hnd := h'\<rparr>)"
| ReportTo: "\<lbrakk>step (hnd srv) (label.Report f) h'; error_call f (hnd srv) = Some cb;
    notify E cb (srv\<lparr>hnd := h'\<rparr>) = (st, srv')\<rbrakk> \<Longrightarrow> server_step E srv st srv'"
| Main: "main_step E srv = Some (st, srv') \<Longrightarrow> server_step E srv st srv'"

text \<open>The program: the listener's handler is set, then the threads run, through states in which \<open>P\<close> holds.\<close>

definition initial_server :: "listener \<Rightarrow> notification handler \<Rightarrow> 's \<Rightarrow> 's server" where
  "initial_server l h s = \<lparr>objects = Map.empty, leftovers = (\<lambda>_. None), connections = [], request_list = [],
     listening = l, hnd = h, os = s, next_object = 0, main_at = Fetching, worker_at = No_call\<rparr>"

inductive server_run :: "('s server \<Rightarrow> bool) \<Rightarrow> 's environment \<Rightarrow> 's server \<Rightarrow> bool" for P E where
  start: "\<lbrakk>lbio l = Some (AcceptBio b); setNewConnectionHandler (ssl E) k l ConnectionHandler s = (Inr (), l', h)\<rbrakk>
    \<Longrightarrow> server_run P E (initial_server l' h s)"
| step: "\<lbrakk>server_run P E srv; server_step E srv st srv'; st \<noteq> Crashed; P srv'\<rbrakk> \<Longrightarrow> server_run P E srv'"

section \<open>What holds in every run\<close>

text \<open>What the connection handler keeps of an entry, without the state of its attachment.\<close>

definition entry_of :: "'c callback \<Rightarrow> 'c callback" where
  "entry_of c = c\<lparr>attachment := detached\<rparr>"

lemma entry_of_simps [simp]:
  "ident (entry_of c) = ident c" "fd (entry_of c) = fd c" "on_select (entry_of c) = on_select c"
  "on_error_callback (entry_of c) = on_error_callback c" "entry_of (c\<lparr>attachment := a\<rparr>) = entry_of c"
  "entry_of (collect_state c) = entry_of c"
  by (simp_all add: entry_of_def collect_state_def split: attachment.splits)

lemma entries_set_attachment [simp]: "map entry_of (set_attachment i a cs) = map entry_of cs"
  by (simp add: set_attachment_def)

lemma entries_remove_first [simp]: "map entry_of (remove_first f cs) = map entry_of cs"
  by (simp add: remove_first_def split: option.splits)

text \<open>
  \<open>fds\<close> gives the descriptors of the objects, \<open>k\<close> is the listener. An entry belongs to the
  listener or to an object, whose error handler it has; every object has an entry.
\<close>

definition entry_ok :: "(nat \<rightharpoonup> int) \<Rightarrow> nat \<Rightarrow> notification callback \<Rightarrow> bool" where
  "entry_ok fds k e = (case on_select e of
      OnDataReady j \<Rightarrow> fds j = Some (fd e) \<and> on_error_callback e = Some (ClientCallback j)
    | OnNewConnection k' \<Rightarrow> k' = k \<and> on_error_callback e = None
    | _ \<Rightarrow> False)"

definition entries_for :: "(nat \<rightharpoonup> int) \<Rightarrow> nat \<Rightarrow> notification callback list \<Rightarrow> bool" where
  "entries_for fds k cs \<longleftrightarrow> (\<forall>e \<in> set cs. entry_ok fds k e) \<and> (\<forall>j f. fds j = Some f \<longrightarrow> (\<exists>e \<in> set cs. on_select e = OnDataReady j))"

definition descriptors :: "(nat \<rightharpoonup> connection) \<Rightarrow> nat \<rightharpoonup> int" where
  "descriptors objs = (\<lambda>j. map_option cfd (objs j))"

lemma descriptors_simps [simp]:
  "dom (descriptors objs) = dom objs" "descriptors (objs(j \<mapsto> c)) = (descriptors objs)(j \<mapsto> cfd c)"
  "descriptors (objs(j := None)) = (descriptors objs)(j := None)"
  by (auto simp: descriptors_def)

lemma descriptors_Some: "objs j = Some c \<Longrightarrow> descriptors objs j = Some (cfd c)"
  by (simp add: descriptors_def)

text \<open>The callbacks that the worker has still to call are those of different entries.\<close>

definition calls_distinct :: "'c handler \<Rightarrow> bool" where
  "calls_distinct h = (case phase h of Calling cs fs p \<Rightarrow> distinct (map fst cs) | _ \<Rightarrow> True)"

definition handler_ok :: "(nat \<rightharpoonup> int) \<Rightarrow> nat \<Rightarrow> notification handler \<Rightarrow> bool" where
  "handler_ok fds k h \<longleftrightarrow> entries_ok h \<and> calls_ok h \<and> calls_distinct h \<and> entries_for fds k (callbacks h)"

text \<open>An object exists as long as somebody has a reference to it or waits in its destructor.\<close>

fun dropped :: "main_thread \<Rightarrow> nat option" where
  "dropped (Dropping i k) = Some i"
| "dropped m = None"

definition objects_ok :: "'s server \<Rightarrow> bool" where
  "objects_ok srv \<longleftrightarrow> (\<forall>i. i \<in> dom (objects srv) \<longleftrightarrow> held srv i \<or> dropped (main_at srv) = Some i) \<and> distinct (connections srv)
     \<and> (\<forall>j c. objects srv j = Some c \<longrightarrow> conn_id c = j \<and> j < next_object srv \<and> cfd c \<noteq> -1 \<and> data_handler c \<noteq> None)"

text \<open>Where the two threads are fits what the connection handler does.\<close>

definition main_ok :: "'s server \<Rightarrow> bool" where
  "main_ok srv \<longleftrightarrow> (\<forall>i as. main_at srv = Serving i as \<longrightarrow> None \<notin> set as)
     \<and> (\<forall>i k. main_at srv = Dropping i k \<longrightarrow> \<not> held srv i \<and> k \<in> set (waiting (hnd srv))
          \<and> (\<exists>e \<in> set (callbacks (hnd srv)). ident e = k \<and> on_select e = OnDataReady i))"

definition worker_ok :: "'s server \<Rightarrow> bool" where
  "worker_ok srv \<longleftrightarrow> (\<forall>i. entered (worker_at srv) = Some i
       \<longrightarrow> (\<exists>k f cs fs p. phase (hnd srv) = Calling ((k, f, OnDataReady i) # cs) fs p))
     \<and> (\<forall>i st rs. worker_at srv = Handing i st rs \<longrightarrow> st \<noteq> Crashed)"

definition server_ok :: "'s server \<Rightarrow> bool" where
  "server_ok srv \<longleftrightarrow> handler_ok (descriptors (objects srv)) (listener_id (listening srv)) (hnd srv)
     \<and> objects_ok srv \<and> main_ok srv \<and> worker_ok srv
     \<and> (\<forall>i. leftover_ok (leftovers srv i)) \<and> (\<exists>b. lbio (listening srv) = Some (AcceptBio b))"

lemmas server_ok_defs = server_ok_def objects_ok_def main_ok_def worker_ok_def

subsection \<open>Entries\<close>

lemma entry_ok_entry_of: "entry_ok fds k (entry_of e) = entry_ok fds k e"
  by (simp add: entry_ok_def split: notification.splits)

lemma entries_for_cong:
  assumes "map entry_of cs' = map entry_of cs"
  shows "entries_for fds k cs' = entries_for fds k cs"
proof -
  have "entries_for fds k xs \<longleftrightarrow> (\<forall>e \<in> set (map entry_of xs). entry_ok fds k e)
      \<and> (\<forall>j f. fds j = Some f \<longrightarrow> (\<exists>e \<in> set (map entry_of xs). on_select e = OnDataReady j))" for xs
    by (simp add: entries_for_def entry_ok_entry_of)
  then show ?thesis using arg_cong [OF assms, of set] by (simp only:)
qed

lemma entry_okD:
  "entry_ok fds k e \<Longrightarrow> on_select e = OnDataReady j \<Longrightarrow> fds j = Some (fd e) \<and> on_error_callback e = Some (ClientCallback j)"
  "entry_ok fds k e \<Longrightarrow> (\<And>j. on_select e = OnDataReady j \<Longrightarrow> fds' j = fds j) \<Longrightarrow> entry_ok fds' k e"
  by (cases "on_select e"; simp add: entry_ok_def)+

lemma entries_forD:
  "entries_for fds k cs \<Longrightarrow> e \<in> set cs \<Longrightarrow> entry_ok fds k e"
  "entries_for fds k cs \<Longrightarrow> fds j = Some f \<Longrightarrow> \<exists>e \<in> set cs. on_select e = OnDataReady j"
  by (simp_all add: entries_for_def)

lemma entries_forI:
  assumes "\<And>e. e \<in> set cs \<Longrightarrow> entry_ok fds k e" "\<And>j f. fds j = Some f \<Longrightarrow> \<exists>e \<in> set cs. on_select e = OnDataReady j"
  shows "entries_for fds k cs"
  using assms by (simp add: entries_for_def)

lemma entries_for_attach:
  assumes "entries_for fds k cs" "j \<notin> dom fds" "on_select e = OnDataReady j" "on_error_callback e = Some (ClientCallback j)"
  shows "entries_for (fds(j \<mapsto> fd e)) k (cs @ [e])"
proof -
  have "entry_ok (fds(j \<mapsto> fd e)) k d" if "d \<in> set cs" for d
  proof (rule entry_okD(2))
    show d: "entry_ok fds k d" using assms(1) that by (rule entries_forD)
    show "(fds(j \<mapsto> fd e)) i = fds i" if "on_select d = OnDataReady i" for i
      using entry_okD(1) [OF d that] assms(2) by auto
  qed
  moreover have "entry_ok (fds(j \<mapsto> fd e)) k e" using assms(3,4) by (simp add: entry_ok_def)
  moreover have "\<exists>d \<in> set (cs @ [e]). on_select d = OnDataReady i" if "(fds(j \<mapsto> fd e)) i = Some f" for i f
  proof (cases "i = j")
    case False
    then show ?thesis using entries_forD(2) [OF assms(1), of i f] that by auto
  qed (use assms(3) in simp)
  ultimately show ?thesis by (intro entries_forI) auto
qed

lemma handler_okD:
  assumes "handler_ok fds k h"
  shows "entries_ok h" "calls_ok h" "calls_distinct h" "entries_for fds k (callbacks h)" "e \<in> set (callbacks h) \<Longrightarrow> entry_ok fds k e"
  using assms entries_forD(1) [of fds k "callbacks h" e] by (simp_all add: handler_ok_def)

text \<open>An object has one entry, and the descriptor leads to it.\<close>

lemma one_entry:
  assumes "handler_ok fds k h" "e \<in> set (callbacks h)" "d \<in> set (callbacks h)" "on_select e = OnDataReady j" "on_select d = OnDataReady j"
  shows "d = e"
proof -
  have "entry_ok fds k e" "entry_ok fds k d" by (rule handler_okD(5) [OF assms(1) assms(2)], rule handler_okD(5) [OF assms(1) assms(3)])
  then have "fds j = Some (fd e)" "fds j = Some (fd d)" using entry_okD(1) assms(4,5) by blast+
  then have "fd d = fd e" by simp
  then show ?thesis using same_fd_same assms(1-3) by (auto simp: handler_ok_def)
qed

lemma entry_of_object:
  assumes "handler_ok fds k h" "fds j = Some f"
  obtains e where "e \<in> set (callbacks h)" "find_fd f (callbacks h) = Some e" "fd e = f" "on_select e = OnDataReady j"
proof -
  obtain e where e: "e \<in> set (callbacks h)" "on_select e = OnDataReady j"
    using assms entries_forD(2) unfolding handler_ok_def by blast
  then have "entry_ok fds k e" using handler_okD(5) [OF assms(1)] by blast
  then have fd: "fd e = f" using assms(2) entry_okD(1) [OF _ e(2)] by fastforce
  moreover obtain d where d: "find_fd f (callbacks h) = Some d" using e(1) fd find_fd_None [of f "callbacks h"] by fastforce
  moreover have "d = e" using find_fd_Some [OF d] same_fd_same [of h d e] assms(1) e(1) fd by (simp add: handler_ok_def)
  ultimately show ?thesis using that e by blast
qed

lemma entries_for_erase:
  assumes "handler_ok fds k h" "e \<in> set (callbacks h)" "on_select e = OnDataReady j"
  shows "entries_for (fds(j := None)) k (erase (ident e) (callbacks h))"
proof -
  have other: "on_select d \<noteq> OnDataReady j" if "d \<in> set (callbacks h)" "ident d \<noteq> ident e" for d
    using one_entry [OF assms(1,2) that(1) assms(3)] that(2) by blast
  have "entry_ok (fds(j := None)) k d" if "d \<in> set (callbacks h)" "ident d \<noteq> ident e" for d
  proof (rule entry_okD(2))
    show "entry_ok fds k d" by (rule handler_okD(5) [OF assms(1) that(1)])
    show "(fds(j := None)) i = fds i" if "on_select d = OnDataReady i" for i using other [OF \<open>d \<in> _\<close> \<open>ident d \<noteq> _\<close>] that by auto
  qed
  moreover have "\<exists>d \<in> set (callbacks h). ident d \<noteq> ident e \<and> on_select d = OnDataReady j'" if "fds j' = Some f" "j' \<noteq> j" for j' f
  proof -
    obtain d where d: "d \<in> set (callbacks h)" "on_select d = OnDataReady j'"
      using entries_forD(2) [OF handler_okD(4) [OF assms(1)] \<open>fds j' = Some f\<close>] by blast
    have "d \<noteq> e" using d(2) assms(3) \<open>j' \<noteq> j\<close> by auto
    then have "ident d \<noteq> ident e" using same_ident_same [OF handler_okD(1) [OF assms(1)] d(1) assms(2)] by blast
    then show ?thesis using d by blast
  qed
  ultimately show ?thesis by (intro entries_forI) (fastforce simp: erase_def split: if_splits)+
qed

subsection \<open>Steps of the connection handler\<close>

lemma calls_distinct_step:
  assumes "step h l h'" "entries_ok h" "calls_distinct h"
  shows "calls_distinct h'"
  using assms(1)
proof cases
  case (Gather ready p)
  have "distinct (map ident (filter (\<lambda>c. fd c \<in> set ready) (callbacks h)))"
    using assms(2) by (intro distinct_map_filter) (simp add: entries_ok_def)
  moreover have "map fst (gather ready (callbacks h)) = map ident (filter (\<lambda>c. fd c \<in> set ready) (callbacks h))"
    by (simp add: gather_def comp_def)
  ultimately show ?thesis using Gather by (simp add: calls_distinct_def)
next
  case (DetachWorker cs fs p f)
  then show ?thesis using assms(3) by (simp add: calls_distinct_def detach_worker_def notifyThread_def split: option.splits)
qed (use assms(3) in \<open>auto simp: calls_distinct_def attach_def detach_begin_def detach_end_def stop_def notifyThread_def collect_def
  after_calls_def split: option.splits\<close>)

text \<open>Steps that keep the entries, whatever they do to the states of their attachment.\<close>

lemma handler_ok_step:
  assumes "handler_ok fds k h" "step h l h'" "disciplined l h" "map entry_of (callbacks h') = map entry_of (callbacks h)"
  shows "handler_ok fds k h'"
  using assms step_entries_ok [OF assms(2,3)] step_calls_ok [OF assms(2,3)] calls_distinct_step [OF assms(2)] entries_for_cong [OF assms(4)]
  by (simp add: handler_ok_def)

lemma silent_step:
  assumes "step h l h'" "silent l"
  shows "map entry_of (callbacks h') = map entry_of (callbacks h)" "waiting h' = waiting h" "disciplined l h"
    "\<nexists>t cs fs p. phase h = Calling (t # cs) fs p"
  using assms by (cases; auto simp: silent_def collect_def comp_def disciplined_def)+

lemma report_step:
  assumes "step h (label.Report f) h'"
  obtains fs where "phase h = Removing (f # fs)" "h' = h\<lparr>callbacks := remove_first f (callbacks h), phase := Removing fs\<rparr>"
    "map entry_of (callbacks h') = map entry_of (callbacks h)" "waiting h' = waiting h"
  using assms by cases auto

lemma call_step_phase:
  assumes "step h (Call i cb t) h'"
  obtains f cs fs fs' p where "phase h = Calling ((i, f, cb) # cs) fs p" "h' = h\<lparr>phase := Calling cs fs' p\<rparr>"
  using assms by cases auto

lemma handler_ok_call:
  assumes "handler_ok fds k h" "step h (Call i cb t) h'"
  shows "handler_ok fds k h'"
proof -
  obtain f cs fs fs' p where "phase h = Calling ((i, f, cb) # cs) fs p" "h' = h\<lparr>phase := Calling cs fs' p\<rparr>"
    by (rule call_step_phase [OF assms(2)])
  then show ?thesis using handler_ok_step [OF assms] by (simp add: disciplined_def)
qed

text \<open>What the worker calls belongs to an entry.\<close>

lemma called_entry:
  assumes "handler_ok fds k h" "phase h = Calling cs fs p" "(i, f, cb) \<in> set cs"
  obtains e where "e \<in> set (callbacks h)" "ident e = i" "fd e = f" "on_select e = cb" "entry_ok fds k e"
proof -
  have "live_entry (callbacks h) (i, f, cb)" using assms by (simp add: handler_ok_def calls_ok_def)
  then obtain e where e: "e \<in> set (callbacks h)" "ident e = i" "fd e = f" "on_select e = cb" by (auto simp: live_entry_def)
  moreover have "entry_ok fds k e" using assms(1) e(1) by (simp add: handler_ok_def entries_for_def)
  ultimately show ?thesis by (rule that)
qed

text \<open>The worker detaches an object that it is not going to call any more.\<close>

lemma handler_ok_detach_worker:
  assumes "handler_ok fds k h" "fds j = Some f" "phase h = Calling cs fs p \<or> phase h = Removing fs"
    and "\<forall>cs fs p. phase h = Calling cs fs p \<longrightarrow> f \<notin> fst ` snd ` set cs"
  shows "handler_ok (fds(j := None)) k (detach_worker f h)" "phase (detach_worker f h) = phase h" "waiting (detach_worker f h) = waiting h"
    "e \<in> set (callbacks h) \<Longrightarrow> on_select e \<noteq> OnDataReady j \<Longrightarrow> e \<in> set (callbacks (detach_worker f h))"
proof -
  obtain e where e: "e \<in> set (callbacks h)" "find_fd f (callbacks h) = Some e" "fd e = f" "on_select e = OnDataReady j"
    by (rule entry_of_object [OF assms(1,2)])
  then have d: "detach_worker f h = notifyThread (h\<lparr>callbacks := erase (ident e) (callbacks h), gone := ident e # gone h\<rparr>)"
    by (simp add: detach_worker_def)
  have "step h (DetachWorker f) (detach_worker f h)" using assms(3) by (rule step.DetachWorker)
  moreover have "disciplined (DetachWorker f) h" using assms(4) by (simp add: disciplined_def split: phase.splits)
  ultimately have "entries_ok (detach_worker f h) \<and> calls_ok (detach_worker f h) \<and> calls_distinct (detach_worker f h)"
    using step_entries_ok step_calls_ok calls_distinct_step assms(1) unfolding handler_ok_def by blast
  then show "handler_ok (fds(j := None)) k (detach_worker f h)"
    using entries_for_erase [OF assms(1) e(1,4)] by (simp add: handler_ok_def d notifyThread_def)
  show "phase (detach_worker f h) = phase h" "waiting (detach_worker f h) = waiting h" by (simp_all add: d notifyThread_def)
  show "e' \<in> set (callbacks (detach_worker f h))" if "e' \<in> set (callbacks h)" "on_select e' \<noteq> OnDataReady j" for e'
    using that same_ident_same [OF _ that(1) e(1)] assms(1) e(4) by (auto simp: d notifyThread_def erase_def handler_ok_def)
qed

subsection \<open>The worker\<close>

text \<open>Documented: an initialised BIO has a descriptor. The accepted BIO is initialised.\<close>

definition has_descriptors :: "'s openssl \<Rightarrow> bool" where
  "has_descriptors lib \<longleftrightarrow> (\<forall>p s. BIO_get_fd lib p s \<noteq> -1)"

text \<open>No descriptor is watched twice.\<close>

definition descriptors_apart :: "'s server \<Rightarrow> bool" where
  "descriptors_apart srv \<longleftrightarrow> distinct (map fd (callbacks (hnd srv)))"

lemma onDataReady_ok:
  assumes "onDataReady L lib c attr q s = Some (st, attr', q', s')" "leftover_ok attr"
  shows "st \<noteq> Crashed \<and> leftover_ok attr'"
  using assms serve_keeps [OF assms(2), of L "conn_id c"]
  by (fastforce simp: onDataReady_def split: option.splits prod.splits sum.splits)

lemma release_plain: "data_handler c = None \<Longrightarrow> objects srv (conn_id c) = None \<Longrightarrow>
    \<exists>s'. release E c srv = (Done, srv\<lparr>os := s'\<rparr>)"
  by (auto simp: release_def connection_destroy_def clearNewDataHandler_def fun_upd_idem)

lemma held_frame [simp]:
  "held (srv\<lparr>os := s\<rparr>) = held srv" "held (srv\<lparr>hnd := h\<rparr>) = held srv" "held (srv\<lparr>objects := m\<rparr>) = held srv"
  "held (srv\<lparr>leftovers := l\<rparr>) = held srv" "held (srv\<lparr>request_list := q\<rparr>) = held srv"
  "held (srv\<lparr>next_object := n\<rparr>) = held srv"
  by (simp_all add: held_def fun_eq_iff)

lemma server_ok_os: "server_ok (srv\<lparr>os := s\<rparr>) = server_ok srv"
  by (simp add: server_ok_defs)

text \<open>What the main thread waits for stays, when the entries stay.\<close>

lemma main_ok_entries:
  assumes "main_ok srv" "map entry_of (callbacks h') = map entry_of (callbacks (hnd srv))" "waiting h' = waiting (hnd srv)"
  shows "main_ok (srv\<lparr>hnd := h'\<rparr>)"
proof -
  have e: "entry_of ` set (callbacks h') = entry_of ` set (callbacks (hnd srv))" using arg_cong [OF assms(2), of set] by simp
  have "\<exists>e \<in> set (callbacks h'). ident e = k \<and> on_select e = OnDataReady i"
    if e': "e \<in> set (callbacks (hnd srv))" "ident e = k" "on_select e = OnDataReady i" for e k i
  proof -
    have "entry_of e \<in> entry_of ` set (callbacks h')" using e e'(1) by blast
    then obtain d where "d \<in> set (callbacks h')" "entry_of d = entry_of e" by auto
    then show ?thesis using e'(2,3) entry_of_simps(1,3) by metis
  qed
  then show ?thesis using assms(1,3) unfolding main_ok_def by auto
qed

lemma server_ok_silent:
  assumes "server_ok srv" "step (hnd srv) l h'" "silent l"
  shows "server_ok (srv\<lparr>hnd := h'\<rparr>)"
proof -
  note s = silent_step [OF assms(2,3)]
  have h: "handler_ok (descriptors (objects srv)) (listener_id (listening srv)) h'"
    using assms(1) handler_ok_step [OF _ assms(2) s(3,1)] by (simp add: server_ok_def)
  moreover have "main_ok (srv\<lparr>hnd := h'\<rparr>)" using assms(1) main_ok_entries [OF _ s(1,2)] by (simp add: server_ok_def)
  moreover have "entered (worker_at srv) = None" using assms(1) s(4) unfolding server_ok_def worker_ok_def by fastforce
  ultimately show ?thesis using assms(1) by (auto simp: server_ok_def objects_ok_def worker_ok_def)
qed

text \<open>The worker gives up the last reference or another one.\<close>

lemma unreference_ok:
  assumes "handler_ok (descriptors (objects srv)) k (hnd srv)" "k = listener_id (listening srv)" "objects srv i = Some c"
    and "\<And>j. j \<in> dom (objects srv) \<longleftrightarrow> j = i \<or> held srv j \<or> dropped (main_at srv) = Some j" "dropped (main_at srv) \<noteq> Some i"
    and "distinct (connections srv)" "main_ok srv" "worker_at srv = No_call"
    and "\<And>j c. objects srv j = Some c \<Longrightarrow> conn_id c = j \<and> j < next_object srv \<and> cfd c \<noteq> -1 \<and> data_handler c \<noteq> None"
    and "\<And>j. leftover_ok (leftovers srv j)" "lbio (listening srv) = Some (AcceptBio b)"
    and "phase (hnd srv) = Calling cs fs p \<or> phase (hnd srv) = Removing fs"
    and "\<forall>cs fs p. phase (hnd srv) = Calling cs fs p \<longrightarrow> cfd c \<notin> fst ` snd ` set cs"
    and "unreference E i srv = (st, srv')"
  shows "st = Done \<and> server_ok srv'"
proof (cases "held srv i")
  case True
  then have "st = Done" "srv' = srv" using assms(14) by (simp_all add: unreference_def)
  moreover have "j \<in> dom (objects srv) \<longleftrightarrow> held srv j \<or> dropped (main_at srv) = Some j" for j using assms(4) [of j] True by (cases "j = i") simp_all
  ultimately show ?thesis using assms(1,2,6-11) unfolding server_ok_def objects_ok_def worker_ok_def by simp
next
  case False
  note c = assms(9) [OF assms(3)]
  let ?h = "detach_worker (cfd c) (hnd srv)"
  obtain s' where s': "st = Done" "srv' = srv\<lparr>objects := (objects srv)(i := None), hnd := ?h, os := s'\<rparr>"
    using assms(3,14) False c by (auto simp: unreference_def release_def connection_destroy_def clearNewDataHandler_def)
  note d = handler_ok_detach_worker [OF assms(1) descriptors_Some [where objs = "objects srv", OF assms(3)] assms(12,13)]
  have "main_ok srv'" unfolding main_ok_def
  proof (intro conjI allI impI)
    fix j k assume m: "main_at srv' = Dropping j k"
    then obtain e where e: "e \<in> set (callbacks (hnd srv))" "ident e = k" "on_select e = OnDataReady j"
      "\<not> held srv j" "k \<in> set (waiting (hnd srv))" "j \<noteq> i"
      using assms(5,7) by (auto simp: s' main_ok_def)
    then have "e \<in> set (callbacks ?h)" using d(4) by simp
    with e d(3) show "\<not> held srv' j" "k \<in> set (waiting (hnd srv'))"
      "\<exists>e \<in> set (callbacks (hnd srv')). ident e = k \<and> on_select e = OnDataReady j"
      by (auto simp: s' held_def)
  qed (use assms(7) in \<open>simp add: s' main_ok_def\<close>)
  moreover have "j \<in> dom (objects srv') \<longleftrightarrow> held srv' j \<or> dropped (main_at srv') = Some j" for j
    using assms(4) [of j] assms(5) False by (cases "j = i") (auto simp: s' held_def)
  ultimately show ?thesis
    using s'(1) d(1) assms(2,6,8-11) by (auto simp: server_ok_def objects_ok_def worker_ok_def s'(2))
qed

lemma server_okD:
  assumes "server_ok srv"
  shows "handler_ok (descriptors (objects srv)) (listener_id (listening srv)) (hnd srv)" "main_ok srv" "worker_ok srv"
    "distinct (connections srv)" "leftover_ok (leftovers srv j)" "\<exists>b. lbio (listening srv) = Some (AcceptBio b)"
    "j \<in> dom (objects srv) \<longleftrightarrow> held srv j \<or> dropped (main_at srv) = Some j"
    "objects srv j = Some c \<Longrightarrow> conn_id c = j \<and> j < next_object srv \<and> cfd c \<noteq> -1 \<and> data_handler c \<noteq> None"
  using assms by (simp_all add: server_ok_def objects_ok_def)

lemma server_okI:
  assumes "handler_ok (descriptors (objects srv)) (listener_id (listening srv)) (hnd srv)" "main_ok srv" "worker_ok srv"
    "distinct (connections srv)" "\<And>j. leftover_ok (leftovers srv j)" "\<exists>b. lbio (listening srv) = Some (AcceptBio b)"
    "\<And>j. j \<in> dom (objects srv) \<longleftrightarrow> held srv j \<or> dropped (main_at srv) = Some j"
    "\<And>j c. objects srv j = Some c \<Longrightarrow> conn_id c = j \<and> j < next_object srv \<and> cfd c \<noteq> -1 \<and> data_handler c \<noteq> None"
  shows "server_ok srv"
  using assms by (simp add: server_ok_def objects_ok_def)

text \<open>What is held does not wait in the destructor.\<close>

lemma dropped_not_held: "main_ok srv \<Longrightarrow> dropped (main_at srv) = Some i \<Longrightarrow> \<not> held srv i"
  by (cases "main_at srv") (auto simp: main_ok_def)

text \<open>The error handler that the worker calls for the entry it removes.\<close>

lemma report_ok:
  assumes "server_ok srv" "step (hnd srv) (label.Report f) h'" "error_call f (hnd srv) = Some cb"
    and "notify E cb (srv\<lparr>hnd := h'\<rparr>) = (st, srv')"
  shows "st = Done \<and> server_ok srv'"
proof -
  let ?fds = "descriptors (objects srv)" and ?k = "listener_id (listening srv)" and ?srv = "srv\<lparr>hnd := h'\<rparr>"
  note ok = server_okD [OF assms(1)]
  obtain fs where h: "phase (hnd srv) = Removing (f # fs)"
    "h' = (hnd srv)\<lparr>callbacks := remove_first f (callbacks (hnd srv)), phase := Removing fs\<rparr>"
    "map entry_of (callbacks h') = map entry_of (callbacks (hnd srv))" "waiting h' = waiting (hnd srv)"
    by (rule report_step [OF assms(2)])
  have h': "handler_ok ?fds ?k h'" using handler_ok_step [OF ok(1) assms(2) _ h(3)] by (simp add: disciplined_def)
  have idle: "worker_at srv = No_call" using ok(3) h(1) by (cases "worker_at srv") (auto simp: worker_ok_def)
  have main: "main_ok ?srv" using main_ok_entries [OF ok(2) h(3,4)] .
  obtain e where e: "find_fd f (callbacks (hnd srv)) = Some e" "on_error_callback e = Some cb"
    using assms(3) by (auto simp: error_call_def bind_eq_Some_conv)
  then have "e \<in> set (callbacks (hnd srv))" "fd e = f" using find_fd_Some by blast+
  then obtain j where j: "?fds j = Some f" "cb = ClientCallback j"
    using handler_okD(5) [OF ok(1), of e] e(2) by (auto simp: entry_ok_def split: notification.splits)
  then obtain c where c: "objects srv j = Some c" by (auto simp: descriptors_def)
  show ?thesis
  proof (cases "j \<in> set (connections srv)")
    case False
    then have "st = Done" "srv' = ?srv" using assms(4) j(2) by (simp_all add: notify_def ErrorHandler_def)
    then show ?thesis using h' main idle assms(1) by (auto simp: server_ok_def objects_ok_def worker_ok_def)
  next
    case True
    let ?srv1 = "?srv\<lparr>connections := remove1 j (connections srv)\<rparr>"
    have held: "held srv j" using True by (simp add: held_def)
    then have free: "dropped (main_at srv) \<noteq> Some j" using dropped_not_held [OF ok(2)] by blast
    have dom: "i \<in> dom (objects ?srv1) \<longleftrightarrow> i = j \<or> held ?srv1 i \<or> dropped (main_at ?srv1) = Some i" for i
      using ok(7) [of i] held ok(4) by (auto simp: held_def)
    have "unreference E j ?srv1 = (st, srv')" using assms(4) j(2) True by (simp add: notify_def ErrorHandler_def)
    moreover have "main_ok ?srv1" using main ok(4) unfolding main_ok_def held_def by auto
    moreover have "phase (hnd ?srv1) = Removing fs" using h(2) by simp
    ultimately show ?thesis
      using unreference_ok [where srv = ?srv1 and i = j and E = E and st = st and srv' = srv' and fs = fs] h' c dom free ok idle by auto
  qed
qed

text \<open>The return of \<open>onDataReady\<close>.\<close>

lemma leave_ok:
  assumes "server_ok srv" "phase (hnd srv) = Calling ((k, f, OnDataReady i) # cs) fs p" "worker_at srv = Handing i st []"
    and "step (hnd srv) (Call k (OnDataReady i) t) h'" "call_step E (srv\<lparr>hnd := h'\<rparr>) = Some (st', srv')"
  shows "st' \<noteq> Crashed \<and> server_ok srv'"
proof -
  let ?fds = "descriptors (objects srv)" and ?k = "listener_id (listening srv)" and ?srv = "srv\<lparr>hnd := h', worker_at := No_call\<rparr>"
  note ok = server_okD [OF assms(1)]
  obtain fs' where h: "h' = (hnd srv)\<lparr>phase := Calling cs fs' p\<rparr>" by (rule call_step_phase [OF assms(4)]) (use assms(2) in auto)
  have h': "handler_ok ?fds ?k h'" by (rule handler_ok_call [OF ok(1) assms(4)])
  obtain e where e: "e \<in> set (callbacks (hnd srv))" "ident e = k" "fd e = f" "on_select e = OnDataReady i" "entry_ok ?fds ?k e"
    by (rule called_entry [OF ok(1) assms(2) list.set_intros(1)])
  then obtain c where c: "objects srv i = Some c" "cfd c = f" by (auto simp: entry_ok_def descriptors_def)
  have others: "f \<notin> fst ` snd ` set cs"
  proof
    assume "f \<in> fst ` snd ` set cs"
    then obtain k2 cb where t: "(k2, f, cb) \<in> set cs" by auto
    then obtain d where d: "d \<in> set (callbacks (hnd srv))" "ident d = k2" "fd d = f"
      using called_entry [OF ok(1) assms(2), of k2 f cb] by auto
    then have "k2 = k" using same_fd_same [OF handler_okD(1) [OF ok(1)] d(1) e(1)] e(2,3) by simp
    moreover have "k \<notin> fst ` set cs" using handler_okD(3) [OF ok(1)] assms(2) by (simp add: calls_distinct_def)
    ultimately show False using t by force
  qed
  have held: "held srv i" using assms(3) by (simp add: held_def)
  then have free: "dropped (main_at srv) \<noteq> Some i" using dropped_not_held [OF ok(2)] by blast
  have dom: "j \<in> dom (objects ?srv) \<longleftrightarrow> j = i \<or> held ?srv j \<or> dropped (main_at ?srv) = Some j" for j
    using ok(7) [of j] held assms(3) by (auto simp: held_def)
  obtain st1 where u: "unreference E i ?srv = (st1, srv')" "st' = (if st1 = Crashed then Crashed else st)"
    using assms(3,5) by (auto simp: call_step_def split: prod.splits)
  have "main_ok ?srv" using ok(2) h by (auto simp: main_ok_def held_def)
  then have "st1 = Done \<and> server_ok srv'"
    using unreference_ok [where srv = ?srv and i = i and E = E and st = st1 and srv' = srv' and cs = cs and fs = fs' and p = p]
      h' h c dom free ok others u(1) by auto
  moreover have "st \<noteq> Crashed" using ok(3) assms(3) by (simp add: worker_ok_def)
  ultimately show ?thesis using u(2) by simp
qed

text \<open>What the worker calls after a successful \<open>select\<close>.\<close>

lemma handleNewConnection_ok:
  assumes "server_ok srv" "objects srv (conn_id c) = None" "conn_id c < next_object srv" "cfd c \<noteq> -1" "data_handler c = None"
    and "cbio c \<noteq> None" "handleNewConnection E c srv = (st, srv')"
  shows "st = Done \<and> (descriptors_apart srv' \<longrightarrow> server_ok srv') \<and> phase (hnd srv') = phase (hnd srv)"
proof (cases "validate E (Address_u32 (peer E (cfd c)))")
  case False
  then show ?thesis
    using assms release_plain [of c srv E] by (auto simp: handleNewConnection_def getPeerAddress_def server_ok_os)
next
  case True
  let ?c = "c\<lparr>data_handler := Some 0\<rparr>" and ?i = "conn_id c" and ?fds = "descriptors (objects srv)" and ?k = "listener_id (listening srv)"
  let ?h = "attach (cfd c) (OnDataReady ?i) (Some (ClientCallback ?i)) (hnd srv)"
  note ok = server_okD [OF assms(1)]
  have st: "st = Done" and srv': "srv' = srv\<lparr>objects := (objects srv)(?i \<mapsto> ?c), hnd := ?h, connections := connections srv @ [?i]\<rparr>"
    using assms(4-7) True
    by (auto simp: handleNewConnection_def getPeerAddress_def setNewDataHandler_def Let_def)
  obtain e where e: "callbacks ?h = callbacks (hnd srv) @ [e]" "fd e = cfd c" "on_select e = OnDataReady ?i"
    "on_error_callback e = Some (ClientCallback ?i)" by (simp add: attach_def notifyThread_def)
  have h: "phase ?h = phase (hnd srv)" "waiting ?h = waiting (hnd srv)" by (simp_all add: attach_def notifyThread_def)
  have "server_ok srv'" if "descriptors_apart srv'"
  proof -
  have "find_fd (cfd c) (callbacks (hnd srv)) = None"
    using that e(2) unfolding srv' descriptors_apart_def find_fd_None by (simp add: e(1))
  then have d: "disciplined (Attach (cfd c) (OnDataReady ?i) (Some (ClientCallback ?i))) (hnd srv)" by (simp add: disciplined_def)
  have "?i \<notin> dom ?fds" using assms(2) by auto
  then have "handler_ok (?fds(?i \<mapsto> cfd c)) ?k ?h"
    using step_entries_ok [OF step.Attach d] step_calls_ok [OF step.Attach d] calls_distinct_step [OF step.Attach] handler_okD [OF ok(1)]
      entries_for_attach [of ?fds ?k "callbacks (hnd srv)" ?i e] e
    by (simp add: handler_ok_def)
  moreover have new: "\<not> held srv ?i" "dropped (main_at srv) \<noteq> Some ?i" using ok(7) [of ?i] assms(2) by auto
  then have "main_ok srv'" using ok(2) e(1) unfolding srv' main_ok_def held_def by (auto simp: h)
  moreover have "j \<in> dom (objects srv') \<longleftrightarrow> held srv' j \<or> dropped (main_at srv') = Some j" for j
    using ok(7) [of j] by (auto simp: srv' held_def)
  moreover have "distinct (connections srv')" using ok(4) new(1) by (simp add: srv' held_def)
  ultimately show ?thesis
    using ok assms(3,4) unfolding server_ok_def objects_ok_def worker_ok_def by (auto simp: srv' h split: if_splits)
  qed
  then show ?thesis using st by (simp add: srv' h)
qed

lemma onNewConnection_ok:
  assumes "server_ok srv" "has_descriptors (ssl E)" "onNewConnection E srv = (st, srv')"
  shows "st \<noteq> Crashed \<and> (descriptors_apart srv' \<longrightarrow> server_ok srv') \<and> phase (hnd srv') = phase (hnd srv)"
proof -
  note ok = server_okD [OF assms(1)]
  obtain b where b: "lbio (listening srv) = Some (AcceptBio b)" using ok(6) by blast
  have fresh: "objects srv (next_object srv) = None"
  proof (cases "objects srv (next_object srv)")
    case (Some c)
    then show ?thesis using ok(8) [of "next_object srv" c] by simp
  qed
  have ok': "server_ok (srv\<lparr>os := s', next_object := Suc (next_object srv), leftovers := (leftovers srv)(i := None)\<rparr>)" for s' i
    using assms(1) by (auto simp: server_ok_defs leftover_ok_def [of None] less_Suc_eq)
  show ?thesis
  proof (cases "new_connection_handler (listening srv)")
    case None
    then show ?thesis using assms by (simp add: onNewConnection_def)
  next
    case (Some k)
    obtain r s' where a: "listener_accept (ssl E) (next_object srv) (listening srv) (os srv) = (r, s')" by (cases "listener_accept (ssl E) (next_object srv) (listening srv) (os srv)")
    consider e where "r = Inl e" | p s'' where "r = Inr (Some (Connection (ssl E) (next_object srv) p s''))"
      using a b by (auto simp: listener_accept_def bio_accept_def st_defs split: prod.splits sum.splits option.splits if_splits)
    then show ?thesis
    proof cases
      case 1
      then show ?thesis using assms Some a by (auto simp: onNewConnection_def server_ok_os)
    next
      case 2
      let ?srv = "srv\<lparr>os := s', next_object := Suc (next_object srv), leftovers := (leftovers srv)(next_object srv := None)\<rparr>"
      have "handleNewConnection E (Connection (ssl E) (next_object srv) p s'') ?srv = (st, srv')"
        using assms(3) Some a 2 by (simp add: onNewConnection_def)
      then show ?thesis
        using handleNewConnection_ok [OF ok' [where s' = s' and i = "next_object srv"], of "Connection (ssl E) (next_object srv) p s''" E st srv']
          fresh assms(2) by (simp add: Connection_def has_descriptors_def bio_get_fd_def)
    qed
  qed
qed

text \<open>The call for a connection with data.\<close>

lemma enter_ok:
  assumes "server_ok srv" "phase (hnd srv) = Calling ((k, f, OnDataReady j) # cs) fs p" "worker_at srv = No_call"
    and "onDataReady_enter j srv = (st, srv')"
  shows "st \<noteq> Crashed \<and> server_ok srv' \<and> hnd srv' = hnd srv"
proof -
  note ok = server_okD [OF assms(1)]
  obtain e where "on_select e = OnDataReady j" "entry_ok (descriptors (objects srv)) (listener_id (listening srv)) e"
    by (rule called_entry [OF ok(1) assms(2) list.set_intros(1)])
  then obtain c where c: "objects srv j = Some c" by (auto simp: entry_ok_def descriptors_def)
  have "server_ok (srv\<lparr>worker_at := Entered j\<rparr>)" if "held srv j"
  proof -
    have "held (srv\<lparr>worker_at := Entered j\<rparr>) i = held srv i" for i using that assms(3) by (auto simp: held_def)
    then show ?thesis using assms(1,2) by (auto simp: server_ok_defs)
  qed
  then show ?thesis using assms(1,4) c by (auto simp: onDataReady_enter_def split: if_splits)
qed

lemma within_ok:
  assumes "server_ok srv" "\<forall>j st. worker_at srv \<noteq> Handing j st []" "call_step E srv = Some (st, srv')"
  shows "st \<noteq> Crashed \<and> server_ok srv'"
proof (cases "worker_at srv")
  case No_call
  then show ?thesis using assms(3) by (simp add: call_step_def)
next
  case (Entered i)
  note ok = server_okD [OF assms(1)]
  have "held srv i" using Entered by (simp add: held_def)
  then obtain c where c: "objects srv i = Some c" using ok(7) [of i] by auto
  then obtain st' attr' rs s' where r: "onDataReady (boost E) (ssl E) c (leftovers srv i) [] (os srv) = Some (st', attr', rs, s')"
    "st = (if st' = Crashed then Crashed else Done)"
    "srv' = srv\<lparr>leftovers := (leftovers srv)(i := attr'), os := s', worker_at := Handing i st' rs\<rparr>"
    using assms(3) Entered by (auto simp: call_step_def split: option.splits)
  have o: "st' \<noteq> Crashed" "leftover_ok attr'" using onDataReady_ok [OF r(1) ok(5)] by simp_all
  have "held srv' j = held srv j" for j using Entered by (simp add: r(3) held_def)
  then show ?thesis using assms(1) Entered o r(2) by (auto simp: r(3) server_ok_defs)
next
  case (Handing i st0 rs0)
  then obtain q rs where rs: "rs0 = q # rs" using assms(2) by (cases rs0) auto
  have "st = Done" "srv' = srv\<lparr>request_list := handle q (request_list srv), worker_at := Handing i st0 rs\<rparr>"
    using assms(3) Handing rs by (simp_all add: call_step_def)
  moreover have "held (srv\<lparr>request_list := handle q (request_list srv), worker_at := Handing i st0 rs\<rparr>) j = held srv j" for j
    using Handing by (simp add: held_def)
  ultimately show ?thesis using assms(1) Handing by (auto simp: server_ok_defs)
qed

subsection \<open>The main thread\<close>

lemma perform_reply_keeps:
  "perform_reply lib c a s = (r, c', s') \<Longrightarrow> conn_id c' = conn_id c \<and> cfd c' = cfd c \<and> data_handler c' = data_handler c"
  by (auto simp: perform_reply_def connection_close_def split: option.splits reply.splits prod.splits sum.splits)

lemma perform_reply_defined: "perform_reply lib c (Some a) s \<noteq> (None, y)"
  by (auto simp: perform_reply_def connection_close_def split: reply.splits prod.splits sum.splits)

lemma answer_defined: "None \<notin> set (answer L r)"
  by (simp add: answer_def write_response_def Response_of_code_def reason_strings_def reason_string_rows_def)

lemma reply_ok:
  assumes "server_ok srv" "main_at srv = Serving i (a # as)" "main_step E srv = Some (st, srv')"
  shows "st = Done \<and> server_ok srv'"
proof -
  note ok = server_okD [OF assms(1)]
  have h: "held srv i" using assms(2) by (simp add: held_def)
  then obtain c where c: "objects srv i = Some c" using ok(7) [of i] by auto
  obtain b bs where b: "a = Some b" "None \<notin> set as" using ok(2) assms(2) by (cases a) (auto simp: main_ok_def)
  obtain r c' s' where p: "perform_reply (ssl E) c a (os srv) = (r, c', s')" by (metis prod_cases3)
  then have c': "conn_id c' = conn_id c" "cfd c' = cfd c" "data_handler c' = data_handler c" and "r \<noteq> None"
    using perform_reply_keeps [OF p] perform_reply_defined [of "ssl E" c b "os srv"] b(1) by auto
  then obtain as' where srv': "st = Done" "srv' = srv\<lparr>objects := (objects srv)(i \<mapsto> c'), os := s', main_at := Serving i as'\<rparr>"
    "None \<notin> set as'" using assms(2,3) c p b(2) by (auto simp: main_step_def Let_def split: sum.splits)
  have "descriptors (objects srv') = descriptors (objects srv)" using c c'(2) by (auto simp: srv'(2) descriptors_def)
  moreover have "held srv' j = held srv j" for j using assms(2) by (simp add: srv'(2) held_def)
  moreover have "j \<in> dom (objects srv') \<longleftrightarrow> j \<in> dom (objects srv)" for j using c by (cases "j = i") (auto simp: srv'(2))
  moreover have "conn_id d = j \<and> j < next_object srv \<and> cfd d \<noteq> -1 \<and> data_handler d \<noteq> None" if "objects srv' j = Some d" for j d
    using ok(8) [OF c] ok(8) [of j d] that c' by (cases "j = i") (simp_all add: srv'(2))
  moreover have "main_ok srv'" using srv'(3) by (simp add: srv'(2) main_ok_def)
  moreover have "worker_ok srv'" using ok(3) by (simp add: srv'(2) worker_ok_def)
  ultimately have "server_ok srv'"
    using ok(1,4-7) assms(2) by (intro server_okI) (simp_all add: srv'(2) del: fun_upd_apply)
  then show ?thesis using srv'(1) by simp
qed

text \<open>The object is freed, and its entry with it.\<close>

lemma drop_ok:
  assumes "server_ok srv" "main_at srv = Serving i []" "main_step E srv = Some (st, srv')"
  shows "st = Done \<and> server_ok srv'"
proof -
  note ok = server_okD [OF assms(1)]
  let ?srv = "srv\<lparr>main_at := Fetching\<rparr>"
  have h: "held srv i" using assms(2) by (simp add: held_def)
  then obtain c where c: "objects srv i = Some c" using ok(7) [of i] by auto
  note c' = ok(8) [OF c]
  have d: "drop_connection E i srv = Some (st, srv')" using assms(2,3) by (simp add: main_step_def)
  have split: "held srv j \<longleftrightarrow> held ?srv j \<or> j = i" for j using assms(2) by (auto simp: held_def)
  show ?thesis
  proof (cases "held ?srv i")
    case True
    have srv': "st = Done" "srv' = ?srv" using d True by (simp_all add: drop_connection_def)
    have "j \<in> dom (objects ?srv) \<longleftrightarrow> held ?srv j \<or> dropped (main_at ?srv) = Some j" for j
      using ok(7) [of j] split [of j] True assms(2) by (cases "j = i") simp_all
    then have "server_ok ?srv" using ok by (intro server_okI) (simp_all add: main_ok_def worker_ok_def)
    then show ?thesis using srv' by simp
  next
    case False
    obtain e where e: "e \<in> set (callbacks (hnd srv))" "find_fd (cfd c) (callbacks (hnd srv)) = Some e" "fd e = cfd c"
      "on_select e = OnDataReady i"
      by (rule entry_of_object [OF ok(1) descriptors_Some [where objs = "objects srv", OF c]])
    let ?h = "detach_begin (cfd c) (hnd srv)" and ?srv' = "srv\<lparr>hnd := detach_begin (cfd c) (hnd srv), main_at := Dropping i (ident e)\<rparr>"
    have srv': "st = Done" "srv' = ?srv'" "\<not> lock_held (hnd srv)"
      using d False c c' e(2) by (auto simp: drop_connection_def split: if_splits)
    have "\<not> removing (hnd srv)" using srv'(3) by (auto simp: lock_held_def removing_def)
    then have "step (hnd srv) (DetachBegin (cfd c)) ?h" by (rule step.DetachBegin)
    moreover have cs: "callbacks ?h = set_attachment (ident e) pending_detachment (callbacks (hnd srv))"
      "waiting ?h = ident e # waiting (hnd srv)" "phase ?h = phase (hnd srv)" using e(2) by (simp_all add: detach_begin_def notifyThread_def)
    ultimately have "handler_ok (descriptors (objects srv)) (listener_id (listening srv)) ?h"
      using handler_ok_step [OF ok(1)] by (simp add: disciplined_def)
    moreover have "\<exists>d \<in> set (callbacks ?h). ident d = ident e \<and> on_select d = OnDataReady i"
      using e(1,4) by (intro bexI [of _ "e\<lparr>attachment := pending_detachment\<rparr>"]) (auto simp: cs(1) set_attachment_def)
    moreover have held: "held ?srv' j = held ?srv j" for j by (simp add: held_def)
    moreover have "j \<in> dom (objects ?srv') \<longleftrightarrow> held ?srv' j \<or> dropped (main_at ?srv') = Some j" for j
      using ok(7) [of j] split [of j] assms(2) unfolding held by auto
    ultimately have "server_ok ?srv'"
      using ok False by (intro server_okI) (simp_all add: main_ok_def worker_ok_def cs(2,3))
    then show ?thesis using srv'(1,2) by simp
  qed
qed

lemma detached_ok:
  assumes "server_ok srv" "main_at srv = Dropping i k" "main_step E srv = Some (st, srv')"
  shows "st = Done \<and> server_ok srv'"
proof -
  note ok = server_okD [OF assms(1)]
  have w: "\<not> held srv i" "k \<in> set (waiting (hnd srv))" using ok(2) assms(2) by (simp_all add: main_ok_def)
  obtain e where e: "e \<in> set (callbacks (hnd srv))" "ident e = k" "on_select e = OnDataReady i"
    using ok(2) assms(2) by (auto simp: main_ok_def)
  obtain c where c: "objects srv i = Some c" using ok(7) [of i] assms(2) by auto
  obtain e' where e': "find (\<lambda>e. ident e = k) (callbacks (hnd srv)) = Some e'"
    using e(1,2) find_None_iff [of "\<lambda>e. ident e = k" "callbacks (hnd srv)"] by fastforce
  then have found: "e' \<in> set (callbacks (hnd srv))" "ident e' = ident e" using e(2) by (auto simp: find_Some_iff)
  have "e' = e" by (rule same_ident_same [OF handler_okD(1) [OF ok(1)] found(1) e(1) found(2)])
  then have d: "st = Done" "srv' = free_connection E i c (srv\<lparr>hnd := detach_end k (hnd srv)\<rparr>)" "\<not> lock_held (hnd srv)"
    "attachment e = detached"
    using assms(2,3) c e' by (auto simp: main_step_def drop_detached_def split: if_splits)
  have "\<not> removing (hnd srv)" using d(3) by (auto simp: lock_held_def removing_def)
  then have s: "step (hnd srv) (DetachEnd k) (detach_end k (hnd srv))" using w(2) e(1,2) d(4) by (intro step.DetachEnd)
  have "entries_for ((descriptors (objects srv))(i := None)) (listener_id (listening srv)) (erase k (callbacks (hnd srv)))"
    using entries_for_erase [OF ok(1) e(1,3)] e(2) by simp
  moreover have "disciplined (DetachEnd k) (hnd srv)" by (simp add: disciplined_def)
  ultimately have "handler_ok ((descriptors (objects srv))(i := None)) (listener_id (listening srv)) (detach_end k (hnd srv))"
    using step_entries_ok [OF s] step_calls_ok [OF s] calls_distinct_step [OF s] handler_okD [OF ok(1)]
    by (simp add: handler_ok_def detach_end_def)
  moreover have held: "held srv' j = held srv j" for j using assms(2) by (simp add: d(2) free_connection_def held_def)
  moreover have "j \<in> dom (objects srv') \<longleftrightarrow> held srv' j \<or> dropped (main_at srv') = Some j" for j
    using ok(7) [of j] w(1) assms(2) unfolding held by (cases "j = i") (auto simp: d(2) free_connection_def)
  moreover have "phase (detach_end k (hnd srv)) = phase (hnd srv)" by (simp add: detach_end_def)
  ultimately have "server_ok srv'"
    using ok by (intro server_okI) (auto simp: main_ok_def worker_ok_def d(2) free_connection_def split: if_splits)
  then show ?thesis using d(1) by simp
qed

lemma main_step_ok:
  assumes "server_ok srv" "main_step E srv = Some (st, srv')"
  shows "st = Done \<and> server_ok srv'"
proof (cases "main_at srv")
  case Fetching
  then obtain r q' where srv': "st = Done" "srv' = srv\<lparr>request_list := q', main_at := Taken r\<rparr>" using assms(2) by (auto simp: main_step_def)
  moreover have "held (srv\<lparr>request_list := q', main_at := Taken r\<rparr>) j = held srv j" for j using Fetching by (simp add: held_def)
  ultimately show ?thesis using assms(1) Fetching by (auto simp: server_ok_defs)
next
  case (Taken r)
  let ?srv = "\<lambda>m. srv\<lparr>main_at := m\<rparr>"
  have srv': "st = Done" "srv' = ?srv (if held srv (connection r) then Serving (connection r) (answer (boost E) r) else Fetching)"
    using assms(2) Taken by (simp_all add: main_step_def)
  then have "held srv' j = held srv j" for j using Taken by (auto simp: held_def)
  then show ?thesis using assms(1) Taken srv' answer_defined by (auto simp: server_ok_defs)
next
  case (Serving i as)
  then show ?thesis using assms reply_ok drop_ok by (cases as) blast+
next
  case (Dropping i k)
  then show ?thesis using assms detached_ok by blast
qed

subsection \<open>Every step\<close>

lemma called_ok:
  assumes "server_ok srv" "worker_at srv = No_call" "step (hnd srv) (Call i cb t) h'"
  shows "server_ok (srv\<lparr>hnd := h'\<rparr>)"
proof -
  note ok = server_okD [OF assms(1)]
  have "callbacks h' = callbacks (hnd srv)" "waiting h' = waiting (hnd srv)" using assms(3) by (cases; simp)+
  then show ?thesis
    using ok main_ok_entries [OF ok(2)] handler_ok_call [OF ok(1) assms(3)] assms(2) by (intro server_okI) (simp_all add: worker_ok_def)
qed

lemma report_nobody_ok:
  assumes "server_ok srv" "step (hnd srv) (label.Report f) h'"
  shows "server_ok (srv\<lparr>hnd := h'\<rparr>)"
proof -
  note ok = server_okD [OF assms(1)]
  obtain fs where h: "phase (hnd srv) = Removing (f # fs)" "map entry_of (callbacks h') = map entry_of (callbacks (hnd srv))"
    "waiting h' = waiting (hnd srv)" by (rule report_step [OF assms(2)])
  have "worker_at srv = No_call" using ok(3) h(1) by (cases "worker_at srv") (auto simp: worker_ok_def)
  moreover have "handler_ok (descriptors (objects srv)) (listener_id (listening srv)) h'"
    using handler_ok_step [OF ok(1) assms(2) _ h(2)] by (simp add: disciplined_def)
  ultimately show ?thesis using ok main_ok_entries [OF ok(2) h(2,3)] by (intro server_okI) (simp_all add: worker_ok_def)
qed

lemma server_step_ok:
  assumes "server_step E srv st srv'" "server_ok srv" "has_descriptors (ssl E)"
  shows "st \<noteq> Crashed \<and> (descriptors_apart srv' \<longrightarrow> server_ok srv')"
  using assms(1)
proof cases
  case (Worker l h')
  then show ?thesis using server_ok_silent [OF assms(2)] by blast
next
  case (Notify k f cb cs fs p srv1 h')
  obtain e where e: "on_select e = cb" "entry_ok (descriptors (objects srv)) (listener_id (listening srv)) e"
    by (rule called_entry [OF server_okD(1) [OF assms(2)] Notify(2) list.set_intros(1)])
  with Notify(3) have "cb = OnNewConnection (listener_id (listening srv))" by (auto simp: entry_ok_def split: notification.splits)
  then have n: "onNewConnection E srv = (st, srv1)" using Notify(4) by (simp add: notify_def)
  have "callbacks h' = callbacks (hnd srv1)" using Notify(5) by cases auto
  then have apart: "descriptors_apart srv' = descriptors_apart srv1" by (simp add: Notify(1) descriptors_apart_def)
  note new = onNewConnection_ok [OF assms(2,3) n]
  have "server_ok srv'" if "descriptors_apart srv'"
  proof -
    have ok: "server_ok srv1" using new that apart by blast
    then have "worker_at srv1 = No_call"
      using server_okD(3) [OF ok] new Notify(2,3) by (cases "worker_at srv1") (auto simp: worker_ok_def)
    then show ?thesis unfolding Notify(1) using called_ok [OF ok _ Notify(5)] by blast
  qed
  then show ?thesis using new by blast
next
  case (Enter k f j cs fs p)
  then show ?thesis using enter_ok [OF assms(2)] by (fastforce simp: notify_def)
next
  case (Enter_not k f j cs fs p srv1 h')
  then have "st \<noteq> Crashed \<and> server_ok srv1" using enter_ok [OF assms(2)] by (fastforce simp: notify_def)
  then show ?thesis using called_ok [OF _ Enter_not(5,6)] Enter_not(1) by blast
next
  case Within
  then show ?thesis using within_ok [OF assms(2)] by blast
next
  case (Leave k f j cs fs p st0 h')
  then show ?thesis using leave_ok [OF assms(2)] by blast
next
  case (Report f h')
  then show ?thesis using report_nobody_ok [OF assms(2)] by blast
next
  case (ReportTo f h' cb)
  then show ?thesis using report_ok [OF assms(2)] by blast
next
  case Main
  then show ?thesis using main_step_ok [OF assms(2)] by blast
qed

lemma server_start_ok:
  assumes "lbio l = Some (AcceptBio b)" "setNewConnectionHandler (ssl E) k l ConnectionHandler s = (Inr (), l', h)"
  shows "server_ok (initial_server l' h s)"
proof -
  have l': "l' = l\<lparr>new_connection_handler := Some k\<rparr>"
    and h: "h = attach (bio_get_fd (ssl E) (AcceptBio b) s) (OnNewConnection (listener_id l)) None ConnectionHandler"
    using assms by (auto simp: setNewConnectionHandler_def)
  have d: "disciplined (Attach (bio_get_fd (ssl E) (AcceptBio b) s) (OnNewConnection (listener_id l)) None) ConnectionHandler"
    by (simp add: disciplined_def ConnectionHandler_def)
  have "entries_ok h" "calls_ok h"
    unfolding h by (rule step_entries_ok [OF step.Attach d entries_ok_init(1)], rule step_calls_ok [OF step.Attach d entries_ok_init])
  then show ?thesis
    using assms(1) by (simp add: server_ok_defs handler_ok_def h l' attach_def notifyThread_def ConnectionHandler_def initial_server_def
        calls_distinct_def entries_for_def entry_ok_def held_def leftover_ok_def descriptors_def)
qed

lemma server_run_ok: "server_run descriptors_apart E srv \<Longrightarrow> has_descriptors (ssl E) \<Longrightarrow> server_ok srv"
proof (induction rule: server_run.induct)
  case (start l b k s l' h)
  then show ?case by (intro server_start_ok)
next
  case (step srv st srv')
  then show ?case using server_step_ok by blast
qed

lemma server_run_mono: "server_run P E srv \<Longrightarrow> (\<And>s. P s \<Longrightarrow> Q s) \<Longrightarrow> server_run Q E srv"
  by (induction rule: server_run.induct) (auto intro: server_run.intros)

section \<open>The end of the connection handler\<close>

text \<open>
  Deleting the connection handler while nobody else has a reference destroys every connection, each with a detach and the
  freeing of its BIO, and no destructor throws.
\<close>

lemma destroy_connections_all:
  assumes "objects_ok srv" "served (main_at srv) = None" "dropped (main_at srv) = None" "worker_at srv = No_call"
  shows "\<exists>h' s'. destroy_connections E detach_from (connections srv) srv
    = (Done, srv\<lparr>objects := Map.empty, connections := [], hnd := h', os := s'\<rparr>)
    \<and> h' = fold (\<lambda>i. detach_from (cfd (the (objects srv i)))) (connections srv) (hnd srv)"
  using assms
proof (induction "connections srv" arbitrary: srv)
  case Nil
  then have "dom (objects srv) = {}" by (auto simp: objects_ok_def held_def)
  then have "objects srv = Map.empty" by simp
  with Nil show ?case by (intro exI [of _ "hnd srv"] exI [of _ "os srv"]) simp
next
  case (Cons i "is")
  note ok = Cons.prems(1) [unfolded objects_ok_def]
  have "held srv i" using Cons.hyps(2) by (metis held_def list.set_intros(1))
  then have "i \<in> dom (objects srv)" using ok by blast
  then obtain c where c: "objects srv i = Some c" by blast
  then have c': "cfd c \<noteq> -1" "data_handler c \<noteq> None" using ok by blast+
  have new: "i \<notin> set is" using ok Cons.hyps(2) by (metis distinct.simps(2))
  obtain s1 where s1: "connection_destroy (ssl E) detach_from c (hnd srv) (os srv) = (Inr (), detach_from (cfd c) (hnd srv), s1)"
    using c' by (auto simp: connection_destroy_def clearNewDataHandler_def)
  let ?srv = "srv\<lparr>objects := (objects srv)(i := None), connections := is, hnd := detach_from (cfd c) (hnd srv), os := s1\<rparr>"
  have "j \<in> dom (objects ?srv) \<longleftrightarrow> held ?srv j \<or> dropped (main_at ?srv) = Some j" for j
    using ok Cons.prems(2-4) new by (cases "j = i") (auto simp: held_def Cons.hyps(2) [symmetric])
  then have "objects_ok ?srv" using ok by (auto simp: objects_ok_def Cons.hyps(2) [symmetric] split: if_splits)
  from Cons.hyps(1) [OF _ this] Cons.prems(2-4) obtain s' where "destroy_connections E detach_from is ?srv
      = (Done, ?srv\<lparr>objects := Map.empty, connections := [],
          hnd := fold (\<lambda>i. detach_from (cfd (the (objects ?srv i)))) is (detach_from (cfd c) (hnd srv)), os := s'\<rparr>)" by auto
  moreover have "fold (\<lambda>i. detach_from (cfd (the (objects ?srv i)))) is = fold (\<lambda>i. detach_from (cfd (the (objects srv i)))) is"
    using new by (intro ext fold_cong) auto
  moreover have "\<not> held (srv\<lparr>connections := is\<rparr>) i" using new Cons.prems(2,4) by (simp add: held_def)
  ultimately show ?case unfolding Cons.hyps(2) [symmetric] using c s1 by (intro exI [of _ s'] exI) simp
qed

section \<open>A failure to accept\<close>

text \<open>What the worker does behind the call-back, the last one of the round, that threw, and what its next round begins with.\<close>

definition behind_throw :: "int \<Rightarrow> bool \<Rightarrow> notification handler \<Rightarrow> notification handler list" where
  "behind_throw f p h = (let h1 = h\<lparr>phase := Calling [] [f] p\<rparr>; h2 = h1\<lparr>phase := Removing [f]\<rparr>;
     h3 = h2\<lparr>callbacks := remove_first f (callbacks h2), phase := Removing []\<rparr>; h4 = h3\<lparr>phase := Collecting\<rparr>
   in [h1, h2, h3, h4, collect h4])"

lemma behind_throw_steps:
  fixes srv :: "'s server"
  assumes "find_fd f (callbacks (hnd srv)) = Some c" "on_error_callback c = None" "\<not> stopping (hnd srv)"
    and "behind_throw f p (hnd srv) = [h1, h2, h3, h4, h5]"
  shows "server_step E (srv\<lparr>hnd := h1\<rparr>) Done (srv\<lparr>hnd := h2\<rparr>)" "server_step E (srv\<lparr>hnd := h2\<rparr>) Done (srv\<lparr>hnd := h3\<rparr>)"
    "server_step E (srv\<lparr>hnd := h3\<rparr>) Done (srv\<lparr>hnd := h4\<rparr>)" "server_step E (srv\<lparr>hnd := h4\<rparr>) Done (srv\<lparr>hnd := h5\<rparr>)"
proof -
  note h = assms(4) [unfolded behind_throw_def Let_def, simplified]
  have "step h1 Called h2" using step.Called [of h1 "[f]" p] h by (auto simp: after_calls_def)
  then show "server_step E (srv\<lparr>hnd := h1\<rparr>) Done (srv\<lparr>hnd := h2\<rparr>)"
    using server_step.Worker [of Called "srv\<lparr>hnd := h1\<rparr>" h2 E] by (simp add: silent_def)
  have "error_call f h2 = None" using assms(1,2) h by (auto simp: error_call_def)
  moreover have "step h2 (label.Report f) h3" using step.Report [of h2 f "[]"] h by auto
  ultimately show "server_step E (srv\<lparr>hnd := h2\<rparr>) Done (srv\<lparr>hnd := h3\<rparr>)"
    using server_step.Report [of "srv\<lparr>hnd := h2\<rparr>" f h3 E] by simp
  have "step h3 Removed h4" using step.Removed [of h3] h by auto
  then show "server_step E (srv\<lparr>hnd := h3\<rparr>) Done (srv\<lparr>hnd := h4\<rparr>)"
    using server_step.Worker [of Removed "srv\<lparr>hnd := h3\<rparr>" h4 E] by (simp add: silent_def)
  have "step h4 Collect h5" using step.Collect [of h4] assms(3) h by auto
  then show "server_step E (srv\<lparr>hnd := h4\<rparr>) Done (srv\<lparr>hnd := h5\<rparr>)"
    using server_step.Worker [of Collect "srv\<lparr>hnd := h4\<rparr>" h5 E] by (simp add: silent_def)
qed

lemma find_set_attachment: "find_fd f (set_attachment i a cs)
    = map_option (\<lambda>c. if ident c = i then c\<lparr>attachment := a\<rparr> else c) (find_fd f cs)"
  by (induction cs) (auto simp: set_attachment_def)

lemma removed_is_not_selected:
  assumes "find_fd f cs = Some c" "distinct (map fd cs)"
  shows "f \<notin> set (map fd (filter is_live (remove_first f cs)))"
    "find_fd f (map collect_state (remove_first f cs)) = Some (c\<lparr>attachment := detached\<rparr>)"
proof -
  have cs: "remove_first f cs = set_attachment (ident c) pending_detachment cs" using assms(1) by (simp add: remove_first_def)
  show "f \<notin> set (map fd (filter is_live (remove_first f cs)))"
  proof
    assume "f \<in> set (map fd (filter is_live (remove_first f cs)))"
    then obtain d where d: "d \<in> set cs" "fd d = f" "ident d = ident c \<longrightarrow> \<not> True"
      by (auto simp: cs set_attachment_def is_live_def split: if_splits)
    moreover have "c \<in> set cs" "fd c = f" using find_fd_Some [OF assms(1)] by simp_all
    ultimately have "d = c" using assms(2) by (metis inj_on_eq_iff distinct_map)
    then show False using d(3) by simp
  qed
  have "find_fd f (map collect_state xs) = map_option collect_state (find_fd f xs)" for xs :: "'a callback list"
    by (induction xs) auto
  then show "find_fd f (map collect_state (remove_first f cs)) = Some (c\<lparr>attachment := detached\<rparr>)"
    using assms(1) by (simp add: cs find_set_attachment collect_state_def)
qed

text \<open>
  C20: when \<open>accept\<close> throws once (a client fails its handshake, say), the worker gives the listener up: five
  steps later it selects without the listener's descriptor, whose entry stays detached,
  although the listener still has its handler.
\<close>

theorem failed_accept_deafens_server:
  fixes srv :: "'s server"
  assumes "phase (hnd srv) = Calling [(i, f, OnNewConnection k)] [] p" "k = listener_id (listening srv)"
    and "find_fd f (callbacks (hnd srv)) = Some c" "on_error_callback c = None" "distinct (map fd (callbacks (hnd srv)))"
    and "new_connection_handler (listening srv) \<noteq> None" "\<not> stopping (hnd srv)"
    and "listener_accept (ssl E) (next_object srv) (listening srv) (os srv) = (Inl x, s')"
  shows "\<exists>srv1 srv2 srv3 srv4 srv5 fds. server_step E srv (Threw x) srv1 \<and> server_step E srv1 Done srv2
    \<and> server_step E srv2 Done srv3 \<and> server_step E srv3 Done srv4 \<and> server_step E srv4 Done srv5
    \<and> phase (hnd srv5) = Selecting fds \<and> f \<notin> set fds \<and> find_fd f (callbacks (hnd srv5)) = Some (c\<lparr>attachment := detached\<rparr>)
    \<and> new_connection_handler (listening srv5) \<noteq> None"
proof -
  let ?at = "\<lambda>h. srv\<lparr>os := s', hnd := h\<rparr>"
  obtain h1 h2 h3 h4 h5 where h: "behind_throw f p (hnd srv) = [h1, h2, h3, h4, h5]" by (simp add: behind_throw_def Let_def)
  have "notify E (OnNewConnection k) srv = (Threw x, srv\<lparr>os := s'\<rparr>)"
    using assms(2,6,8) by (auto simp: notify_def onNewConnection_def)
  moreover have "step (hnd srv) (Call i (OnNewConnection k) True) h1"
    using step.Call [OF assms(1), of True] h by (auto simp: behind_throw_def Let_def)
  ultimately have "server_step E srv (Threw x) (?at h1)"
    using server_step.Notify [OF assms(1), of E "Threw x" "srv\<lparr>os := s'\<rparr>" h1] by simp
  moreover have "server_step E (?at h1) Done (?at h2)" "server_step E (?at h2) Done (?at h3)" "server_step E (?at h3) Done (?at h4)"
    "server_step E (?at h4) Done (?at h5)"
    using behind_throw_steps [of f "srv\<lparr>os := s'\<rparr>" c p h1 h2 h3 h4 h5 E] assms(3,4,7) h by simp_all
  moreover have "phase h5 = Selecting (map fd (filter is_live (remove_first f (callbacks (hnd srv)))))"
    "callbacks h5 = map collect_state (remove_first f (callbacks (hnd srv)))"
    using h by (auto simp: behind_throw_def Let_def collect_def)
  ultimately show ?thesis
    using removed_is_not_selected [OF assms(3,5)] assms(6)
    by (intro exI [of _ "?at h1"] exI [of _ "?at h2"] exI [of _ "?at h3"] exI [of _ "?at h4"] exI [of _ "?at h5"]
        exI [of _ "map fd (filter is_live (remove_first f (callbacks (hnd srv))))"]) simp
qed

text \<open>A listener on the memory BIO, which accepts nothing: \<open>BIO_pop\<close> gives no connection.\<close>

definition example_environment :: "string environment" where
  "example_environment = \<lparr>boost = boost_ref, ssl = memory_ssl True, validate = validate_default, peer = (\<lambda>_. 0)\<rparr>"

definition example_server :: "string server" where
  "example_server = initial_server \<lparr>listener_id = 0, lbio = Some (AcceptBio 5), new_connection_handler = Some 0\<rparr>
     (attach 5 (OnNewConnection 0) None ConnectionHandler) []"

definition about_to_accept :: "string server" where
  "about_to_accept = example_server\<lparr>hnd := (attach 5 (OnNewConnection 0) None ConnectionHandler)\<lparr>phase := Calling [(0, 5, OnNewConnection 0)] [] False\<rparr>\<rparr>"

theorem failed_accept_deafens_server_witness:
  "\<exists>x srv1. server_step example_environment about_to_accept (Threw x) srv1"
proof -
  let ?c = "\<lparr>ident = 0, fd = 5, on_select = OnNewConnection 0, on_error_callback = None, attachment = pending_attachment\<rparr>"
  have 1: "phase (hnd about_to_accept) = Calling [(0, 5, OnNewConnection 0)] [] False" "0 = listener_id (listening about_to_accept)"
    "callbacks (hnd about_to_accept) = [?c]" "new_connection_handler (listening about_to_accept) \<noteq> None"
    "\<not> stopping (hnd about_to_accept)"
    by (simp_all add: about_to_accept_def example_server_def initial_server_def attach_def notifyThread_def ConnectionHandler_def)
  have 2: "find_fd 5 (callbacks (hnd about_to_accept)) = Some ?c" "distinct (map fd (callbacks (hnd about_to_accept)))"
    by (simp_all add: 1(3))
  have "listener_accept (ssl example_environment) (next_object about_to_accept) (listening about_to_accept) (os about_to_accept)
      = (Inl (logic_error ''assert(cbio)''), [])"
    by (simp add: listener_accept_def about_to_accept_def example_server_def initial_server_def bio_accept_def st_defs positive_or_throw_def
        example_environment_def memory_ssl_def)
  from failed_accept_deafens_server [OF 1(1,2) 2(1) _ 2(2) 1(4,5) this] show ?thesis
    by simp blast
qed

end
