(* ===== verification/ServerRuns.thy ===== *)
theory ServerRuns
  imports Server
begin

text \<open>
  Runs of the whole server. As long as no descriptor is watched twice, no interleaving of the two threads uses a connection
  that was destroyed. A run in which the system gives the descriptor of a closed connection to a new one, while the entry of the old
  one is still there, shows that this is needed.
\<close>

section \<open>A client that closes its connection\<close>

text \<open>
  The state of the system: whether the descriptor 9, the only one for connections, is in use, and the bytes that the next
  client has sent. It is given out only when it is free.
\<close>

definition lone_ssl :: "(bool \<times> string) openssl" where
  "lone_ssl = \<lparr>BIO_reset = (\<lambda>_ s. s),
     BIO_read = (\<lambda>_ n s. if snd s = [] then ((-1, []), s)
       else ((int (length (take n (snd s))), take n (snd s)), (fst s, drop n (snd s)))),
     BIO_write = (\<lambda>_ d s. (int (length d), s)), BIO_pending = (\<lambda>_ s. length (snd s)),
     BIO_should_retry = (\<lambda>_ _. True), BIO_should_read = (\<lambda>_ _. False), BIO_should_write = (\<lambda>_ _. False),
     BIO_do_accept = (\<lambda>_ s. (1, s)), BIO_pop = (\<lambda>_ s. if fst s then (None, s) else (Some 9, (True, snd s))),
     BIO_get_ssl = (\<lambda>_ _. None), BIO_do_handshake = (\<lambda>_ s. (1, s)), BIO_do_connect = (\<lambda>_ s. (1, s)),
     BIO_new_accept = (\<lambda>_ s. (Some 4, s)), BIO_new_connect = (\<lambda>_ s. (None, s)),
     BIO_new_ssl = (\<lambda>_ s. (None, s)), BIO_new_ssl_connect = (\<lambda>_ s. (None, s)), BIO_set_accept_bios = (\<lambda>_ _ s. s),
     BIO_set_conn_hostname = (\<lambda>_ _ s. s), BIO_free_all = (\<lambda>p s. if p = 9 then (False, snd s) else s), BIO_get_fd = (\<lambda>p _. int p),
     ERR_get_error_line_data = (\<lambda>s. (no_error, s))\<rparr>"

definition lone_environment :: "(bool \<times> string) environment" where
  "lone_environment = \<lparr>boost = boost_ref, ssl = lone_ssl, validate = validate_default, peer = (\<lambda>_. 0)\<rparr>"

definition closing_request :: request where
  "closing_request = example_get\<lparr>url := ''/close_connection''\<rparr>"

lemma lone_laws: "has_descriptors (ssl lone_environment)" "drains lone_ssl (ConnectionBIO p) True snd"
  by (auto simp: has_descriptors_def lone_environment_def drains_def bio_read_def bio_should_retry_def lone_ssl_def)

text \<open>States of that server: the entries, the phase, what waits and is gone, the connections, the system and the two threads.\<close>

definition lone_handler :: "notification callback list \<Rightarrow> nat \<Rightarrow> notification phase \<Rightarrow> nat list \<Rightarrow> nat list \<Rightarrow> nat \<Rightarrow> notification handler" where
  "lone_handler cs n ph w g pb = \<lparr>callbacks = cs, next_ident = n, pipe_bytes = pb, stopping = False, phase = ph, waiting = w, gone = g\<rparr>"

definition lone_server :: "notification handler \<Rightarrow> (nat \<rightharpoonup> connection) \<Rightarrow> nat list \<Rightarrow> request list \<Rightarrow> bool \<times> string \<Rightarrow> nat \<Rightarrow> main_thread
    \<Rightarrow> worker_call \<Rightarrow> (bool \<times> string) server" where
  "lone_server h objs conns q s n m w = \<lparr>objects = objs, leftovers = (\<lambda>_. None), connections = conns, request_list = q,
     listening = \<lparr>listener_id = 0, lbio = Some (AcceptBio 4), new_connection_handler = Some 0\<rparr>, hnd = h, os = s, next_object = n,
     main_at = m, worker_at = w\<rparr>"

definition listener_entry :: "attachment \<Rightarrow> notification callback" where
  "listener_entry a = \<lparr>ident = 0, fd = 4, on_select = OnNewConnection 0, on_error_callback = None, attachment = a\<rparr>"

definition client_entry :: "nat \<Rightarrow> attachment \<Rightarrow> notification callback" where
  "client_entry i a = \<lparr>ident = Suc i, fd = 9, on_select = OnDataReady i, on_error_callback = Some (ClientCallback i), attachment = a\<rparr>"

definition client_connection :: "nat \<Rightarrow> connection" where
  "client_connection i = \<lparr>conn_id = i, cbio = Some (ConnectionBIO 9), data_handler = Some 0, cfd = 9, error_handler = None\<rparr>"

lemmas lone_defs = lone_handler_def lone_server_def listener_entry_def client_entry_def client_connection_def

lemma lone_server_simps [simp]:
  "(lone_server h objs conns q s n m w)\<lparr>hnd := h'\<rparr> = lone_server h' objs conns q s n m w" "hnd (lone_server h objs conns q s n m w) = h"
  "descriptors_apart (lone_server h objs conns q s n m w) = distinct (map fd (callbacks h))"
  by (simp_all add: lone_server_def descriptors_apart_def)

lemma lone_handler_simps [simp]:
  "callbacks (lone_handler cs n ph w g pb) = cs" "fd (listener_entry a) = 4" "fd (client_entry i a) = 9"
  by (simp_all add: lone_defs)

lemma nothing_left [simp]: "(\<lambda>_. None)(i := None) = (\<lambda>_. None)"
  by auto

text \<open>
  A round of the worker: it selects and gathers what is ready; behind the calls, it starts again. The condition \<open>P\<close> has to
  be about the descriptors only.
\<close>

definition about_descriptors :: "('s server \<Rightarrow> bool) \<Rightarrow> bool" where
  "about_descriptors P \<longleftrightarrow> (\<forall>a b. map fd (callbacks (hnd a)) = map fd (callbacks (hnd b)) \<longrightarrow> P a = P b)"

lemma about_descriptorsD: "about_descriptors P \<Longrightarrow> P a \<Longrightarrow> map fd (callbacks (hnd b)) = map fd (callbacks (hnd a)) \<Longrightarrow> P b"
  unfolding about_descriptors_def by metis

lemma conditions: "about_descriptors descriptors_apart" "about_descriptors (\<lambda>_. True)"
  by (simp_all add: about_descriptors_def descriptors_apart_def)

lemma run_silent:
  assumes "server_run P E srv" "step (hnd srv) l h'" "silent l" "P (srv\<lparr>hnd := h'\<rparr>)"
  shows "server_run P E (srv\<lparr>hnd := h'\<rparr>)"
  by (rule server_run.step [OF assms(1) server_step.Worker [OF assms(3,2)] _ assms(4)]) simp

lemma run_main:
  assumes "server_run P E srv" "main_step E srv = Some (Done, srv')" "P srv'"
  shows "server_run P E srv'"
  by (rule server_run.step [OF assms(1) server_step.Main [OF assms(2)] _ assms(3)]) simp

lemma round_begins:
  assumes run: "server_run P E (lone_server (lone_handler cs n Collecting w g pb) objs conns q s k m No_call)"
    and P: "about_descriptors P" "P (lone_server (lone_handler cs n Collecting w g pb) objs conns q s k m No_call)"
    and "set ready \<subseteq> set (map fd (filter is_live cs))" "ready \<noteq> []"
  shows "server_run P E (lone_server (lone_handler (map collect_state cs) n (Calling (gather ready (map collect_state cs)) [] False) w g pb)
    objs conns q s k m No_call)"
proof -
  let ?h = "\<lambda>cs ph. lone_handler cs n ph w g pb" and ?srv = "\<lambda>h. lone_server h objs conns q s k m No_call"
  let ?cs = "map collect_state cs" and ?fds = "map fd (filter is_live cs)"
  have P': "P (?srv (?h ?cs ph))" for ph
    by (rule about_descriptorsD [OF P]) (simp add: lone_server_def lone_handler_def comp_def)
  have "step (?h cs Collecting) Collect (?h ?cs (Selecting ?fds))"
    using step.Collect [of "?h cs Collecting"] by (simp add: lone_handler_def collect_def)
  then have "server_run P E (?srv (?h ?cs (Selecting ?fds)))"
    using run_silent [OF run, of Collect] P' by (simp add: silent_def)
  moreover have "step (?h ?cs (Selecting ?fds)) (Select ready False) (?h ?cs (Ready ready False))"
    using step.Select [of "?h ?cs (Selecting ?fds)" ?fds ready False] assms(4,5) by (simp add: lone_handler_def)
  ultimately have "server_run P E (?srv (?h ?cs (Ready ready False)))"
    using run_silent [of P E "?srv (?h ?cs (Selecting ?fds))" "Select ready False"] P' by (simp add: silent_def)
  moreover have "step (?h ?cs (Ready ready False)) Gather (?h ?cs (Calling (gather ready ?cs) [] False))"
    using step.Gather [of "?h ?cs (Ready ready False)" ready False] by (simp add: lone_handler_def)
  ultimately show ?thesis
    using run_silent [of P E "?srv (?h ?cs (Ready ready False))" Gather] P' by (simp add: silent_def)
qed

lemma round_ends:
  assumes run: "server_run P E (lone_server (lone_handler cs n (Calling [] [] False) w g pb) objs conns q s k m No_call)"
    and P: "about_descriptors P" "P (lone_server (lone_handler cs n (Calling [] [] False) w g pb) objs conns q s k m No_call)"
  shows "server_run P E (lone_server (lone_handler cs n Collecting w g pb) objs conns q s k m No_call)"
proof -
  let ?h = "\<lambda>ph. lone_handler cs n ph w g pb" and ?srv = "\<lambda>h. lone_server h objs conns q s k m No_call"
  have P': "P (?srv (?h ph))" for ph by (rule about_descriptorsD [OF P]) (simp add: lone_server_def lone_handler_def)
  have "step (?h (Calling [] [] False)) Called (?h (Draining False))"
    using step.Called [of "?h (Calling [] [] False)" "[]" False] by (simp add: lone_handler_def after_calls_def)
  then have "server_run P E (?srv (?h (Draining False)))" using run_silent [OF run, of Called] P' by (simp add: silent_def)
  moreover have "step (?h (Draining False)) Drain (?h Collecting)"
    using step.Drain [of "?h (Draining False)" False] by (simp add: lone_handler_def)
  ultimately show ?thesis using run_silent [of P E "?srv (?h (Draining False))" Drain] P' by (simp add: silent_def)
qed

text \<open>The worker accepts a client, when the descriptor is free.\<close>

lemma accepts:
  assumes run: "server_run P lone_environment
      (lone_server (lone_handler cs n (Calling [(0, 4, OnNewConnection 0)] [] False) w g pb) objs conns q (False, d) k m No_call)"
    and "n = Suc k" "P (lone_server (lone_handler (cs @ [client_entry k pending_attachment]) (Suc n) (Calling [] [] False) w g (Suc pb))
      (objs(k \<mapsto> client_connection k)) (conns @ [k]) q (True, d) (Suc k) m No_call)"
  shows "server_run P lone_environment
    (lone_server (lone_handler (cs @ [client_entry k pending_attachment]) (Suc n) (Calling [] [] False) w g (Suc pb))
      (objs(k \<mapsto> client_connection k)) (conns @ [k]) q (True, d) (Suc k) m No_call)" (is "server_run P _ ?new")
proof -
  let ?srv = "lone_server (lone_handler cs n (Calling [(0, 4, OnNewConnection 0)] [] False) w g pb) objs conns q (False, d) k m No_call"
  let ?srv1 = "?new\<lparr>hnd := (hnd ?new)\<lparr>phase := Calling [(0, 4, OnNewConnection 0)] [] False\<rparr>\<rparr>"
  have "listener_accept lone_ssl k (listening ?srv) (os ?srv)
      = (Inr (Some ((client_connection k)\<lparr>data_handler := None\<rparr>)), (True, d))"
    by (simp add: listener_accept_def bio_accept_def st_defs positive_or_throw_def on_error_def lone_ssl_def lone_defs Connection_def
        bio_get_fd_def)
  then have "notify lone_environment (OnNewConnection 0) ?srv = (Done, ?srv1)"
    by (simp add: notify_def onNewConnection_def handleNewConnection_def getPeerAddress_def setNewDataHandler_def validate_default_def
        lone_environment_def attach_def notifyThread_def lone_defs assms(2))
  moreover have "step (hnd ?srv1) (Call 0 (OnNewConnection 0) (Done \<noteq> Done)) (hnd ?new)"
    using step.Call [of "hnd ?srv1" 0 4 "OnNewConnection 0" "[]" "[]" False False] by (simp add: lone_defs)
  ultimately have "server_step lone_environment ?srv Done (?srv1\<lparr>hnd := hnd ?new\<rparr>)"
    by (intro server_step.Notify) (auto simp: lone_defs)
  moreover have "?srv1\<lparr>hnd := hnd ?new\<rparr> = ?new" by (simp add: lone_defs)
  ultimately show ?thesis using server_run.step [OF run, of Done ?new] assms(3) by simp
qed

text \<open>The first client has sent one request, which asks to close the connection. The worker reads it and hands it over.\<close>

definition closing_text :: string where
  "closing_text = request_wire closing_request"

lemma closing_good: "good_request boost_ref closing_request" "connection closing_request = 0" "length closing_text = 43"
  "answer boost_ref closing_request = [Some Close]"
  using example_good(1)
  by (simp_all add: closing_request_def good_request_def good_start_line_def good_body_def example_get_def Request_def
      isIgnorableWhiteSpace_def closing_text_def request_wire_def start_line_def header_block_Cons header_line_def answer_def)

lemma request_read:
  obtains s' where "onDataReady boost_ref lone_ssl (client_connection 0) None [] (b, closing_text)
    = Some (Done, None, [closing_request], s')" "snd s' = []"
proof -
  have 1: "cbio (client_connection 0) = Some (ConnectionBIO 9)" "conn_id (client_connection 0) = 0" by (simp_all add: client_connection_def)
  have 2: "snd (b, closing_text) = concat (map request_wire [closing_request])" by (simp add: closing_text_def)
  have 3: "length (snd (b, closing_text)) mod 4096 \<noteq> 0" "length (snd (b, closing_text)) < 2 ^ 63" using closing_good(3) by simp_all
  obtain s' where "onDataReady boost_ref lone_ssl (client_connection 0) None [] (b, closing_text)
      = Some (Done, None, fold handle [closing_request] [], s')" "snd s' = []"
    by (rule onDataReady_requests [OF lone_laws(2) 1(1) _ _ 2 3, where L = boost_ref and queue = "[]"]) (use closing_good 1 in auto)
  then show ?thesis by (intro that) (simp_all add: handle_def)
qed

text \<open>
  The main thread has closed the connection for the client and still holds it; \<open>select\<close> has failed for its descriptor, so that the
  worker has taken it out of the list of connections.
\<close>

definition closed_and_held :: "(bool \<times> string) server" where
  "closed_and_held = lone_server (lone_handler [listener_entry attached, client_entry 0 pending_detachment] 2 (Removing []) [] [] 2)
     [0 \<mapsto> (client_connection 0)\<lparr>cbio := None\<rparr>] [] [] (False, []) 1 (Serving 0 []) No_call"

lemma run_closed_and_held: "server_run descriptors_apart lone_environment closed_and_held"
proof -
  let ?E = lone_environment and ?L = listener_entry and ?A = "client_entry 0" and ?c = "client_connection 0"
  let ?run = "\<lambda>cs n ph pb objs conns q s k m w. server_run descriptors_apart ?E
    (lone_server (lone_handler cs n ph [] [] pb) objs conns q s k m w)"
  note apart = descriptors_apart_def lone_defs
  have E: "boost ?E = boost_ref" "ssl ?E = lone_ssl" by (simp_all add: lone_environment_def)
  have "?run [?L pending_attachment] 1 Collecting 1 Map.empty [] [] (False, closing_text) 0 Fetching No_call"
  proof -
    let ?l = "\<lparr>listener_id = 0, lbio = Some (AcceptBio 4), new_connection_handler = None\<rparr>"
    have "setNewConnectionHandler (ssl ?E) 0 ?l ConnectionHandler (False, closing_text)
        = (Inr (), ?l\<lparr>new_connection_handler := Some 0\<rparr>, attach 4 (OnNewConnection 0) None ConnectionHandler)"
      by (simp add: setNewConnectionHandler_def bio_get_fd_def E lone_ssl_def)
    from server_run.start [OF _ this, where P = descriptors_apart and b = 4]
    show ?thesis by (simp add: initial_server_def attach_def notifyThread_def ConnectionHandler_def lone_defs)
  qed
  from round_begins [OF this conditions(1), where ready = "[4]"]
  have "?run [?L attached] 1 (Calling [(0, 4, OnNewConnection 0)] [] False) 1 Map.empty [] [] (False, closing_text) 0 Fetching No_call"
    by (simp add: apart is_live_def gather_def collect_state_def)
  from accepts [OF this] have "?run [?L attached, ?A pending_attachment] 2 (Calling [] [] False) 2 [0 \<mapsto> ?c] [0] []
      (True, closing_text) 1 Fetching No_call" by (simp add: apart numeral_2_eq_2)
  from round_ends [OF this conditions(1)] have "?run [?L attached, ?A pending_attachment] 2 Collecting 2 [0 \<mapsto> ?c] [0] []
      (True, closing_text) 1 Fetching No_call" by (simp add: apart)
  from round_begins [OF this conditions(1), where ready = "[9]"]
  have "?run [?L attached, ?A attached] 2 (Calling [(1, 9, OnDataReady 0)] [] False) 2 [0 \<mapsto> ?c] [0] []
      (True, closing_text) 1 Fetching No_call" by (simp add: apart is_live_def gather_def collect_state_def)
  note called = this
  let ?at = "\<lambda>q s m w. lone_server (lone_handler [?L attached, ?A attached] 2 (Calling [(1, 9, OnDataReady 0)] [] False) [] [] 2)
    [0 \<mapsto> ?c] [0] q s 1 m w"
  have apart': "descriptors_apart (?at q s m w)" for q s m w by (simp add: apart)
  have "server_step ?E (?at [] (True, closing_text) Fetching No_call) Done (?at [] (True, closing_text) Fetching (Entered 0))"
    by (rule server_step.Enter [where k = 1 and f = 9 and j = 0 and cs = "[]" and fs = "[]" and p = False])
      (simp_all add: notify_def onDataReady_enter_def onDataReady_ref_def held_def lone_defs)
  from server_run.step [OF called this _ apart'] have entered: "server_run descriptors_apart ?E (?at [] (True, closing_text) Fetching (Entered 0))"
    by simp
  obtain s1 where s1: "onDataReady boost_ref lone_ssl ?c None [] (True, closing_text) = Some (Done, None, [closing_request], s1)" "snd s1 = []"
    by (rule request_read)
  have "server_step ?E (?at [] (True, closing_text) Fetching (Entered 0)) Done (?at [] s1 Fetching (Handing 0 Done [closing_request]))"
    by (rule server_step.Within) (use s1(1) in \<open>simp_all add: call_step_def E lone_server_def\<close>)
  from server_run.step [OF entered this _ apart']
  have "server_run descriptors_apart ?E (?at [] s1 Fetching (Handing 0 Done [closing_request]))" by simp
  moreover have "server_step ?E (?at [] s1 Fetching (Handing 0 Done [closing_request])) Done
      (?at [closing_request] s1 Fetching (Handing 0 Done []))"
    by (rule server_step.Within) (simp_all add: call_step_def handle_def lone_server_def)
  ultimately have handed: "server_run descriptors_apart ?E (?at [closing_request] s1 Fetching (Handing 0 Done []))"
    using apart' server_run.step by fastforce
  have "server_step ?E (?at [closing_request] s1 Fetching (Handing 0 Done [])) Done
      (lone_server (lone_handler [?L attached, ?A attached] 2 (Calling [] [] False) [] [] 2) [0 \<mapsto> ?c] [0] [closing_request] s1 1 Fetching No_call)"
    by (rule server_step.Leave [where k = 1 and f = 9 and j = 0 and cs = "[]" and fs = "[]" and p = False and st = Done, OF _ _ step.Call [where f = 9 and cs = "[]" and fs = "[]" and p = False]])
      (simp_all add: call_step_def unreference_def held_def lone_defs)
  from server_run.step [OF handed this]
  have "?run [?L attached, ?A attached] 2 (Calling [] [] False) 2 [0 \<mapsto> ?c] [0] [closing_request] s1 1 Fetching No_call" by (simp add: apart)
  from round_ends [OF this conditions(1)]
  have "?run [?L attached, ?A attached] 2 Collecting 2 [0 \<mapsto> ?c] [0] [closing_request] s1 1 Fetching No_call" by (simp add: apart)
  from run_main [OF this]
  have "?run [?L attached, ?A attached] 2 Collecting 2 [0 \<mapsto> ?c] [0] [] s1 1 (Taken closing_request) No_call"
    by (simp add: apart main_step_def getNextRequest_def)
  from run_main [OF this]
  have "?run [?L attached, ?A attached] 2 Collecting 2 [0 \<mapsto> ?c] [0] [] s1 1 (Serving 0 [Some Close]) No_call"
    by (simp add: apart main_step_def held_def closing_good E)
  from run_main [OF this]
  have "?run [?L attached, ?A attached] 2 Collecting 2 [0 \<mapsto> ?c\<lparr>cbio := None\<rparr>] [0] [] (False, []) 1 (Serving 0 []) No_call"
    using s1(2) by (simp add: apart main_step_def perform_reply_def connection_close_def bio_destroy_def E lone_ssl_def)
  note closed = this
  let ?in = "\<lambda>ph. lone_server (lone_handler [?L attached, ?A attached] 2 ph [] [] 2) [0 \<mapsto> ?c\<lparr>cbio := None\<rparr>] [0] [] (False, []) 1 (Serving 0 []) No_call"
  have apart'': "descriptors_apart (?in ph)" for ph by (simp add: apart)
  have "step (hnd (?in Collecting)) Collect (lone_handler [?L attached, ?A attached] 2 (Selecting [4, 9]) [] [] 2)"
    using step.Collect [of "hnd (?in Collecting)"] by (simp add: lone_defs collect_def collect_state_def is_live_def)
  from run_silent [OF closed this] have "server_run descriptors_apart ?E (?in (Selecting [4, 9]))" by (simp add: silent_def apart'')
  moreover have "step (hnd (?in (Selecting [4, 9]))) Fail (lone_handler [?L attached, ?A attached] 2 SelectFailed [] [] 2)"
    using step.Fail [of "hnd (?in (Selecting [4, 9]))" "[4, 9]"] by (simp add: lone_defs)
  ultimately have "server_run descriptors_apart ?E (?in SelectFailed)"
    using run_silent [of descriptors_apart ?E "?in (Selecting [4, 9])" Fail] by (simp add: silent_def apart'')
  moreover have "step (hnd (?in SelectFailed)) (Test [9]) (lone_handler [?L attached, ?A attached] 2 (Removing [9]) [] [] 2)"
    using step.Test [of "hnd (?in SelectFailed)" "[9]"] by (simp add: lone_defs bad_fds_def after_calls_def)
  ultimately have removing: "server_run descriptors_apart ?E (?in (Removing [9]))"
    using run_silent [of descriptors_apart ?E "?in SelectFailed" "Test [9]"] by (simp add: silent_def apart'')
  have "step (hnd (?in (Removing [9]))) (label.Report 9) (lone_handler [?L attached, ?A pending_detachment] 2 (Removing []) [] [] 2)"
    using step.Report [of "hnd (?in (Removing [9]))" 9 "[]"] by (simp add: lone_defs remove_first_def set_attachment_def)
  then have "server_step ?E (?in (Removing [9])) Done closed_and_held"
    by (rule server_step.ReportTo [where cb = "ClientCallback 0"])
      (simp_all add: closed_and_held_def error_call_def notify_def ErrorHandler_def unreference_def held_def lone_defs)
  from server_run.step [OF removing this] show ?thesis by (simp add: closed_and_held_def apart)
qed

section \<open>No connection is used behind its end\<close>

text \<open>
  C5: in every run of the server in which no descriptor is watched twice, whatever clients send and however the steps of the worker and of the
  main thread interleave, no step crashes: the worker calls nothing for a connection that was destroyed, the destructor, in
  whatever thread it runs, does not throw and finds its entry, no null pointer is used, no response is made from a code
  without reason string. A connection exists as long as the list, the main thread or the worker has a reference to
  it, or the main thread waits in its destructor, so that none is leaked; and each entry of a connection leads to an
  object that exists and has its descriptor.
\<close>

theorem server_never_crashes:
  assumes "server_run descriptors_apart E srv" "has_descriptors (ssl E)"
  shows "\<not> server_step E srv Crashed srv'
    \<and> (\<forall>i. i \<in> dom (objects srv) \<longleftrightarrow> held srv i \<or> dropped (main_at srv) = Some i) \<and> distinct (connections srv)
    \<and> (\<forall>e \<in> set (callbacks (hnd srv)). \<forall>j. on_select e = OnDataReady j \<longrightarrow> (\<exists>c. objects srv j = Some c \<and> cfd c = fd e))"
proof -
  have ok: "server_ok srv" using assms by (rule server_run_ok)
  have "\<exists>c. objects srv j = Some c \<and> cfd c = fd e" if "e \<in> set (callbacks (hnd srv))" "on_select e = OnDataReady j" for e j
    using handler_okD(5) [OF server_okD(1) [OF ok] that(1)] that(2) by (auto simp: entry_ok_def descriptors_def)
  moreover have "\<not> server_step E srv Crashed srv'" using server_step_ok [OF _ ok assms(2)] by blast
  ultimately show ?thesis using server_okD(4,7) [OF ok] by blast
qed

theorem server_never_crashes_witness:
  "(\<nexists>srv'. server_step lone_environment closed_and_held Crashed srv') \<and> connections closed_and_held = []
    \<and> dom (objects closed_and_held) = {0} \<and> held closed_and_held 0"
  using server_never_crashes [OF run_closed_and_held lone_laws(1)]
  by (simp add: closed_and_held_def lone_server_def held_def)

section \<open>A descriptor that is used again\<close>

text \<open>
  C22: the condition is needed. There is a run of the server with a client that asks to close its connection, on a system that gives
  out a descriptor only when it is free, in which the worker calls a connection that was destroyed. The main
  thread closes the descriptor while it holds the last reference. A new client gets the descriptor, and the entry of the old
  connection, detached, is still in the list. The main thread starts to destroy the connection; the worker acknowledges, and,
  as it gathers every entry with a descriptor that is ready, whatever its state, copies the call-back of the old one;
  the main thread ends the destructor; the worker calls.
\<close>

theorem reused_descriptor_crashes_server:
  "\<exists>srv srv' k i f cs fs p. server_run (\<lambda>_. True) lone_environment srv \<and> has_descriptors (ssl lone_environment)
    \<and> phase (hnd srv) = Calling ((k, f, OnDataReady i) # cs) fs p \<and> i < next_object srv \<and> i \<notin> dom (objects srv)
    \<and> server_step lone_environment srv Crashed srv'"
proof -
  let ?E = lone_environment and ?L = listener_entry and ?A = "client_entry 0" and ?B = "client_entry 1"
  let ?a = "(client_connection 0)\<lparr>cbio := None\<rparr>" and ?b = "client_connection 1"
  let ?run = "\<lambda>cs n ph w g pb objs conns s k m. server_run (\<lambda>_. True) ?E (lone_server (lone_handler cs n ph w g pb) objs conns [] s k m No_call)"
  have "server_run (\<lambda>_. True) ?E closed_and_held" using server_run_mono [OF run_closed_and_held] by simp
  moreover have "step (hnd closed_and_held) Removed (lone_handler [?L attached, ?A pending_detachment] 2 Collecting [] [] 2)"
    using step.Removed [of "hnd closed_and_held"] by (simp add: closed_and_held_def lone_defs)
  ultimately have "?run [?L attached, ?A pending_detachment] 2 Collecting [] [] 2 [0 \<mapsto> ?a] [] (False, []) 1 (Serving 0 [])"
    using run_silent [of "\<lambda>_. True" ?E closed_and_held Removed] by (simp add: silent_def closed_and_held_def lone_server_def)
  from round_begins [OF this conditions(2), where ready = "[4]"]
  have "?run [?L attached, ?A detached] 2 (Calling [(0, 4, OnNewConnection 0)] [] False) [] [] 2 [0 \<mapsto> ?a] [] (False, []) 1 (Serving 0 [])"
    by (simp add: lone_defs is_live_def gather_def collect_state_def)
  from accepts [OF this]
  have "?run [?L attached, ?A detached, ?B pending_attachment] 3 (Calling [] [] False) [] [] 3 [0 \<mapsto> ?a, 1 \<mapsto> ?b] [1] (True, []) 2 (Serving 0 [])"
    by (simp add: numeral_2_eq_2 numeral_3_eq_3)
  from round_ends [OF this conditions(2)]
  have "?run [?L attached, ?A detached, ?B pending_attachment] 3 Collecting [] [] 3 [0 \<mapsto> ?a, 1 \<mapsto> ?b] [1] (True, []) 2 (Serving 0 [])" by simp
  from run_main [OF this]
  have "?run [?L attached, ?A pending_detachment, ?B pending_attachment] 3 Collecting [1] [] 4 [0 \<mapsto> ?a, 1 \<mapsto> ?b] [1] (True, []) 2 (Dropping 0 1)"
    by (simp add: main_step_def drop_connection_def held_def lock_held_def detach_begin_def notifyThread_def set_attachment_def lone_defs)
  from round_begins [OF this conditions(2), where ready = "[9]"]
  have "?run [?L attached, ?A detached, ?B attached] 3 (Calling [(1, 9, OnDataReady 0), (2, 9, OnDataReady 1)] [] False) [1] [] 4
      [0 \<mapsto> ?a, 1 \<mapsto> ?b] [1] (True, []) 2 (Dropping 0 1)"
    by (simp add: lone_defs is_live_def gather_def collect_state_def numeral_2_eq_2)
  from run_main [OF this]
  have "?run [?L attached, ?B attached] 3 (Calling [(1, 9, OnDataReady 0), (2, 9, OnDataReady 1)] [] False) [] [1] 4
      [1 \<mapsto> ?b] [1] (True, []) 2 Fetching"
    by (simp add: main_step_def drop_detached_def lock_held_def detach_end_def erase_def free_connection_def connection_close_def lone_defs)
  note run = this
  let ?srv = "\<lambda>cs fs. lone_server (lone_handler [?L attached, ?B attached] 3 (Calling cs fs False) [] [1] 4) [1 \<mapsto> ?b] [1] [] (True, []) 2 Fetching No_call"
  let ?calls = "[(1, 9, OnDataReady 0), (2, 9, OnDataReady 1)]"
  have crash: "server_step ?E (?srv ?calls []) Crashed (?srv ?calls []\<lparr>hnd := hnd (?srv (tl ?calls) [9])\<rparr>)"
    by (rule server_step.Enter_not [where k = 1 and f = 9 and j = 0 and cs = "tl ?calls" and fs = "[]" and p = False])
      (use step.Call [of "hnd (?srv ?calls [])" 1 9 "OnDataReady 0" "tl ?calls" "[]" False True] in
        \<open>simp_all add: notify_def onDataReady_enter_def lone_defs\<close>)
  show ?thesis
  proof (intro exI conjI)
    show "server_run (\<lambda>_. True) ?E (?srv ?calls [])" by (rule run)
    show "phase (hnd (?srv ?calls [])) = Calling ((1, 9, OnDataReady 0) # tl ?calls) [] False" by (simp add: lone_handler_def)
    show "0 < next_object (?srv ?calls [])" "0 \<notin> dom (objects (?srv ?calls []))" by (simp_all add: lone_server_def)
  qed (rule lone_laws(1) crash)+
qed

end
