(* ===== verification/Context.thy ===== *)
theory Context
  imports SslErrors "HOL-Library.Multiset"
begin

text \<open>
  \<^verbatim>\<open>lib/Scorpion/Context.h\<close> and \<^verbatim>\<open>Context.cpp\<close>: the settings of a security context and the
  OpenSSL context that is made from them when it is first asked for. Copies share one box
  with the pointer to it (a \<open>shared_ptr< SSL_CTX * >\<close>) until one of them is written to.
\<close>

unbundle bit_operations_syntax

section \<open>Flags\<close>

text \<open>The enumerators of \<open>Flags\<close>; the C type is a 32-bit \<open>int\<close>.\<close>

definition use_sslv2 :: "32 word" where "use_sslv2 = 0x1"
definition use_sslv3 :: "32 word" where "use_sslv3 = 0x2"
definition use_tlsv1 :: "32 word" where "use_tlsv1 = 0x4"
definition use_secure_transports :: "32 word" where "use_secure_transports = 0x6"
definition use_all_transports :: "32 word" where "use_all_transports = 0x7"
definition use_openssl_default_trusted_ca_certificates :: "32 word" where
  "use_openssl_default_trusted_ca_certificates = 0x8"
definition use_peer_certificate_verification :: "32 word" where "use_peer_certificate_verification = 0x10"
definition fail_if_no_peer_certificate :: "32 word" where "fail_if_no_peer_certificate = 0x30"
definition verify_client_certificate_only_once :: "32 word" where "verify_client_certificate_only_once = 0x50"
definition verification_mask :: "32 word" where "verification_mask = 0x70"
definition no_session_resumption_negociation :: "32 word" where "no_session_resumption_negociation = 0x10000"
definition no_tickets :: "32 word" where "no_tickets = 0x20000"
definition work_around_all_bugs :: "32 word" where "work_around_all_bugs = 0x0608ff80"
definition enable_partial_write :: "32 word" where "enable_partial_write = 0x10000000"
definition enable_auto_retry :: "32 word" where "enable_auto_retry = 0x20000000"

definition default_options :: "32 word" where
  "default_options = use_secure_transports OR use_peer_certificate_verification OR fail_if_no_peer_certificate
     OR enable_auto_retry"

definition insecure_default_options :: "32 word" where
  "insecure_default_options = use_sslv2 OR use_secure_transports OR enable_auto_retry OR work_around_all_bugs"

lemmas flag_defs = use_sslv2_def use_sslv3_def use_tlsv1_def use_secure_transports_def use_all_transports_def
  use_openssl_default_trusted_ca_certificates_def use_peer_certificate_verification_def
  fail_if_no_peer_certificate_def verify_client_certificate_only_once_def verification_mask_def
  no_session_resumption_negociation_def no_tickets_def work_around_all_bugs_def enable_partial_write_def
  enable_auto_retry_def default_options_def insecure_default_options_def

section \<open>OpenSSL contexts\<close>

text \<open>
  The constants of OpenSSL are names: a disjunction of bits is the list of the names, in the
  order in which they are added.
\<close>

datatype ssl_method = SSLv2_method | SSLv3_method | TLSv1_method | SSLv23_method

datatype ssl_verify = VERIFY_PEER | VERIFY_FAIL_IF_NO_PEER_CERT | VERIFY_CLIENT_ONCE

datatype ssl_op =
    OP_MICROSOFT_SESS_ID_BUG | OP_NETSCAPE_CHALLENGE_BUG | OP_NETSCAPE_REUSE_CIPHER_CHANGE_BUG
  | OP_SSLREF2_REUSE_CERT_TYPE_BUG | OP_MICROSOFT_BIG_SSLV3_BUFFER | OP_MSIE_SSLV2_RSA_PADDING
  | OP_SSLEAY_080_CLIENT_DH_BUG | OP_TLS_D5_BUG | OP_TLS_BLOCK_PADDING_BUG | OP_TLS_ROLLBACK_BUG
  | OP_NETSCAPE_CA_DN_BUG | OP_NETSCAPE_DEMO_CIPHER_CHANGE_BUG | OP_DONT_INSERT_EMPTY_FRAGMENTS
  | OP_SINGLE_DH_USE | OP_EPHEMERAL_RSA | OP_CIPHER_SERVER_PREFERENCE | OP_PKCS1_CHECK_1 | OP_PKCS1_CHECK_2
  | OP_NO_SSLv2 | OP_NO_SSLv3 | OP_NO_TLSv1 | OP_NO_SESSION_RESUMPTION_ON_RENEGOTIATION | OP_NO_TICKET

datatype ssl_mode = MODE_ENABLE_PARTIAL_WRITE | MODE_AUTO_RETRY

text \<open>The calls that set a context up.\<close>

datatype ctx_call =
    Set_default_passwd_cb nat
  | Load_verify_locations "string option" "string option"
  | Set_default_verify_paths
  | Use_certificate_chain_file string
  | Use_PrivateKey_file string
  | Use_certificate_file string
  | Set_verify "ssl_verify list"
  | Set_verify_depth "32 word"
  | Set_options "ssl_op list"
  | Set_mode "ssl_mode list"
  | Set_cipher_list string

text \<open>
  The part of OpenSSL that is used: a context is a number, \<open>CTX_call\<close> carries a call out and
  gives its return value.
\<close>

record 's ssl_ctx_lib =
  CTX_new :: "ssl_method \<Rightarrow> 's \<Rightarrow> nat option \<times> 's"
  CTX_free :: "nat \<Rightarrow> 's \<Rightarrow> 's"
  CTX_call :: "nat \<Rightarrow> ctx_call \<Rightarrow> 's \<Rightarrow> int \<times> 's"
  CTX_error :: "'s \<Rightarrow> error_line \<times> 's"

section \<open>Settings\<close>

text \<open>File names are strings, the empty one being no file. \<open>box\<close> is the address of the shared box.\<close>

record security_context =
  sc_flags :: "32 word"
  server_certificate_name :: string
  certificate_chain_filename :: string
  private_key_filename :: string
  trusted_ca_certificates_filename :: string
  trusted_ca_certificates_directory_name :: string
  password_getter :: "nat option"
  certificate_verification_depth :: "32 word"
  box :: nat

definition has_flag :: "32 word \<Rightarrow> security_context \<Rightarrow> bool" where
  "has_flag f c \<longleftrightarrow> sc_flags c AND f \<noteq> 0"

definition choose_method :: "32 word \<Rightarrow> ssl_method" where
  "choose_method flags = (let t = flags AND use_all_transports in
     if t = use_sslv2 then SSLv2_method
     else if t = use_sslv3 then SSLv3_method
     else if t = use_tlsv1 then TLSv1_method
     else SSLv23_method)"

text \<open>\<open>None\<close> is the assertion of the default branch.\<close>

definition verification_flags :: "32 word \<Rightarrow> ssl_verify list option" where
  "verification_flags flags = (let v = flags AND verification_mask in
     if v = 0 then Some []
     else if v = use_peer_certificate_verification then Some [VERIFY_PEER]
     else if v = fail_if_no_peer_certificate then Some [VERIFY_PEER, VERIFY_FAIL_IF_NO_PEER_CERT]
     else if v = verify_client_certificate_only_once then Some [VERIFY_PEER, VERIFY_CLIENT_ONCE]
     else if v = verification_mask then Some [VERIFY_PEER, VERIFY_FAIL_IF_NO_PEER_CERT, VERIFY_CLIENT_ONCE]
     else None)"

text \<open>Each flag and the option that it sets; the transports clear theirs.\<close>

definition option_table :: "(32 word \<times> ssl_op) list" where
  "option_table =
     [(0x80, OP_MICROSOFT_SESS_ID_BUG), (0x100, OP_NETSCAPE_CHALLENGE_BUG),
      (0x200, OP_NETSCAPE_REUSE_CIPHER_CHANGE_BUG), (0x400, OP_SSLREF2_REUSE_CERT_TYPE_BUG),
      (0x800, OP_MICROSOFT_BIG_SSLV3_BUFFER), (0x1000, OP_MSIE_SSLV2_RSA_PADDING),
      (0x2000, OP_SSLEAY_080_CLIENT_DH_BUG), (0x4000, OP_TLS_D5_BUG), (0x8000, OP_TLS_BLOCK_PADDING_BUG),
      (0x80000, OP_TLS_ROLLBACK_BUG), (0x2000000, OP_NETSCAPE_CA_DN_BUG),
      (0x4000000, OP_NETSCAPE_DEMO_CIPHER_CHANGE_BUG), (0x40000, OP_DONT_INSERT_EMPTY_FRAGMENTS),
      (0x100000, OP_SINGLE_DH_USE), (0x200000, OP_EPHEMERAL_RSA), (0x400000, OP_CIPHER_SERVER_PREFERENCE),
      (0x800000, OP_PKCS1_CHECK_1), (0x1000000, OP_PKCS1_CHECK_2)]"

definition option_flags :: "32 word \<Rightarrow> ssl_op list" where
  "option_flags flags =
     map snd (filter (\<lambda>(f, _). flags AND f \<noteq> 0) option_table)
     @ (if flags AND use_sslv2 \<noteq> 0 then [] else [OP_NO_SSLv2])
     @ (if flags AND use_sslv3 \<noteq> 0 then [] else [OP_NO_SSLv3])
     @ (if flags AND use_tlsv1 \<noteq> 0 then [] else [OP_NO_TLSv1])
     @ (if flags AND no_session_resumption_negociation \<noteq> 0 then [OP_NO_SESSION_RESUMPTION_ON_RENEGOTIATION] else [])
     @ (if flags AND no_tickets \<noteq> 0 then [OP_NO_TICKET] else [])"

definition mode_flags :: "32 word \<Rightarrow> ssl_mode list" where
  "mode_flags flags =
     (if flags AND enable_partial_write \<noteq> 0 then [MODE_ENABLE_PARTIAL_WRITE] else [])
     @ (if flags AND enable_auto_retry \<noteq> 0 then [MODE_AUTO_RETRY] else [])"

definition default_cipher_list :: string where
  "default_cipher_list = ''ALL:!ADH:!LOW:!EXP:!MD5:@STRENGTH''"

definition filename :: "string \<Rightarrow> string option" where
  "filename f = (if f = [] then None else Some f)"

text \<open>The calls before the verification flags are computed and those behind, each with whether its result is checked.\<close>

definition file_calls :: "security_context \<Rightarrow> (ctx_call \<times> bool) list" where
  "file_calls c =
     (case password_getter c of None \<Rightarrow> [] | Some g \<Rightarrow> [(Set_default_passwd_cb g, False)])
     @ (if trusted_ca_certificates_filename c \<noteq> [] \<or> trusted_ca_certificates_directory_name c \<noteq> []
        then [(Load_verify_locations (filename (trusted_ca_certificates_filename c))
                 (filename (trusted_ca_certificates_directory_name c)), True)] else [])
     @ (if has_flag use_openssl_default_trusted_ca_certificates c then [(Set_default_verify_paths, True)] else [])
     @ (if certificate_chain_filename c \<noteq> [] then [(Use_certificate_chain_file (certificate_chain_filename c), True)] else [])
     @ (if private_key_filename c \<noteq> [] then [(Use_PrivateKey_file (private_key_filename c), True)] else [])
     @ (if server_certificate_name c \<noteq> [] then [(Use_certificate_file (server_certificate_name c), True)] else [])"

definition setting_calls :: "security_context \<Rightarrow> ssl_verify list \<Rightarrow> (ctx_call \<times> bool) list" where
  "setting_calls c verification =
     [(Set_verify verification, False), (Set_verify_depth (certificate_verification_depth c), False),
      (Set_options (option_flags (sc_flags c)), False), (Set_mode (mode_flags (sc_flags c)), False),
      (Set_cipher_list default_cipher_list, True)]"

section \<open>Boxes\<close>

text \<open>What a \<open>shared_ptr\<close> points to: the pointer to the OpenSSL context, and how many share it.\<close>

record shared_box =
  pointer :: "nat option"
  uses :: nat

record 's ctx_heap =
  boxes :: "nat \<rightharpoonup> shared_box"
  next_box :: nat
  ossl :: 's

definition new_box :: "'s ctx_heap \<Rightarrow> nat \<times> 's ctx_heap" where
  "new_box w = (next_box w, w\<lparr>boxes := (boxes w)(next_box w \<mapsto> \<lparr>pointer = None, uses = 1\<rparr>), next_box := Suc (next_box w)\<rparr>)"

definition freeSSLContext :: "'s ssl_ctx_lib \<Rightarrow> nat option \<Rightarrow> 's \<Rightarrow> 's" where
  "freeSSLContext lib p s = (case p of None \<Rightarrow> s | Some p \<Rightarrow> CTX_free lib p s)"

definition drop_box :: "'s ssl_ctx_lib \<Rightarrow> nat \<Rightarrow> 's ctx_heap \<Rightarrow> 's ctx_heap" where
  "drop_box lib b w = (case boxes w b of None \<Rightarrow> w
     | Some x \<Rightarrow> if uses x = 1 then w\<lparr>boxes := (boxes w)(b := None), ossl := freeSSLContext lib (pointer x) (ossl w)\<rparr>
                 else w\<lparr>boxes := (boxes w)(b \<mapsto> x\<lparr>uses := uses x - 1\<rparr>)\<rparr>)"

section \<open>Operations\<close>

definition Context :: "32 word \<Rightarrow> 32 word \<Rightarrow> 's ctx_heap \<Rightarrow> security_context \<times> 's ctx_heap" where
  "Context flags depth w = (case new_box w of (b, w') \<Rightarrow>
     (\<lparr>sc_flags = flags, server_certificate_name = [], certificate_chain_filename = [], private_key_filename = [],
       trusted_ca_certificates_filename = [], trusted_ca_certificates_directory_name = [], password_getter = None,
       certificate_verification_depth = depth, box = b\<rparr>, w'))"

definition Context_copy :: "security_context \<Rightarrow> 's ctx_heap \<Rightarrow> security_context \<times> 's ctx_heap" where
  "Context_copy c w = (c, w\<lparr>boxes := (boxes w)(box c := map_option (\<lambda>x. x\<lparr>uses := Suc (uses x)\<rparr>) (boxes w (box c)))\<rparr>)"

definition Context_destroy :: "'s ssl_ctx_lib \<Rightarrow> security_context \<Rightarrow> 's ctx_heap \<Rightarrow> 's ctx_heap" where
  "Context_destroy lib c w = drop_box lib (box c) w"

definition Context_swap :: "security_context \<Rightarrow> security_context \<Rightarrow> security_context \<times> security_context" where
  "Context_swap c d = (d, c)"

text \<open>Assignment: a copy of the right-hand side is swapped in, and destroyed with the old settings.\<close>

definition Context_assign ::
  "'s ssl_ctx_lib \<Rightarrow> security_context \<Rightarrow> security_context \<Rightarrow> 's ctx_heap \<Rightarrow> security_context \<times> 's ctx_heap" where
  "Context_assign lib c rhs w = (case Context_copy rhs w of (tmp, w') \<Rightarrow>
     (case Context_swap c tmp of (c', old) \<Rightarrow> (c', Context_destroy lib old w')))"

definition copyOnWrite :: "'s ssl_ctx_lib \<Rightarrow> security_context \<Rightarrow> 's ctx_heap \<Rightarrow> security_context \<times> 's ctx_heap" where
  "copyOnWrite lib c w = (case boxes w (box c) of
      Some x \<Rightarrow>
        if pointer x \<noteq> None then (case new_box w of (b, w') \<Rightarrow> (c\<lparr>box := b\<rparr>, drop_box lib (box c) w'))
        else (c, w)
    | None \<Rightarrow> (c, w))"

text \<open>Every setter: \<open>copyOnWrite\<close>, then the assignment \<open>f\<close>.\<close>

definition write_setting :: "'s ssl_ctx_lib \<Rightarrow> (security_context \<Rightarrow> security_context) \<Rightarrow> security_context \<Rightarrow> 's ctx_heap
    \<Rightarrow> security_context \<times> 's ctx_heap" where
  "write_setting lib f c w = (case copyOnWrite lib c w of (c', w') \<Rightarrow> (f c', w'))"

definition setServerCertificateFilename where
  "setServerCertificateFilename lib f = write_setting lib (\<lambda>c. c\<lparr>server_certificate_name := f\<rparr>)"
definition setCertificateChainFilename where
  "setCertificateChainFilename lib f = write_setting lib (\<lambda>c. c\<lparr>certificate_chain_filename := f\<rparr>)"
definition setTrustedCACertificatesFilename where
  "setTrustedCACertificatesFilename lib f = write_setting lib (\<lambda>c. c\<lparr>trusted_ca_certificates_filename := f\<rparr>)"
definition setTrustedCACertificatesDirectoryName where
  "setTrustedCACertificatesDirectoryName lib f = write_setting lib (\<lambda>c. c\<lparr>trusted_ca_certificates_directory_name := f\<rparr>)"
definition setPrivateKeyFilename where
  "setPrivateKeyFilename lib f = write_setting lib (\<lambda>c. c\<lparr>private_key_filename := f\<rparr>)"
definition setFlags where
  "setFlags lib f = write_setting lib (\<lambda>c. c\<lparr>sc_flags := f\<rparr>)"
definition setPasswordGetter where
  "setPasswordGetter lib g = write_setting lib (\<lambda>c. c\<lparr>password_getter := g\<rparr>)"
definition setCertificateVerificationDepth where
  "setCertificateVerificationDepth lib d = write_setting lib (\<lambda>c. c\<lparr>certificate_verification_depth := d\<rparr>)"

lemmas setter_defs = setServerCertificateFilename_def setCertificateChainFilename_def
  setTrustedCACertificatesFilename_def setTrustedCACertificatesDirectoryName_def setPrivateKeyFilename_def
  setFlags_def setPasswordGetter_def setCertificateVerificationDepth_def

section \<open>getContext\<close>

fun carry_out :: "'s ssl_ctx_lib \<Rightarrow> nat \<Rightarrow> (ctx_call \<times> bool) list \<Rightarrow> 's \<Rightarrow> (exn + unit) \<times> 's" where
  "carry_out lib p [] s = (Inr (), s)"
| "carry_out lib p ((k, checked) # ks) s = (case CTX_call lib p k s of (rc, s') \<Rightarrow>
     if checked \<and> rc \<noteq> 1 then (case CTX_error lib s' of (i, s'') \<Rightarrow> (Inl (SSLError SSLContextSetupError i), s''))
     else carry_out lib p ks s')"

definition set_up :: "'s ssl_ctx_lib \<Rightarrow> nat \<Rightarrow> security_context \<Rightarrow> 's \<Rightarrow> (exn + unit) \<times> 's" where
  "set_up lib p c = bind_st (carry_out lib p (file_calls c)) (\<lambda>_.
     case verification_flags (sc_flags c) of
       None \<Rightarrow> throw_st (logic_error ''This should never happen'')
     | Some v \<Rightarrow> carry_out lib p (setting_calls c v))"

text \<open>The pointer is stored in the box as soon as the context is allocated.\<close>

definition getContext :: "'s ssl_ctx_lib \<Rightarrow> security_context \<Rightarrow> 's ctx_heap \<Rightarrow> (exn + nat) \<times> 's ctx_heap" where
  "getContext lib c w = (case boxes w (box c) of
      None \<Rightarrow> (Inl (logic_error ''assert(ssl_context_)''), w)
    | Some x \<Rightarrow> (case pointer x of
          Some p \<Rightarrow> (Inr p, w)
        | None \<Rightarrow> (case CTX_new lib (choose_method (sc_flags c)) (ossl w) of
              (None, s) \<Rightarrow> (case CTX_error lib s of (i, s') \<Rightarrow> (Inl (SSLError ContextAllocationError i), w\<lparr>ossl := s'\<rparr>))
            | (Some p, s) \<Rightarrow> (case set_up lib p c s of (r, s') \<Rightarrow>
                  (case r of Inl e \<Rightarrow> Inl e | Inr _ \<Rightarrow> Inr p,
                   w\<lparr>boxes := (boxes w)(box c \<mapsto> x\<lparr>pointer := Some p\<rparr>), ossl := s'\<rparr>)))))"

section \<open>The password call-back\<close>

text \<open>
  What the call-back writes into the buffer and returns. \<open>decrypt\<close> and \<open>encrypt\<close> are the two
  virtual functions of the getter; \<open>None\<close> is a failed assertion.
\<close>

definition passwordCallbackFunction ::
  "(nat \<Rightarrow> string) \<times> (nat \<Rightarrow> string) \<Rightarrow> bool \<Rightarrow> string \<Rightarrow> nat \<Rightarrow> nat \<Rightarrow> (string \<times> nat) option" where
  "passwordCallbackFunction getter user_data buf n rwflag =
     (if user_data then
        if n = 0 then None
        else if rwflag \<noteq> 0 \<and> rwflag \<noteq> 1 then None
        else let password = (if rwflag = 0 then fst getter (n - 1) else snd getter (n - 1)) in
          if length password < n
          then Some (password @ [NUL] @ drop (Suc (length password)) buf, length password)
          else None
      else Some (buf, 0))"

section \<open>What the flags ask for\<close>

lemma and_cases_7: "(flags :: 32 word) AND 7 \<in> {0, 1, 2, 3, 4, 5, 6, 7}"
proof -
  have "flags AND 7 = take_bit 3 flags" by (simp add: take_bit_eq_mask mask_eq_exp_minus_1)
  moreover obtain n where n: "take_bit 3 flags = word_of_nat n" "n < 8"
  proof
    show "take_bit 3 flags = word_of_nat (unat (take_bit 3 flags))" by simp
    show "unat (take_bit 3 flags) < 8" by (simp add: unsigned_take_bit_eq take_bit_nat_def)
  qed
  then have "n \<in> {0, 1, 2, 3, 4, 5, 6, 7}" by auto
  then have "(word_of_nat n :: 32 word) \<in> {0, 1, 2, 3, 4, 5, 6, 7}" by auto
  ultimately show ?thesis by (simp add: n(1))
qed

datatype transport = SSLv2 | SSLv3 | TLSv1

fun transport_flag :: "transport \<Rightarrow> 32 word" where
  "transport_flag SSLv2 = use_sslv2"
| "transport_flag SSLv3 = use_sslv3"
| "transport_flag TLSv1 = use_tlsv1"

text \<open>Documented: the protocols of a method are those it names, less those that an option excludes.\<close>

fun method_speaks :: "ssl_method \<Rightarrow> transport \<Rightarrow> bool" where
  "method_speaks SSLv23_method t = True"
| "method_speaks SSLv2_method t = (t = SSLv2)"
| "method_speaks SSLv3_method t = (t = SSLv3)"
| "method_speaks TLSv1_method t = (t = TLSv1)"

fun excluded_by :: "transport \<Rightarrow> ssl_op" where
  "excluded_by SSLv2 = OP_NO_SSLv2" | "excluded_by SSLv3 = OP_NO_SSLv3" | "excluded_by TLSv1 = OP_NO_TLSv1"

definition speaks :: "ssl_method \<Rightarrow> ssl_op list \<Rightarrow> transport \<Rightarrow> bool" where
  "speaks m ops t \<longleftrightarrow> method_speaks m t \<and> excluded_by t \<notin> set ops"

lemma excluded_by_flag: "excluded_by t \<in> set (option_flags flags) \<longleftrightarrow> flags AND transport_flag t = 0"
proof -
  have "excluded_by t \<notin> snd ` set option_table" by (cases t) (simp_all add: option_table_def)
  then have "excluded_by t \<notin> set (map snd (filter (\<lambda>(f, _). flags AND f \<noteq> 0) option_table))" by auto
  then show ?thesis by (cases t) (simp_all add: option_flags_def)
qed

text \<open>
  For every value of the flags, a new OpenSSL context speaks a transport exactly if the flags allow it,
  through the method that is chosen and the options that are set.
\<close>

theorem transports_as_asked:
  "speaks (choose_method flags) (option_flags flags) t \<longleftrightarrow> flags AND transport_flag t \<noteq> 0"
proof -
  have "flags AND transport_flag t = (flags AND 7) AND transport_flag t"
    by (cases t) (simp_all add: flag_defs and.assoc)
  moreover note and_cases_7 [of flags]
  ultimately show ?thesis
    unfolding speaks_def excluded_by_flag
    by (cases t) (auto simp: choose_method_def Let_def flag_defs)
qed

text \<open>The enumerators, and what can be made of them.\<close>

definition enumerators :: "(32 word) list" where
  "enumerators = map fst option_table @ [use_sslv2, use_sslv3, use_tlsv1, use_secure_transports, use_all_transports,
     use_openssl_default_trusted_ca_certificates, use_peer_certificate_verification, fail_if_no_peer_certificate,
     verify_client_certificate_only_once, no_session_resumption_negociation, no_tickets, work_around_all_bugs,
     enable_partial_write, enable_auto_retry, default_options, insecure_default_options]"

lemma verification_bits:
  "set fs \<subseteq> set enumerators \<Longrightarrow> foldr (OR) fs 0 AND verification_mask \<in> {0, 0x10, 0x30, 0x50, 0x70}"
proof (induction fs)
  case (Cons f fs)
  have "list_all (\<lambda>f. f AND verification_mask \<in> {0, 0x10, 0x30, 0x50, 0x70}) enumerators"
    by (simp add: enumerators_def option_table_def flag_defs)
  then have "f AND verification_mask \<in> {0, 0x10, 0x30, 0x50, 0x70}" using Cons.prems by (auto simp: list_all_iff)
  moreover have "foldr (OR) fs 0 AND verification_mask \<in> {0, 0x10, 0x30, 0x50, 0x70}" using Cons by simp
  moreover have "foldr (OR) (f # fs) 0 AND verification_mask
      = (f AND verification_mask) OR (foldr (OR) fs 0 AND verification_mask)" by (simp add: bit.conj_disj_distrib2)
  ultimately show ?case by auto
qed simp

text \<open>
  With flags made of the enumerators the assertion in the choice of the verification flags
  does not fail, and the peer is verified, required to have a certificate, and verified once
  only, exactly as the bits of the flags say.
\<close>

theorem verification_as_asked:
  assumes "set fs \<subseteq> set enumerators" "flags = foldr (OR) fs 0"
  shows "\<exists>vs. verification_flags flags = Some vs
    \<and> (VERIFY_PEER \<in> set vs \<longleftrightarrow> flags AND 0x10 \<noteq> 0)
    \<and> (VERIFY_FAIL_IF_NO_PEER_CERT \<in> set vs \<longleftrightarrow> flags AND 0x20 \<noteq> 0)
    \<and> (VERIFY_CLIENT_ONCE \<in> set vs \<longleftrightarrow> flags AND 0x40 \<noteq> 0)"
proof -
  have "flags AND b = (flags AND verification_mask) AND b" if "b \<in> {0x10, 0x20, 0x40}" for b
    using that by (auto simp: flag_defs and.assoc)
  moreover have "flags AND verification_mask \<in> {0, 0x10, 0x30, 0x50, 0x70}"
    using verification_bits assms by simp
  ultimately show ?thesis by (auto simp: verification_flags_def Let_def flag_defs)
qed

theorem verification_as_asked_witness:
  "verification_flags (fail_if_no_peer_certificate OR verify_client_certificate_only_once)
     = Some [VERIFY_PEER, VERIFY_FAIL_IF_NO_PEER_CERT, VERIFY_CLIENT_ONCE]
   \<and> (\<exists>vs. verification_flags default_options = Some vs \<and> VERIFY_FAIL_IF_NO_PEER_CERT \<in> set vs)"
  using verification_as_asked [of "[default_options]" default_options]
  by (auto simp: enumerators_def verification_flags_def Let_def flag_defs)

section \<open>Ownership of the boxes\<close>

text \<open>Documented behaviour of allocation: \<open>roots\<close> are the OpenSSL contexts not yet freed.\<close>

definition ctx_laws :: "'s ssl_ctx_lib \<Rightarrow> ('s \<Rightarrow> nat set) \<Rightarrow> bool" where
  "ctx_laws lib roots \<longleftrightarrow>
     (\<forall>m s. case CTX_new lib m s of (None, s') \<Rightarrow> roots s' = roots s
        | (Some p, s') \<Rightarrow> p \<notin> roots s \<and> roots s' = insert p (roots s)) \<and>
     (\<forall>p s. roots (CTX_free lib p s) = roots s - {p}) \<and>
     (\<forall>p k s. roots (snd (CTX_call lib p k s)) = roots s) \<and>
     (\<forall>s. roots (snd (CTX_error lib s)) = roots s)"

text \<open>\<open>R\<close> are the boxes that somebody refers to, counted.\<close>

definition pointers :: "(nat \<rightharpoonup> shared_box) \<Rightarrow> nat \<rightharpoonup> nat" where
  "pointers bs = (\<lambda>b. Option.bind (bs b) pointer)"

definition uses_of :: "(nat \<rightharpoonup> shared_box) \<Rightarrow> nat \<Rightarrow> nat" where
  "uses_of bs = (\<lambda>b. case bs b of None \<Rightarrow> 0 | Some x \<Rightarrow> uses x)"

lemma boxes_upd [simp]:
  "pointers (bs(b := v)) = (pointers bs)(b := Option.bind v pointer)"
  "uses_of (bs(b := v)) = (uses_of bs)(b := case v of None \<Rightarrow> 0 | Some x \<Rightarrow> uses x)"
  by (auto simp: pointers_def uses_of_def)

lemma boxes_at: "bs b = Some x \<Longrightarrow> pointers bs b = pointer x" "bs b = Some x \<Longrightarrow> uses_of bs b = uses x"
  "bs b = None \<Longrightarrow> pointers bs b = None" "bs b = None \<Longrightarrow> uses_of bs b = 0"
  by (simp_all add: pointers_def uses_of_def)

definition one_box_each :: "(nat \<rightharpoonup> nat) \<Rightarrow> bool" where
  "one_box_each m \<longleftrightarrow> (\<forall>b b' p. m b = Some p \<longrightarrow> m b' = Some p \<longrightarrow> b = b')"

lemma one_box_each_upd: "one_box_each m \<Longrightarrow> p \<notin> ran m \<Longrightarrow> one_box_each (m(b \<mapsto> p))"
  "one_box_each m \<Longrightarrow> one_box_each (m(b := None))"
  by (auto simp: one_box_each_def ran_def)

lemma ran_remove: "one_box_each m \<Longrightarrow> ran (m(b := None)) = ran m - set_option (m b)"
  unfolding ran_def one_box_each_def by (cases "m b") (auto, (metis option.distinct(1)), metis option.inject)

definition heap_ok :: "('s \<Rightarrow> nat set) \<Rightarrow> nat multiset \<Rightarrow> 's ctx_heap \<Rightarrow> bool" where
  "heap_ok roots R w \<longleftrightarrow> uses_of (boxes w) = count R
     \<and> (\<forall>b x. boxes w b = Some x \<longrightarrow> 0 < uses x \<and> b < next_box w)
     \<and> one_box_each (pointers (boxes w)) \<and> roots (ossl w) = ran (pointers (boxes w))"

lemma heap_ok_live: "heap_ok roots R w \<Longrightarrow> b \<in># R \<Longrightarrow> \<exists>x. boxes w b = Some x \<and> uses x = count R b"
  unfolding heap_ok_def by (cases "boxes w b") (metis boxes_at(4) count_eq_zero_iff, metis boxes_at(2))

lemma heap_ok_new_box:
  assumes "heap_ok roots R w" "new_box w = (b, w')"
  shows "heap_ok roots (add_mset b R) w'" "boxes w b = None"
proof -
  have b: "b = next_box w" "w' = w\<lparr>boxes := (boxes w)(b \<mapsto> \<lparr>pointer = None, uses = 1\<rparr>), next_box := Suc b\<rparr>"
    using assms(2) by (auto simp: new_box_def)
  show n: "boxes w b = None" using assms(1) b(1) by (cases "boxes w b") (auto simp: heap_ok_def)
  have "count R b = 0" using assms(1) boxes_at(4) [of "boxes w" b] n by (simp add: heap_ok_def)
  then have "(count R)(b := 1) = count (add_mset b R)" by (auto simp: fun_eq_iff)
  moreover have "(pointers (boxes w))(b := None) = pointers (boxes w)" using n boxes_at(3) by (simp add: fun_upd_idem)
  ultimately show "heap_ok roots (add_mset b R) w'"
    using assms(1) b(1) by (auto simp: heap_ok_def b(2) less_Suc_eq)
qed

text \<open>Only the number of uses of a box changes.\<close>

lemma heap_ok_uses:
  assumes "heap_ok roots R w" "boxes w b = Some x" "0 < n" "count R' = (count R)(b := n)"
  shows "heap_ok roots R' (w\<lparr>boxes := (boxes w)(b \<mapsto> x\<lparr>uses := n\<rparr>)\<rparr>)"
proof -
  have "(pointers (boxes w))(b := pointer x) = pointers (boxes w)" using assms(2) boxes_at(1) by (simp add: fun_upd_idem)
  then show ?thesis using assms by (auto simp: heap_ok_def)
qed

lemma heap_ok_copy:
  assumes "heap_ok roots R w" "box c \<in># R" "Context_copy c w = (c', w')"
  shows "c' = c \<and> heap_ok roots (add_mset (box c) R) w'"
proof -
  obtain x where x: "boxes w (box c) = Some x" "uses x = count R (box c)" using heap_ok_live [OF assms(1,2)] by blast
  have "w' = w\<lparr>boxes := (boxes w)(box c \<mapsto> x\<lparr>uses := Suc (uses x)\<rparr>)\<rparr>"
    using assms(3) x by (auto simp: Context_copy_def)
  moreover have "count (add_mset (box c) R) = (count R)(box c := Suc (uses x))" using x(2) by (auto simp: fun_eq_iff)
  ultimately show ?thesis using assms(3) heap_ok_uses [OF assms(1) x(1)] by (auto simp: Context_copy_def)
qed

lemma heap_ok_drop:
  assumes "heap_ok roots (add_mset b R) w" "ctx_laws lib roots"
  shows "heap_ok roots R (drop_box lib b w)"
proof -
  obtain x where x: "boxes w b = Some x" "uses x = Suc (count R b)" using heap_ok_live [OF assms(1), of b] by auto
  show ?thesis
  proof (cases "uses x = 1")
    case False
    have "count R = (count (add_mset b R))(b := uses x - 1)" using x(2) by (auto simp: fun_eq_iff)
    then have "heap_ok roots R (w\<lparr>boxes := (boxes w)(b \<mapsto> x\<lparr>uses := uses x - 1\<rparr>)\<rparr>)"
      using False x(2) by (intro heap_ok_uses [OF assms(1) x(1)]) auto
    then show ?thesis using x(1) False by (simp add: drop_box_def)
  next
    case True
    have "roots (freeSSLContext lib (pointer x) (ossl w)) = roots (ossl w) - set_option (pointer x)"
      using assms(2) by (cases "pointer x") (auto simp: freeSSLContext_def ctx_laws_def)
    moreover have "(count (add_mset b R))(b := 0) = count R" using x(2) True by (auto simp: fun_eq_iff)
    ultimately show ?thesis
      using assms(1) x True ran_remove [of "pointers (boxes w)" b] one_box_each_upd(2) boxes_at(1) [of "boxes w" b x, OF x(1)]
      by (auto simp: heap_ok_def drop_box_def)
  qed
qed

lemma heap_ok_copyOnWrite:
  assumes "heap_ok roots (add_mset (box c) R) w" "ctx_laws lib roots" "copyOnWrite lib c w = (c', w')"
  shows "heap_ok roots (add_mset (box c') R) w'"
proof -
  obtain x where x: "boxes w (box c) = Some x" using heap_ok_live [OF assms(1), of "box c"] by auto
  show ?thesis
  proof (cases "pointer x")
    case None
    then show ?thesis using assms x by (simp add: copyOnWrite_def)
  next
    case (Some p)
    obtain b w1 where n: "new_box w = (b, w1)" by (cases "new_box w")
    have "c' = c\<lparr>box := b\<rparr>" "w' = drop_box lib (box c) w1" using assms(3) x Some n by (simp_all add: copyOnWrite_def)
    moreover have "heap_ok roots (add_mset (box c) (add_mset b R)) w1"
      using heap_ok_new_box(1) [OF assms(1) n] by (simp add: add_mset_commute)
    ultimately show ?thesis using heap_ok_drop [OF _ assms(2)] by simp
  qed
qed

lemma roots_carry_out: "ctx_laws lib roots \<Longrightarrow> roots (snd (carry_out lib p ks s)) = roots s"
proof (induction lib p ks s rule: carry_out.induct)
  case (2 lib p k checked ks s)
  have "roots (snd (CTX_call lib p k s)) = roots s" "roots (snd (CTX_error lib s')) = roots s'" for s'
    using 2(2) by (simp_all add: ctx_laws_def)
  then show ?case using 2 by (auto split: prod.splits) (metis snd_conv)+
qed simp

lemma roots_set_up: "ctx_laws lib roots \<Longrightarrow> roots (snd (set_up lib p c s)) = roots s"
  using roots_carry_out [of lib roots p]
  by (auto simp: set_up_def bind_st_def throw_st_def split: prod.splits sum.splits option.splits) (metis snd_conv)+

text \<open>The first \<open>getContext\<close> on a box stores the new OpenSSL context there, whether the set-up succeeds or not.\<close>

lemma getContext_new:
  assumes "boxes w (box c) = Some x" "pointer x = None" "CTX_new lib (choose_method (sc_flags c)) (ossl w) = (Some p, s)"
    "set_up lib p c s = (r, s')"
  shows "getContext lib c w = (case r of Inl e \<Rightarrow> Inl e | Inr _ \<Rightarrow> Inr p,
     w\<lparr>boxes := (boxes w)(box c \<mapsto> x\<lparr>pointer := Some p\<rparr>), ossl := s'\<rparr>)"
  using assms by (simp add: getContext_def)

lemma ctx_laws_new: "ctx_laws lib roots \<Longrightarrow> CTX_new lib m s = (Some p, s') \<Longrightarrow> p \<notin> roots s \<and> roots s' = insert p (roots s)"
  "ctx_laws lib roots \<Longrightarrow> CTX_new lib m s = (None, s') \<Longrightarrow> roots s' = roots s"
  unfolding ctx_laws_def by (metis (mono_tags, lifting) case_prod_conv option.simps(5),
      metis (mono_tags, lifting) case_prod_conv option.simps(4))

lemma ctx_laws_error: "ctx_laws lib roots \<Longrightarrow> CTX_error lib s = (i, s') \<Longrightarrow> roots s' = roots s"
  unfolding ctx_laws_def by (metis snd_conv)

lemma heap_ok_getContext:
  assumes "heap_ok roots R w" "ctx_laws lib roots" "getContext lib c w = (r, w')"
  shows "heap_ok roots R w' \<and> (\<forall>p. r = Inr p \<longrightarrow> pointers (boxes w') (box c) = Some p)"
proof (cases "boxes w (box c)")
  case None
  then show ?thesis using assms by (auto simp: getContext_def)
next
  case (Some x)
  note x = Some
  show ?thesis
  proof (cases "pointer x")
    case (Some p)
    then show ?thesis using assms x boxes_at(1) [of "boxes w" "box c" x, OF x] by (auto simp: getContext_def)
  next
    case None
    obtain q s where n: "CTX_new lib (choose_method (sc_flags c)) (ossl w) = (q, s)"
      by (cases "CTX_new lib (choose_method (sc_flags c)) (ossl w)")
    show ?thesis
    proof (cases q)
      case None
      obtain i s' where e: "CTX_error lib s = (i, s')" by (cases "CTX_error lib s")
      have "w' = w\<lparr>ossl := s'\<rparr>" "r = Inl (SSLError ContextAllocationError i)"
        using assms(3) x \<open>pointer x = None\<close> n None e by (simp_all add: getContext_def)
      moreover have "roots s' = roots (ossl w)"
        using n None ctx_laws_new(2) [OF assms(2)] ctx_laws_error [OF assms(2) e] by simp
      ultimately show ?thesis using assms(1) by (simp add: heap_ok_def)
    next
      case (Some p)
      obtain r' s' where u: "set_up lib p c s = (r', s')" by (cases "set_up lib p c s")
      have n': "CTX_new lib (choose_method (sc_flags c)) (ossl w) = (Some p, s)" using n Some by simp
      have w': "w' = w\<lparr>boxes := (boxes w)(box c \<mapsto> x\<lparr>pointer := Some p\<rparr>), ossl := s'\<rparr>"
        and r: "r = (case r' of Inl e \<Rightarrow> Inl e | Inr _ \<Rightarrow> Inr p)"
        using assms(3) getContext_new [OF x \<open>pointer x = None\<close> n' u] by simp_all
      note p = ctx_laws_new(1) [OF assms(2) n']
      have "roots s' = insert p (roots (ossl w))" using roots_set_up [OF assms(2), of p c s] u p by simp
      moreover have "pointers (boxes w) (box c) = None" using boxes_at(1) [of "boxes w" "box c" x, OF x] \<open>pointer x = None\<close> by simp
      moreover have "(count R)(box c := uses x) = count R"
        using assms(1) boxes_at(2) [of "boxes w" "box c" x, OF x] by (simp add: heap_ok_def fun_upd_idem)
      ultimately have "heap_ok roots R w'"
        using assms(1) x p one_box_each_upd(1) [of "pointers (boxes w)" p "box c"]
        by (auto simp: heap_ok_def w')
      then show ?thesis using r by (auto simp: w' split: sum.splits)
    qed
  qed
qed

section \<open>Runs\<close>

text \<open>
  The context objects of a program, and what it does with them. A setter assigns to a member
  other than the box.
\<close>

inductive ctx_step ::
  "'s ssl_ctx_lib \<Rightarrow> security_context list \<times> 's ctx_heap \<Rightarrow> security_context list \<times> 's ctx_heap \<Rightarrow> bool" for lib where
  New: "Context flags depth w = (c, w') \<Longrightarrow> ctx_step lib (cs, w) (c # cs, w')"
| Copy: "\<lbrakk>c \<in> set cs; Context_copy c w = (c', w')\<rbrakk> \<Longrightarrow> ctx_step lib (cs, w) (c' # cs, w')"
| Destroy: "ctx_step lib (xs @ c # ys, w) (xs @ ys, Context_destroy lib c w)"
| Assign: "\<lbrakk>rhs \<in> set (xs @ c # ys); Context_assign lib c rhs w = (c', w')\<rbrakk>
    \<Longrightarrow> ctx_step lib (xs @ c # ys, w) (xs @ c' # ys, w')"
| Swap: "Context_swap c d = (c', d') \<Longrightarrow> ctx_step lib (xs @ c # ys @ d # zs, w) (xs @ c' # ys @ d' # zs, w)"
| Set: "\<lbrakk>write_setting lib f c w = (c', w'); \<forall>c. box (f c) = box c\<rbrakk> \<Longrightarrow> ctx_step lib (xs @ c # ys, w) (xs @ c' # ys, w')"
| Get: "\<lbrakk>c \<in> set cs; getContext lib c w = (r, w')\<rbrakk> \<Longrightarrow> ctx_step lib (cs, w) (cs, w')"

inductive ctx_run :: "'s ssl_ctx_lib \<Rightarrow> 's \<Rightarrow> security_context list \<times> 's ctx_heap \<Rightarrow> bool" for lib s where
  start: "ctx_run lib s ([], \<lparr>boxes = Map.empty, next_box = 0, ossl = s\<rparr>)"
| step: "\<lbrakk>ctx_run lib s st; ctx_step lib st st'\<rbrakk> \<Longrightarrow> ctx_run lib s st'"

definition run_ok :: "('s \<Rightarrow> nat set) \<Rightarrow> security_context list \<times> 's ctx_heap \<Rightarrow> bool" where
  "run_ok roots st \<longleftrightarrow> heap_ok roots (mset (map box (fst st))) (snd st)"

lemma ctx_step_ok:
  assumes "ctx_step lib st st'" "run_ok roots st" "ctx_laws lib roots"
  shows "run_ok roots st'"
  using assms(1)
proof cases
  case (New flags depth w c w' cs)
  obtain b w1 where b: "new_box w = (b, w1)" by (cases "new_box w")
  then have "box c = b" "w' = w1" using New(3) by (auto simp: Context_def)
  then show ?thesis using heap_ok_new_box(1) [OF _ b] assms(2) New by (simp add: run_ok_def)
next
  case (Copy c cs w c' w')
  then show ?thesis using heap_ok_copy [of roots _ w c c' w'] assms(2) by (auto simp: run_ok_def)
next
  case (Destroy xs c ys w)
  then show ?thesis using heap_ok_drop assms(2,3) by (auto simp: run_ok_def Context_destroy_def)
next
  case (Assign rhs xs c ys w c' w')
  obtain tmp w1 where t: "Context_copy rhs w = (tmp, w1)" by (cases "Context_copy rhs w")
  have "tmp = rhs \<and> heap_ok roots (add_mset (box rhs) (mset (map box (xs @ c # ys)))) w1"
    using assms(2) Assign by (intro heap_ok_copy [OF _ _ t]) (auto simp: run_ok_def)
  then have "heap_ok roots (add_mset (box c) (mset (map box (xs @ tmp # ys)))) w1"
    by (simp add: add_mset_commute)
  then have "heap_ok roots (mset (map box (xs @ tmp # ys))) (drop_box lib (box c) w1)"
    using assms(3) by (rule heap_ok_drop)
  then show ?thesis using Assign t by (auto simp: run_ok_def Context_assign_def Context_swap_def Context_destroy_def)
next
  case (Swap c d c' d' xs ys zs w)
  then show ?thesis using assms(2) by (simp add: run_ok_def Context_swap_def add_mset_commute)
next
  case (Set f c w c' w' xs ys)
  obtain c1 w1 where c: "copyOnWrite lib c w = (c1, w1)" by (cases "copyOnWrite lib c w")
  then have "c' = f c1" "w' = w1" using Set(3) by (simp_all add: write_setting_def)
  moreover have "heap_ok roots (add_mset (box c1) (mset (map box (xs @ ys)))) w1"
    using assms(2) Set by (intro heap_ok_copyOnWrite [OF _ assms(3) c]) (simp add: run_ok_def)
  ultimately show ?thesis using Set by (simp add: run_ok_def)
next
  case (Get c cs w r w')
  then show ?thesis using heap_ok_getContext [OF _ assms(3)] assms(2) by (auto simp: run_ok_def)
qed

lemma ctx_run_ok: "ctx_run lib s st \<Longrightarrow> ctx_laws lib roots \<Longrightarrow> roots s = {} \<Longrightarrow> run_ok roots st"
proof (induction rule: ctx_run.induct)
  case start
  then show ?case by (auto simp: run_ok_def heap_ok_def uses_of_def pointers_def one_box_each_def fun_eq_iff)
next
  case (step st st')
  then show ?case using ctx_step_ok by blast
qed

text \<open>
  C32: whatever a program does with its contexts (construct, copy, assign, swap, set, use and
  destroy them, in any order), the OpenSSL contexts that are not freed are exactly those in the
  boxes, each in one; every context object has its box, with the right count, so that none is
  freed early; when no context object is left, every OpenSSL context has been freed.
\<close>

theorem contexts_are_owned:
  assumes "ctx_laws lib roots" "roots s = {}" "ctx_run lib s (cs, w)"
  shows "roots (ossl w) = ran (pointers (boxes w)) \<and> one_box_each (pointers (boxes w))
    \<and> (\<forall>c \<in> set cs. \<exists>x. boxes w (box c) = Some x \<and> uses x = count_list (map box cs) (box c))
    \<and> (cs = [] \<longrightarrow> roots (ossl w) = {})"
proof -
  have ok: "heap_ok roots (mset (map box cs)) w" using ctx_run_ok [OF assms(3,1,2)] by (simp add: run_ok_def)
  have "\<exists>x. boxes w (box c) = Some x \<and> uses x = count_list (map box cs) (box c)" if "c \<in> set cs" for c
    using heap_ok_live [OF ok, of "box c"] that by (auto simp: count_mset simp del: mset_map)
  moreover have "boxes w b = None" if "cs = []" for b
    using ok that boxes_at(2) [of "boxes w" b] by (cases "boxes w b") (auto simp: heap_ok_def fun_eq_iff, metis less_irrefl)
  then have "pointers (boxes w) = Map.empty" if "cs = []" using that by (auto simp: pointers_def)
  ultimately show ?thesis using ok by (auto simp: heap_ok_def)
qed

text \<open>A library that hands out the next number, knows which are alive, and writes down the calls; certificate files do not load.\<close>

definition example_ctx_lib :: "(nat \<times> nat list \<times> ctx_call list) ssl_ctx_lib" where
  "example_ctx_lib = \<lparr>CTX_new = (\<lambda>m (n, live, log). (Some n, (Suc n, n # live, log))),
     CTX_free = (\<lambda>p (n, live, log). (n, filter (\<lambda>q. q \<noteq> p) live, log)),
     CTX_call = (\<lambda>p k (n, live, log). (case k of Use_certificate_file _ \<Rightarrow> 0 | _ \<Rightarrow> 1, (n, live, log @ [k]))),
     CTX_error = (\<lambda>s. (\<lparr>error_number = 1, error_file = [], error_line_number = 0, error_line_data = None, txt_string = False\<rparr>, s))\<rparr>"

definition example_roots :: "nat \<times> nat list \<times> ctx_call list \<Rightarrow> nat set" where
  "example_roots s = set (filter (\<lambda>p. p < fst s) (fst (snd s)))"

lemma example_ctx_laws: "ctx_laws example_ctx_lib example_roots"
  by (auto simp: ctx_laws_def example_ctx_lib_def example_roots_def split: prod.splits)

definition empty_heap :: "(nat \<times> nat list \<times> ctx_call list) ctx_heap" where
  "empty_heap = \<lparr>boxes = Map.empty, next_box = 0, ossl = (0, [], [])\<rparr>"

theorem contexts_are_owned_witness:
  "\<exists>c w w'. Context default_options 0 empty_heap = (c, w)
    \<and> getContext example_ctx_lib c w = (Inr 0, w') \<and> example_roots (ossl w') = {0}
    \<and> example_roots (ossl (Context_destroy example_ctx_lib c w')) = {}"
proof -
  obtain c w where c: "Context default_options 0 empty_heap = (c, w)" by (cases "Context default_options 0 empty_heap" )
  obtain r w' where g: "getContext example_ctx_lib c w = (r, w')" by (cases "getContext example_ctx_lib c w")
  have r: "r = Inr 0" "boxes w' (box c) = Some \<lparr>pointer = Some 0, uses = 1\<rparr>" "boxes w' = [0 \<mapsto> \<lparr>pointer = Some 0, uses = 1\<rparr>]"
    using c g by (auto simp: Context_def new_box_def empty_heap_def getContext_def set_up_def file_calls_def setting_calls_def
        example_ctx_lib_def st_defs has_flag_def verification_flags_def Let_def flag_defs split: prod.splits)
  have 1: "ctx_run example_ctx_lib (0, [], []) ([c], w)"
    using ctx_run.step [OF ctx_run.start ctx_step.New [OF c [unfolded empty_heap_def], of example_ctx_lib "[]"]] .
  have 2: "ctx_run example_ctx_lib (0, [], []) ([c], w')"
    by (rule ctx_run.step [OF 1 ctx_step.Get [OF _ g]]) simp
  have 3: "ctx_run example_ctx_lib (0, [], []) ([], Context_destroy example_ctx_lib c w')"
    using ctx_run.step [OF 2 ctx_step.Destroy [of example_ctx_lib "[]" c "[]" w', simplified]] .
  have s: "example_roots (0, [], []) = {}" by (simp add: example_roots_def)
  note own = contexts_are_owned [OF example_ctx_laws s]
  have "example_roots (ossl w') = {0}" using own [OF 2] r(3) by (simp add: pointers_def ran_def)
  moreover have "example_roots (ossl (Context_destroy example_ctx_lib c w')) = {}" using own [OF 3] by (elim conjE) simp
  ultimately show ?thesis using c g r(1) by blast
qed

section \<open>Settings that do not arrive\<close>

text \<open>
  C33: a copy that is made before the first \<open>getContext\<close> shares the box for good: after its flags are
  changed, and the original has made its OpenSSL context, the copy gets that one too.
\<close>

theorem copy_before_use_shares:
  assumes "heap_ok roots R w" "Context f d w = (c, w1)" "Context_copy c w1 = (c', w2)"
    and "setFlags lib g c' w2 = (c'', w3)" "getContext lib c w3 = (Inr p, w4)"
  shows "sc_flags c = f \<and> sc_flags c'' = g \<and> getContext lib c'' w4 = (Inr p, w4)"
proof -
  obtain b where b: "new_box w = (b, w1)" "c = \<lparr>sc_flags = f, server_certificate_name = [], certificate_chain_filename = [],
       private_key_filename = [], trusted_ca_certificates_filename = [], trusted_ca_certificates_directory_name = [],
       password_getter = None, certificate_verification_depth = d, box = b\<rparr>"
    using assms(2) by (auto simp: Context_def split: prod.splits)
  then have "boxes w1 b = Some \<lparr>pointer = None, uses = 1\<rparr>" by (auto simp: new_box_def)
  then have w2: "c' = c" "boxes w2 b = Some \<lparr>pointer = None, uses = 2\<rparr>"
    using assms(3) b(2) by (auto simp: Context_copy_def)
  then have w3: "c'' = c\<lparr>sc_flags := g\<rparr>" "w3 = w2"
    using assms(4) b(2) by (auto simp: setFlags_def write_setting_def copyOnWrite_def)
  then have "boxes w4 b = Some \<lparr>pointer = Some p, uses = 2\<rparr>"
    using assms(5) w2 b(2) by (auto simp: getContext_def split: prod.splits option.splits sum.splits)
  then show ?thesis using w3 b(2) by (simp add: getContext_def)
qed

theorem copy_before_use_shares_witness:
  "\<exists>c w1 c' w2 c'' w3 w4. Context default_options 0 empty_heap = (c, w1) \<and> Context_copy c w1 = (c', w2)
    \<and> setFlags example_ctx_lib insecure_default_options c' w2 = (c'', w3) \<and> getContext example_ctx_lib c w3 = (Inr 0, w4)
    \<and> getContext example_ctx_lib c'' w4 = (Inr 0, w4)"
proof -
  obtain c w1 where c: "Context default_options 0 empty_heap = (c, w1)" by (cases "Context default_options 0 empty_heap")
  obtain c' w2 where c': "Context_copy c w1 = (c', w2)" by (cases "Context_copy c w1")
  obtain c'' w3 where c'': "setFlags example_ctx_lib insecure_default_options c' w2 = (c'', w3)"
    by (cases "setFlags example_ctx_lib insecure_default_options c' w2")
  obtain r w4 where g: "getContext example_ctx_lib c w3 = (r, w4)" by (cases "getContext example_ctx_lib c w3")
  have "r = Inr 0"
    using c c' c'' g
    by (auto simp: Context_def Context_copy_def setFlags_def write_setting_def copyOnWrite_def new_box_def empty_heap_def
        getContext_def set_up_def file_calls_def setting_calls_def example_ctx_lib_def st_defs has_flag_def
        verification_flags_def Let_def flag_defs split: prod.splits)
  moreover have "heap_ok (\<lambda>_. {}) {#} empty_heap"
    by (auto simp: empty_heap_def heap_ok_def uses_of_def pointers_def one_box_each_def fun_eq_iff)
  ultimately show ?thesis using copy_before_use_shares [OF _ c c' c''] g c c' c'' by blast
qed

text \<open>
  C34: when a step of the set-up fails (a file that cannot be read, say), \<open>getContext\<close> throws, and when it is called
  again it returns the context that was set up in part, because the box has it already.
\<close>

theorem failed_set_up_is_kept:
  assumes "boxes w (box c) = Some x" "pointer x = None" "CTX_new lib (choose_method (sc_flags c)) (ossl w) = (Some p, s)"
    and "set_up lib p c s = (Inl e, s')" "getContext lib c w = (r, w')"
  shows "r = Inl e \<and> getContext lib c w' = (Inr p, w')"
  using assms getContext_new [OF assms(1-4)] by (auto simp: getContext_def)

theorem failed_set_up_is_kept_witness:
  "\<exists>w'. getContext example_ctx_lib ((fst (Context default_options 0 empty_heap))\<lparr>server_certificate_name := ''x''\<rparr>) w' = (Inr 0, w')
     \<and> \<not> list_ex (\<lambda>k. case k of Set_verify _ \<Rightarrow> True | _ \<Rightarrow> False) (snd (snd (ossl w')))"
proof -
  let ?c = "(fst (Context default_options 0 empty_heap))\<lparr>server_certificate_name := ''x''\<rparr>"
  let ?w = "snd (Context default_options 0 empty_heap)"
  let ?e = "SSLError SSLContextSetupError \<lparr>error_number = 1, error_file = [], error_line_number = 0, error_line_data = None, txt_string = False\<rparr>"
  have 1: "boxes ?w (box ?c) = Some \<lparr>pointer = None, uses = 1\<rparr>" "pointer \<lparr>pointer = None, uses = 1\<rparr> = None"
    "CTX_new example_ctx_lib (choose_method (sc_flags ?c)) (ossl ?w) = (Some 0, (1, [0], []))"
    by (simp_all add: Context_def new_box_def empty_heap_def example_ctx_lib_def)
  have 2: "set_up example_ctx_lib 0 ?c (1, [0], []) = (Inl ?e, (1, [0], [Use_certificate_file ''x'']))"
    by (simp add: Context_def new_box_def empty_heap_def set_up_def file_calls_def example_ctx_lib_def st_defs has_flag_def flag_defs)
  obtain r w' where g: "getContext example_ctx_lib ?c ?w = (r, w')" by (cases "getContext example_ctx_lib ?c ?w")
  have "ossl w' = (1, [0], [Use_certificate_file ''x''])" using g getContext_new [OF 1 2] by auto
  then show ?thesis using failed_set_up_is_kept [OF 1 2 g] by (intro exI [of _ w']) simp
qed

section \<open>Passwords\<close>

text \<open>
  The password call-back never writes outside the buffer of \<open>n\<close> bytes that OpenSSL gives it, and
  writes the password that was asked for, with its terminator.
\<close>

theorem password_fits:
  assumes "length buf = n" "passwordCallbackFunction getter True buf n rwflag = Some (buf', k)"
  shows "length buf' = n \<and> k < n \<and> take k buf' = (if rwflag = 0 then fst getter (n - 1) else snd getter (n - 1)) \<and> buf' ! k = NUL"
  using assms by (auto simp: passwordCallbackFunction_def Let_def nth_append split: if_splits)

theorem password_fits_witness:
  "passwordCallbackFunction (\<lambda>_. ''ab'', \<lambda>_. []) True ''wxyz'' 4 0 = Some (''ab'' @ [NUL] @ ''z'', 2)
   \<and> (''ab'' @ [NUL] @ ''z'') ! 2 = NUL"
proof -
  have e: "passwordCallbackFunction (\<lambda>_. ''ab'', \<lambda>_. []) True ''wxyz'' 4 0 = Some (''ab'' @ [NUL] @ ''z'', 2)"
    by (simp add: passwordCallbackFunction_def)
  from password_fits [OF _ this] show ?thesis using e by simp
qed

end
