(* ===== verification/Spirit.thy ===== *)
theory Spirit
  imports Exceptions
begin

text \<open>
  The language of \<^verbatim>\<open>lib/Spin/Private/Grammar.h\<close>: expressions of Boost.Spirit (classic), which
  the constructor of the grammar builds, and the functor that reads a chunk size. Boost is not
  part of the repository: what its parser does with an expression is the locale
  \<open>spirit_parser\<close>, whose assumptions are the documented behaviour of each operator. An
  interpreter that has this behaviour is at the end.
\<close>

section \<open>HexAdapter\<close>

text \<open>The position of the character in the 22 characters; those behind \<open>16\<close> stand for six less.\<close>

definition hex_charset :: string where
  "hex_charset = ''0123456789abcdefABCDEF''"

fun dehex_loop :: "64 word \<Rightarrow> string \<Rightarrow> exn + 64 word" where
  "dehex_loop retval [] = Inr retval"
| "dehex_loop retval (x # s) = (let w = length (takeWhile (\<lambda>y. y \<noteq> x) hex_charset) in
     if w = 22 then Inl (runtime_error ''Invalid hex character'')
     else dehex_loop (retval * 16 + word_of_nat (if w > 16 then w - 6 else w)) s)"

definition dehex :: "string \<Rightarrow> exn + 64 word" where
  "dehex s = dehex_loop 0 s"

text \<open>
  An adapter refers to a chunk size (\<open>True\<close>: \<open>p_\<close> is not null), or holds text. Assignment
  gives the adapter and, where \<open>*p_\<close> is written, the new chunk size.
\<close>

record hex_adapter =
  refers :: bool
  hex_text :: string

definition HexAdapter_ref :: hex_adapter where
  "HexAdapter_ref = \<lparr>refers = True, hex_text = []\<rparr>"

definition HexAdapter :: "string \<Rightarrow> hex_adapter" where
  "HexAdapter s = \<lparr>refers = False, hex_text = s\<rparr>"

definition HexAdapter_swap :: "hex_adapter \<Rightarrow> hex_adapter \<Rightarrow> hex_adapter \<times> hex_adapter" where
  "HexAdapter_swap a b = (b, a)"

definition HexAdapter_assign :: "hex_adapter \<Rightarrow> hex_adapter \<Rightarrow> 64 word \<Rightarrow> exn + (hex_adapter \<times> 64 word)" where
  "HexAdapter_assign this rhs n =
     (if refers this \<and> \<not> refers rhs then map_sum id (Pair this) (dehex (hex_text rhs))
      else Inr (fst (HexAdapter_swap this rhs), n))"

section \<open>Expressions\<close>

text \<open>
  \<open>Into_chunk_size\<close> is \<open>p[assign_a(HexAdapter(chunk_size_))]\<close>, \<open>Times_chunk_size\<close> is
  \<open>repeat_p(boost::ref(chunk_size_))[p]\<close>. A rule refers to its expression; \<open>Rule\<close> is the
  reference to a rule that refers to itself, or that is given no expression at all.
\<close>

datatype spirit =
    Range int int
  | Lit char
  | Str string
  | Seq spirit spirit
  | Alt spirit spirit
  | Diff spirit spirit
  | Star spirit
  | Opt spirit
  | Into_chunk_size spirit
  | Times_chunk_size spirit
  | Rule string

text \<open>A \<open>char\<close> is signed.\<close>

definition char_value :: "char \<Rightarrow> int" where
  "char_value x = (if of_char x < (128 :: int) then of_char x else of_char x - 256)"

definition char_range :: "char \<Rightarrow> char \<Rightarrow> spirit" where
  "char_range a b = Range (char_value a) (char_value b)"

text \<open>Documented: \<open>+p\<close> is \<open>p >> *p\<close>, \<open>p % q\<close> is \<open>p >> *(q >> p)\<close>, \<open>repeat_p\<close> matches as often as it can.\<close>

definition Plus :: "spirit \<Rightarrow> spirit" where
  "Plus p = Seq p (Star p)"

definition List_of :: "spirit \<Rightarrow> spirit \<Rightarrow> spirit" where
  "List_of p q = Seq p (Star (Seq q p))"

fun seqs :: "spirit list \<Rightarrow> spirit" where
  "seqs [] = Str []"
| "seqs [p] = p"
| "seqs (p # q # ps) = Seq p (seqs (q # ps))"

fun alts :: "spirit list \<Rightarrow> spirit" where
  "alts [] = Rule []"
| "alts [p] = p"
| "alts (p # q # ps) = Alt p (alts (q # ps))"

definition times :: "nat \<Rightarrow> spirit \<Rightarrow> spirit" where
  "times n p = seqs (replicate n p)"

primrec up_to :: "nat \<Rightarrow> spirit \<Rightarrow> spirit" where
  "up_to 0 p = Str []"
| "up_to (Suc n) p = Opt (Seq p (up_to n p))"

definition between :: "nat \<Rightarrow> nat \<Rightarrow> spirit \<Rightarrow> spirit" where
  "between m n p = Seq (times m p) (up_to (n - m) p)"

section \<open>What a parser does\<close>

text \<open>
  A parser gets the chunk size and the rest of the input. \<open>Some (c, Some r)\<close> is a match that leaves
  \<open>r\<close>, \<open>Some (c, None)\<close> no match; an action that was carried out stays so. \<open>None\<close> is a parser
  that does not return.
\<close>

type_synonym scan = "64 word \<times> string"
type_synonym outcome = "64 word \<times> string option"

definition match_char :: "(char \<Rightarrow> bool) \<Rightarrow> string \<Rightarrow> string option" where
  "match_char P s = (case s of [] \<Rightarrow> None | x # r \<Rightarrow> if P x then Some r else None)"

definition match_string :: "string \<Rightarrow> string \<Rightarrow> string option" where
  "match_string t s = (if take (length t) s = t then Some (drop (length t) s) else None)"

text \<open>A loop over the matches of \<open>f\<close>, until there is none.\<close>

inductive star_run :: "(scan \<Rightarrow> outcome option) \<Rightarrow> scan \<Rightarrow> outcome \<Rightarrow> bool" for f where
  stop: "f (c, s) = Some (d, None) \<Longrightarrow> star_run f (c, s) (d, Some s)"
| more: "f (c, s) = Some (d, Some r) \<Longrightarrow> star_run f (d, r) q \<Longrightarrow> star_run f (c, s) q"

inductive_cases star_runE: "star_run f (c, s) q"

definition and_then :: "outcome option \<Rightarrow> (scan \<Rightarrow> outcome option) \<Rightarrow> outcome option" where
  "and_then x g = (case x of None \<Rightarrow> None | Some (d, None) \<Rightarrow> Some (d, None) | Some (d, Some r) \<Rightarrow> g (d, r))"

definition or_else :: "outcome option \<Rightarrow> (64 word \<Rightarrow> outcome option) \<Rightarrow> outcome option" where
  "or_else x g = (case x of None \<Rightarrow> None | Some (d, None) \<Rightarrow> g d | Some (d, Some r) \<Rightarrow> Some (d, Some r))"

lemma sequel_simps [simp]:
  "and_then None g = None" "and_then (Some (d, None)) g = Some (d, None)" "and_then (Some (d, Some r)) g = g (d, r)"
  "or_else None h = None" "or_else (Some (d, None)) h = h d" "or_else (Some (d, Some r)) h = Some (d, Some r)"
  by (simp_all add: and_then_def or_else_def)

text \<open>The difference: a match of the first that is longer than what the second matches.\<close>

definition unless_as_long :: "string \<Rightarrow> outcome option \<Rightarrow> outcome option" where
  "unless_as_long r x = (case x of None \<Rightarrow> None | Some (d, None) \<Rightarrow> Some (d, Some r)
     | Some (d, Some r') \<Rightarrow> Some (d, if length r < length r' then Some r else None))"

text \<open>The action: the text that was matched is assigned to an adapter that refers to the chunk size.\<close>

definition assign_chunk_size :: "string \<Rightarrow> outcome option \<Rightarrow> outcome option" where
  "assign_chunk_size s x = and_then x (\<lambda>(d, r).
     case HexAdapter_assign HexAdapter_ref (HexAdapter (take (length s - length r) s)) d of
       Inl _ \<Rightarrow> None | Inr (_, d') \<Rightarrow> Some (d', Some r))"

locale spirit_parser =
  fixes rules :: "string \<Rightarrow> spirit option" and parse :: "spirit \<Rightarrow> scan \<Rightarrow> outcome option"
  assumes parse_Range: "parse (Range a b) (c, s) = Some (c, match_char (\<lambda>x. a \<le> char_value x \<and> char_value x \<le> b) s)"
    and parse_Lit: "parse (Lit x) (c, s) = Some (c, match_char (\<lambda>y. y = x) s)"
    and parse_Str: "parse (Str t) (c, s) = Some (c, match_string t s)"
    and parse_Seq: "parse (Seq p q) (c, s) = and_then (parse p (c, s)) (parse q)"
    and parse_Alt: "parse (Alt p q) (c, s) = or_else (parse p (c, s)) (\<lambda>d. parse q (d, s))"
    and parse_Diff: "parse (Diff p q) (c, s) = and_then (parse p (c, s)) (\<lambda>(d, r). unless_as_long r (parse q (d, s)))"
    and parse_Star: "parse (Star p) (c, s) = Some z \<longleftrightarrow> star_run (parse p) (c, s) z"
    and parse_Opt: "parse (Opt p) (c, s) = or_else (parse p (c, s)) (\<lambda>d. Some (d, Some s))"
    and parse_Into: "parse (Into_chunk_size p) (c, s) = assign_chunk_size s (parse p (c, s))"
    and parse_Times: "parse (Times_chunk_size p) (c, s) = parse (times (unat c) p) (c, s)"
    and parse_Rule: "parse (Rule n) (c, s) = (case rules n of None \<Rightarrow> Some (c, None) | Some p \<Rightarrow> parse p (c, s))"
begin

lemma parse_seqs: "parse (seqs (p # q # ps)) (c, s) = and_then (parse p (c, s)) (parse (seqs (q # ps)))"
  by (simp add: parse_Seq)

lemma parse_alts: "parse (alts (p # q # ps)) (c, s) = or_else (parse p (c, s)) (\<lambda>d. parse (alts (q # ps)) (d, s))"
  by (simp add: parse_Alt)

lemma parse_Star_stop: "parse p (c, s) = Some (d, None) \<Longrightarrow> parse (Star p) (c, s) = Some (d, Some s)"
  by (simp add: parse_Star star_run.stop)

lemma parse_Star_more: "parse p (c, s) = Some (d, Some r) \<Longrightarrow> parse (Star p) (c, s) = parse (Star p) (d, r)"
proof -
  assume p: "parse p (c, s) = Some (d, Some r)"
  have "parse (Star p) (c, s) = Some z \<longleftrightarrow> parse (Star p) (d, r) = Some z" for z
    unfolding parse_Star using p by (auto elim: star_runE intro: star_run.more)
  then show ?thesis by (metis option.exhaust)
qed

text \<open>A loop whose body cannot fail does not end.\<close>

lemma parse_Star_forever:
  assumes "\<And>c s. parse p (c, s) = None \<or> (\<exists>d r. parse p (c, s) = Some (d, Some r))"
  shows "parse (Star p) (c, s) = None"
proof (rule ccontr)
  assume "parse (Star p) (c, s) \<noteq> None"
  then obtain q where "star_run (parse p) (c, s) q" using parse_Star by blast
  then show False by induction (metis assms option.inject option.distinct(1) prod.inject)+
qed

lemma parse_Plus: "parse (Plus p) (c, s) = and_then (parse p (c, s)) (parse (Star p))"
  by (simp add: Plus_def parse_Seq)

text \<open>Parsers of one character.\<close>

definition char_class :: "spirit \<Rightarrow> (char \<Rightarrow> bool) \<Rightarrow> bool" where
  "char_class p P \<longleftrightarrow> (\<forall>c s. parse p (c, s) = Some (c, match_char P s))"

lemma char_classD: "char_class p P \<Longrightarrow> parse p (c, s) = Some (c, match_char P s)"
  by (simp add: char_class_def)

lemma char_class_Range: "char_class (Range a b) (\<lambda>x. a \<le> char_value x \<and> char_value x \<le> b)"
  by (simp add: char_class_def parse_Range)

lemma char_class_Lit: "char_class (Lit x) (\<lambda>y. y = x)"
  by (simp add: char_class_def parse_Lit)

lemma char_class_Alt: "char_class p P \<Longrightarrow> char_class q Q \<Longrightarrow> char_class (Alt p q) (\<lambda>x. P x \<or> Q x)"
  by (auto simp: char_class_def parse_Alt match_char_def split: list.splits)

lemma char_class_Diff: "char_class p P \<Longrightarrow> char_class q Q \<Longrightarrow> char_class (Diff p q) (\<lambda>x. P x \<and> \<not> Q x)"
  by (auto simp: char_class_def parse_Diff match_char_def unless_as_long_def split: list.splits)

lemma char_class_Star: "char_class p P \<Longrightarrow> parse (Star p) (c, s) = Some (c, Some (dropWhile P s))"
proof (induction s)
  case Nil
  then show ?case by (simp add: parse_Star_stop char_classD match_char_def)
next
  case (Cons x s)
  then show ?case
    by (cases "P x") (simp_all add: parse_Star_stop parse_Star_more char_classD match_char_def)
qed

lemma char_class_Plus: "char_class p P \<Longrightarrow> parse (Plus p) (c, s)
    = Some (c, if s \<noteq> [] \<and> P (hd s) then Some (dropWhile P s) else None)"
  by (cases s) (auto simp: parse_Plus char_classD char_class_Star match_char_def)

lemma char_class_cong: "char_class p P \<Longrightarrow> (\<And>x. P x = Q x) \<Longrightarrow> char_class p Q"
  by (simp add: char_class_def ext [of P Q])

end

lemma match_char_simps [simp]:
  "match_char P [] = None" "match_char P (x # s) = (if P x then Some s else None)"
  by (simp_all add: match_char_def)

lemma match_string_simps [simp]:
  "match_string [] s = Some s" "match_string (t # ts) [] = None"
  "match_string (t # ts) (x # s) = (if x = t then match_string ts s else None)"
  by (auto simp: match_string_def)

lemma match_string_append [simp]: "match_string t (t @ s) = Some s"
  by (simp add: match_string_def)

section \<open>An interpreter\<close>

text \<open>Three kinds of expression stand for others.\<close>

fun stands_for :: "(string \<Rightarrow> spirit option) \<Rightarrow> 64 word \<Rightarrow> spirit \<Rightarrow> spirit option" where
  "stands_for R c (Opt p) = Some (Alt p (Str []))"
| "stands_for R c (Times_chunk_size p) = Some (times (unat c) p)"
| "stands_for R c (Rule n) = R n"
| "stands_for R c _ = None"

partial_function (option) run :: "(string \<Rightarrow> spirit option) \<Rightarrow> spirit \<Rightarrow> 64 word \<Rightarrow> string \<Rightarrow> outcome option" where
  "run R p c s = (case stands_for R c p of Some p' \<Rightarrow> run R p' c s | None \<Rightarrow> (case p of
       Range a b \<Rightarrow> Some (c, match_char (\<lambda>x. a \<le> char_value x \<and> char_value x \<le> b) s)
     | Lit l \<Rightarrow> Some (c, match_char (\<lambda>y. y = l) s)
     | Str t \<Rightarrow> Some (c, match_string t s)
     | Seq p q \<Rightarrow> Option.bind (run R p c s) (\<lambda>y. case snd y of None \<Rightarrow> Some y | Some r \<Rightarrow> run R q (fst y) r)
     | Alt p q \<Rightarrow> Option.bind (run R p c s) (\<lambda>y. case snd y of None \<Rightarrow> run R q (fst y) s | Some r \<Rightarrow> Some y)
     | Diff p q \<Rightarrow> Option.bind (run R p c s) (\<lambda>y. case snd y of None \<Rightarrow> Some y
         | Some r \<Rightarrow> Option.bind (run R q (fst y) s) (\<lambda>z. unless_as_long r (Some z)))
     | Star p \<Rightarrow> Option.bind (run R p c s) (\<lambda>y. case snd y of None \<Rightarrow> Some (fst y, Some s) | Some r \<Rightarrow> run R (Star p) (fst y) r)
     | Into_chunk_size p \<Rightarrow> Option.bind (run R p c s) (\<lambda>y. assign_chunk_size s (Some y))
     | _ \<Rightarrow> Some (c, None)))"

definition interpreted :: "(string \<Rightarrow> spirit option) \<Rightarrow> spirit \<Rightarrow> scan \<Rightarrow> outcome option" where
  "interpreted R p x = run R p (fst x) (snd x)"

lemma bind_transfer:
  "Option.bind x k = Some z \<Longrightarrow> (\<And>y. x = Some y \<Longrightarrow> x' = Some y) \<Longrightarrow> (\<And>y. k y = Some z \<Longrightarrow> k' y = Some z)
    \<Longrightarrow> Option.bind x' k' = Some z"
  by (auto simp: bind_eq_Some_conv)

lemma run_Star:
  assumes "run R p c s = Some z"
  shows "run R p c s = Some z \<and> (\<forall>p'. p = Star p' \<longrightarrow> star_run (interpreted R p') (c, s) z)"
proof (rule run.raw_induct [OF _ assms, where P = "\<lambda>R p c s z. run R p c s = Some z
    \<and> (\<forall>p'. p = Star p' \<longrightarrow> star_run (interpreted R p') (c, s) z)"], intro conjI allI impI, goal_cases)
  case (1 f R p c s z)
  then have IH: "f R p c s = Some z \<Longrightarrow> run R p c s = Some z" for R p c s z by blast
  show ?case
  proof (cases "stands_for R c p")
    case None
    with 1(2) show ?thesis
      by (subst run.simps, cases p) (auto elim!: bind_transfer split: option.splits intro: IH)
  qed (use 1(2) IH in \<open>simp add: run.simps [of R p]\<close>)
next
  case (2 f R p c s z p')
  then obtain y where y: "f R p' c s = Some y"
    and z: "(case snd y of None \<Rightarrow> Some (fst y, Some s) | Some r \<Rightarrow> f R (Star p') (fst y) r) = Some z"
    by (auto simp: bind_eq_Some_conv)
  then have "interpreted R p' (c, s) = Some (fst y, snd y)" using 2(1) by (simp add: interpreted_def)
  moreover have "star_run (interpreted R p') (fst y, r) z" if "snd y = Some r" for r
    using 2(1) [of R "Star p'" "fst y" r z] z that by simp
  ultimately show ?case using z by (cases "snd y") (auto intro: star_run.intros)
qed

interpretation interpreter: spirit_parser R "interpreted R" for R
proof
  fix p c s q
  show "interpreted R (Star p) (c, s) = Some q \<longleftrightarrow> star_run (interpreted R p) (c, s) q"
  proof
    assume "star_run (interpreted R p) (c, s) q"
    then show "interpreted R (Star p) (c, s) = Some q"
      by (induction "(c, s)" q arbitrary: c s rule: star_run.induct)
        (simp_all add: interpreted_def run.simps [of R "Star p"])
  qed (use run_Star [of R "Star p" c s q] in \<open>simp add: interpreted_def\<close>)
qed (auto simp: interpreted_def run.simps [of R "Seq _ _"] run.simps [of R "Alt _ _"] run.simps [of R "Diff _ _"]
    run.simps [of R "Range _ _"] run.simps [of R "Lit _"] run.simps [of R "Str _"] run.simps [of R "Opt _"]
    run.simps [of R "Into_chunk_size _"] run.simps [of R "Times_chunk_size _"] run.simps [of R "Rule _"]
    and_then_def or_else_def assign_chunk_size_def unless_as_long_def bind_eq_Some_conv
    split: option.splits prod.splits Option.bind_splits)

end
