(* ===== verification/Grammar.thy ===== *)
theory Grammar
  imports Spirit
begin

text \<open>
  The rules of \<^verbatim>\<open>lib/Spin/Private/Grammar.h\<close>, each under its name in the header with \<open>_rule\<close>
  for the underscore, in an order in which a rule comes after those it refers to.
  \<open>lexeme_d\<close> switches a skip parser off; the rules are those of a scanner without one.
\<close>

definition OCTET_rule :: spirit where "OCTET_rule = Range 0 255"
definition CHAR_rule :: spirit where "CHAR_rule = Range 0 127"
definition UPALPHA_rule :: spirit where "UPALPHA_rule = char_range (CHR ''A'') (CHR ''Z'')"
definition LOALPHA_rule :: spirit where "LOALPHA_rule = char_range (CHR ''a'') (CHR ''z'')"
definition ALPHA_rule :: spirit where "ALPHA_rule = alts [UPALPHA_rule, LOALPHA_rule]"
definition DIGIT_rule :: spirit where "DIGIT_rule = char_range (CHR ''0'') (CHR ''9'')"
definition CTL_rule :: spirit where "CTL_rule = alts [Range 0 31, Lit (CHR 0x7F)]"
definition CR_rule :: spirit where "CR_rule = Lit CR"
definition LF_rule :: spirit where "LF_rule = Lit LF"
definition SP_rule :: spirit where "SP_rule = Lit SP"
definition HT_rule :: spirit where "HT_rule = Lit HT"
definition DOUBLE_QUOTE_rule :: spirit where "DOUBLE_QUOTE_rule = Lit (CHR 0x22)"
definition CRLF_rule :: spirit where "CRLF_rule = seqs [CR_rule, LF_rule]"
definition LWS_rule :: spirit where "LWS_rule = seqs [Opt CRLF_rule, Plus (alts [SP_rule, HT_rule])]"
definition TEXT_rule :: spirit where "TEXT_rule = alts [Diff OCTET_rule CTL_rule, LWS_rule]"

definition HEX_rule :: spirit where
  "HEX_rule = alts [char_range (CHR ''a'') (CHR ''f''), char_range (CHR ''A'') (CHR ''F''), DIGIT_rule]"

definition separators_rule :: spirit where
  "separators_rule = alts [Lit (CHR ''(''), Lit (CHR '')''), Lit (CHR ''<''), Lit (CHR ''>''), Lit (CHR ''@''),
     Lit (CHR '',''), Lit (CHR '';''), Lit (CHR '':''), Lit (CHR 0x5C), Lit (CHR 0x22), Lit (CHR ''/''),
     Lit (CHR ''[''), Lit (CHR '']''), Lit (CHR ''?''), Lit (CHR ''=''), Lit (CHR ''{''), Lit (CHR ''}''),
     SP_rule, HT_rule]"

definition token_rule :: spirit where "token_rule = Plus (Diff (Diff CHAR_rule CTL_rule) separators_rule)"
definition ctext_rule :: spirit where "ctext_rule = Diff (Diff TEXT_rule (Lit (CHR ''(''))) (Lit (CHR '')''))"
definition quoted_pair_rule :: spirit where "quoted_pair_rule = seqs [Lit (CHR 0x5C), CHAR_rule]"

definition comment_rule :: spirit where
  "comment_rule = seqs [Lit (CHR ''(''), Star (alts [ctext_rule, quoted_pair_rule, Rule ''comment_'']),
     Lit (CHR '')'')]"

definition qdtext_rule :: spirit where "qdtext_rule = Diff TEXT_rule (Lit (CHR 0x22))"

definition quoted_string_rule :: spirit where
  "quoted_string_rule = seqs [Lit (CHR 0x22), Star (alts [qdtext_rule, quoted_pair_rule]), Lit (CHR 0x22)]"

definition HTTP_version_rule :: spirit where
  "HTTP_version_rule = seqs [Str ''HTTP'', Lit (CHR ''/''), Plus DIGIT_rule, Lit (CHR ''.''), Plus DIGIT_rule]"

definition domainlabel_rule :: spirit where
  "domainlabel_rule = alts [alts [ALPHA_rule, DIGIT_rule], seqs [alts [ALPHA_rule, DIGIT_rule],
     Star (alts [ALPHA_rule, DIGIT_rule, Lit (CHR ''-'')]), alts [ALPHA_rule, DIGIT_rule]]]"

definition toplabel_rule :: spirit where
  "toplabel_rule = alts [ALPHA_rule, seqs [ALPHA_rule, Star (alts [ALPHA_rule, DIGIT_rule, Lit (CHR ''-'')]),
     alts [ALPHA_rule, DIGIT_rule]]]"

definition hostname_rule :: spirit where
  "hostname_rule = seqs [Star (seqs [domainlabel_rule, Lit (CHR ''.'')]), toplabel_rule, Opt (Lit (CHR ''.''))]"

definition IPV4address_rule :: spirit where
  "IPV4address_rule = seqs [Plus DIGIT_rule, times 3 (seqs [Lit (CHR ''.''), Plus DIGIT_rule])]"

definition host_rule :: spirit where "host_rule = alts [hostname_rule, IPV4address_rule]"
definition port_rule :: spirit where "port_rule = Plus DIGIT_rule"

definition mark_rule :: spirit where
  "mark_rule = alts [Lit (CHR ''-''), Lit (CHR ''_''), Lit (CHR ''.''), Lit (CHR ''!''), Lit (CHR ''~''),
     Lit (CHR ''*''), Lit (CHR 0x27), Lit (CHR ''(''), Lit (CHR '')'')]"

definition unreserved_rule :: spirit where "unreserved_rule = alts [ALPHA_rule, DIGIT_rule, mark_rule]"
definition escaped_rule :: spirit where "escaped_rule = seqs [Lit (CHR ''%''), HEX_rule, HEX_rule]"

definition pchar_rule :: spirit where
  "pchar_rule = alts [unreserved_rule, escaped_rule, Lit (CHR '':''), Lit (CHR ''@''), Lit (CHR ''&''),
     Lit (CHR ''=''), Lit (CHR ''+''), Lit (CHR ''$''), Lit (CHR '','')]"

definition param_rule :: spirit where "param_rule = Star pchar_rule"

definition segment_rule :: spirit where
  "segment_rule = seqs [Star pchar_rule, Star (seqs [Lit (CHR '';''), param_rule])]"

definition path_segments_rule :: spirit where "path_segments_rule = List_of segment_rule (Lit (CHR ''/''))"
definition abs_path_rule :: spirit where "abs_path_rule = seqs [Lit (CHR ''/''), path_segments_rule]"

definition reserved_rule :: spirit where
  "reserved_rule = alts [Lit (CHR '';''), Lit (CHR ''/''), Lit (CHR ''?''), Lit (CHR '':''), Lit (CHR ''@''),
     Lit (CHR ''&''), Lit (CHR ''=''), Lit (CHR ''+''), Lit (CHR ''$''), Lit (CHR '','')]"

definition uric_rule :: spirit where "uric_rule = alts [reserved_rule, unreserved_rule, escaped_rule]"
definition query_rule :: spirit where "query_rule = Star uric_rule"

definition http_URL_rule :: spirit where
  "http_URL_rule = seqs [Str ''http:'', Str ''//'', host_rule, Opt (seqs [Lit (CHR '':''), port_rule]),
     Opt (seqs [abs_path_rule, Opt (seqs [Lit (CHR ''?''), query_rule])])]"

definition wkday_rule :: spirit where
  "wkday_rule = alts [Str ''Mon'', Str ''Tue'', Str ''Wed'', Str ''Thu'', Str ''Fri'', Str ''Sat'',
     Str ''Sun'']"

definition month_rule :: spirit where
  "month_rule = alts [Str ''Jan'', Str ''Feb'', Str ''Mar'', Str ''Apr'', Str ''May'', Str ''Jun'', Str ''Jul'',
     Str ''Aug'', Str ''Sep'', Str ''Oct'', Str ''Nov'', Str ''Dec'']"

definition date1_rule :: spirit where
  "date1_rule = seqs [times 2 DIGIT_rule, SP_rule, month_rule, SP_rule, times 4 DIGIT_rule]"

definition time_rule :: spirit where
  "time_rule = seqs [times 2 DIGIT_rule, Lit (CHR '':''), times 2 DIGIT_rule, Lit (CHR '':''),
     times 2 DIGIT_rule]"

definition rfc1123_date_rule :: spirit where
  "rfc1123_date_rule = seqs [wkday_rule, Lit (CHR '',''), SP_rule, date1_rule, SP_rule, time_rule, SP_rule,
     Str ''GMT'']"

definition weekday_rule :: spirit where
  "weekday_rule = alts [Str ''Monday'', Str ''Tuesday'', Str ''Wednesday'', Str ''Thursday'', Str ''Friday'',
     Str ''Saturday'', Str ''Sunday'']"

definition date2_rule :: spirit where
  "date2_rule = seqs [times 2 DIGIT_rule, Lit (CHR ''-''), month_rule, Lit (CHR ''-''), times 2 DIGIT_rule]"

definition rfc850_date_rule :: spirit where
  "rfc850_date_rule = seqs [weekday_rule, Lit (CHR '',''), SP_rule, date2_rule, SP_rule, time_rule, SP_rule,
     Str ''GMT'']"

definition date3_rule :: spirit where
  "date3_rule = seqs [month_rule, SP_rule, alts [times 2 DIGIT_rule, seqs [SP_rule, DIGIT_rule]]]"

definition asctime_date_rule :: spirit where
  "asctime_date_rule = seqs [wkday_rule, SP_rule, date3_rule, SP_rule, time_rule, SP_rule, times 4 DIGIT_rule]"

definition HTTP_date_rule :: spirit where
  "HTTP_date_rule = alts [rfc1123_date_rule, rfc850_date_rule, asctime_date_rule]"

definition delta_seconds_rule :: spirit where "delta_seconds_rule = Plus DIGIT_rule"
definition charset_rule :: spirit where "charset_rule = token_rule"
definition content_coding_rule :: spirit where "content_coding_rule = token_rule"
definition attribute_rule :: spirit where "attribute_rule = token_rule"
definition value_rule :: spirit where "value_rule = alts [token_rule, quoted_string_rule]"
definition parameter_rule :: spirit where "parameter_rule = seqs [attribute_rule, Lit (CHR ''=''), value_rule]"

definition transfer_extension_rule :: spirit where
  "transfer_extension_rule = seqs [token_rule, Star (seqs [Lit (CHR '';''), parameter_rule])]"

definition transfer_coding_rule :: spirit where
  "transfer_coding_rule = alts [Str ''chunked'', transfer_extension_rule]"

definition chunk_size_p_rule :: spirit where "chunk_size_p_rule = Into_chunk_size (Plus HEX_rule)"
definition chunk_ext_name_rule :: spirit where "chunk_ext_name_rule = token_rule"
definition chunk_ext_val_rule :: spirit where "chunk_ext_val_rule = alts [token_rule, quoted_string_rule]"

definition chunk_extension_rule :: spirit where
  "chunk_extension_rule = Star (seqs [Lit (CHR '';''), chunk_ext_name_rule, Opt (seqs [Lit (CHR ''=''),
     chunk_ext_val_rule])])"

definition chunk_data_rule :: spirit where "chunk_data_rule = Times_chunk_size OCTET_rule"

definition chunk_rule :: spirit where
  "chunk_rule = seqs [chunk_size_p_rule, Opt chunk_extension_rule, CRLF_rule, chunk_data_rule, CRLF_rule]"

definition last_chunk_rule :: spirit where
  "last_chunk_rule = seqs [Plus (Lit (CHR ''0'')), Opt chunk_extension_rule, CRLF_rule]"

definition extension_method_rule :: spirit where "extension_method_rule = token_rule"

definition Method_rule :: spirit where
  "Method_rule = alts [Str ''OPTIONS'', Str ''GET'', Str ''HEAD'', Str ''POST'', Str ''PUT'', Str ''DELETE'',
     Str ''TRACE'', Str ''CONNECT'', extension_method_rule]"

definition Allow_rule :: spirit where
  "Allow_rule = seqs [Str ''Allow'', Lit (CHR '':''), List_of (seqs [Star LWS_rule, Method_rule,
     Star LWS_rule]) (Lit (CHR '',''))]"

definition Content_Encoding_rule :: spirit where
  "Content_Encoding_rule = seqs [Str ''Content-Encoding'', Lit (CHR '':''), List_of (seqs [Star LWS_rule,
     content_coding_rule, Star LWS_rule]) (Lit (CHR '',''))]"

definition primary_tag_rule :: spirit where "primary_tag_rule = between 1 8 ALPHA_rule"
definition subtag_rule :: spirit where "subtag_rule = between 1 8 ALPHA_rule"

definition language_tag_rule :: spirit where
  "language_tag_rule = seqs [primary_tag_rule, Star (seqs [Lit (CHR ''-''), subtag_rule])]"

definition Content_Language_rule :: spirit where
  "Content_Language_rule = seqs [Str ''Content-Language'', Lit (CHR '':''), List_of (seqs [Star LWS_rule,
     language_tag_rule, Star LWS_rule]) (Lit (CHR '',''))]"

definition Content_Length_rule :: spirit where
  "Content_Length_rule = seqs [Str ''Content-Length'', Lit (CHR '':''), Plus DIGIT_rule]"

definition scheme_rule :: spirit where
  "scheme_rule = seqs [ALPHA_rule, Star (alts [ALPHA_rule, DIGIT_rule, Lit (CHR ''+''), Lit (CHR ''-''),
     Lit (CHR ''.'')])]"

definition userinfo_rule :: spirit where
  "userinfo_rule = Star (alts [unreserved_rule, escaped_rule, Lit (CHR '';''), Lit (CHR '':''), Lit (CHR ''&''),
     Lit (CHR ''=''), Lit (CHR ''+''), Lit (CHR ''$''), Lit (CHR '','')])"

definition hostport_rule :: spirit where
  "hostport_rule = seqs [host_rule, Opt (seqs [Lit (CHR '':''), port_rule])]"

definition server_rule :: spirit where
  "server_rule = seqs [Opt (seqs [userinfo_rule, Lit (CHR ''@'')]), hostport_rule]"

definition reg_name_rule :: spirit where
  "reg_name_rule = Plus (alts [unreserved_rule, escaped_rule, Lit (CHR ''$''), Lit (CHR '',''), Lit (CHR '';''),
     Lit (CHR '':''), Lit (CHR ''@''), Lit (CHR ''&''), Lit (CHR ''=''), Lit (CHR ''+'')])"

definition authority_rule :: spirit where "authority_rule = alts [server_rule, reg_name_rule]"
definition net_path_rule :: spirit where "net_path_rule = seqs [Str ''//'', authority_rule, Opt abs_path_rule]"

definition hier_part_rule :: spirit where
  "hier_part_rule = seqs [alts [net_path_rule, abs_path_rule], Opt (seqs [Lit (CHR ''?''), query_rule])]"

definition uric_no_slash_rule :: spirit where
  "uric_no_slash_rule = alts [unreserved_rule, escaped_rule, Lit (CHR '';''), Lit (CHR ''?''), Lit (CHR '':''),
     Lit (CHR ''@''), Lit (CHR ''&''), Lit (CHR ''=''), Lit (CHR ''+''), Lit (CHR ''$''), Lit (CHR '','')]"

definition opaque_part_rule :: spirit where "opaque_part_rule = seqs [uric_no_slash_rule, Star uric_rule]"

definition absoluteURI_rule :: spirit where
  "absoluteURI_rule = seqs [scheme_rule, Lit (CHR '':''), alts [hier_part_rule, opaque_part_rule]]"

definition rel_segment_rule :: spirit where
  "rel_segment_rule = Plus (alts [unreserved_rule, escaped_rule, Lit (CHR '';''), Lit (CHR ''@''),
     Lit (CHR ''&''), Lit (CHR ''=''), Lit (CHR ''+''), Lit (CHR ''$''), Lit (CHR '','')])"

definition rel_path_rule :: spirit where "rel_path_rule = seqs [rel_segment_rule, Opt abs_path_rule]"

definition relativeURI_rule :: spirit where
  "relativeURI_rule = seqs [alts [net_path_rule, abs_path_rule, rel_path_rule], Opt (seqs [Lit (CHR ''?''),
     query_rule])]"

definition Content_Location_rule :: spirit where
  "Content_Location_rule = seqs [Str ''Content-Location'', Lit (CHR '':''), alts [absoluteURI_rule,
     relativeURI_rule]]"

definition md5_digest_rule :: spirit where "md5_digest_rule = times 32 HEX_rule"

definition Content_MD5_rule :: spirit where
  "Content_MD5_rule = seqs [Str ''Content-MD5'', Lit (CHR '';''), md5_digest_rule]"

definition bytes_unit_rule :: spirit where "bytes_unit_rule = Str ''bytes''"
definition first_byte_pos_rule :: spirit where "first_byte_pos_rule = Plus DIGIT_rule"
definition last_byte_pos_rule :: spirit where "last_byte_pos_rule = Plus DIGIT_rule"

definition byte_range_resp_spec_rule :: spirit where
  "byte_range_resp_spec_rule = alts [seqs [first_byte_pos_rule, Lit (CHR ''-''), last_byte_pos_rule],
     Lit (CHR ''*'')]"

definition instance_length_rule :: spirit where "instance_length_rule = Plus DIGIT_rule"

definition byte_content_range_spec_rule :: spirit where
  "byte_content_range_spec_rule = seqs [bytes_unit_rule, SP_rule, byte_range_resp_spec_rule, Lit (CHR ''/''),
     alts [instance_length_rule, Lit (CHR ''*'')]]"

definition content_range_spec_rule :: spirit where "content_range_spec_rule = byte_content_range_spec_rule"

definition Content_Range_rule :: spirit where
  "Content_Range_rule = seqs [Str ''Content-Range'', Lit (CHR '':''), content_range_spec_rule]"

definition type_rule :: spirit where "type_rule = token_rule"
definition subtype_rule :: spirit where "subtype_rule = token_rule"

definition media_type_rule :: spirit where
  "media_type_rule = seqs [type_rule, Lit (CHR ''/''), subtype_rule, Star (seqs [Lit (CHR '';''),
     parameter_rule])]"

definition Content_Type_rule :: spirit where
  "Content_Type_rule = seqs [Str ''Content-Type'', Lit (CHR '':''), media_type_rule]"

definition Expires_rule :: spirit where "Expires_rule = seqs [Str ''Expires'', Lit (CHR '':''), HTTP_date_rule]"

definition Last_Modified_rule :: spirit where
  "Last_Modified_rule = seqs [Str ''Last-Modified'', Lit (CHR '':''), HTTP_date_rule]"

definition field_name_rule :: spirit where "field_name_rule = token_rule"

definition field_content_rule :: spirit where
  "field_content_rule = alts [Star (alts [token_rule, separators_rule, quoted_string_rule]), Star TEXT_rule]"

definition field_value_rule :: spirit where "field_value_rule = Star (alts [field_content_rule, LWS_rule])"

definition message_header_rule :: spirit where
  "message_header_rule = seqs [field_name_rule, Lit (CHR '':''), Opt field_value_rule]"

definition extension_header_rule :: spirit where "extension_header_rule = message_header_rule"

definition entity_header_rule :: spirit where
  "entity_header_rule = alts [Allow_rule, Content_Encoding_rule, Content_Language_rule, Content_Length_rule,
     Content_Location_rule, Content_MD5_rule, Content_Range_rule, Content_Type_rule, Expires_rule,
     Last_Modified_rule, extension_header_rule]"

definition trailer_rule :: spirit where "trailer_rule = Star (seqs [entity_header_rule, CRLF_rule])"

definition Chunked_Body_rule :: spirit where
  "Chunked_Body_rule = seqs [Star chunk_rule, last_chunk_rule, trailer_rule, CRLF_rule]"

definition product_version_rule :: spirit where "product_version_rule = token_rule"

definition product_rule :: spirit where
  "product_rule = seqs [token_rule, Opt (seqs [Lit (CHR ''/''), product_version_rule])]"

definition qvalue_rule :: spirit where
  "qvalue_rule = alts [seqs [Lit (CHR ''1''), Opt (between 0 3 DIGIT_rule)], seqs [Lit (CHR ''1''),
     Opt (between 0 3 (Lit (CHR ''0'')))]]"

definition weak_rule :: spirit where "weak_rule = Str ''W/''"
definition opaque_tag_rule :: spirit where "opaque_tag_rule = quoted_string_rule"
definition entity_tag_rule :: spirit where "entity_tag_rule = seqs [Opt weak_rule, opaque_tag_rule]"
definition other_range_unit_rule :: spirit where "other_range_unit_rule = token_rule"
definition range_unit_rule :: spirit where "range_unit_rule = alts [bytes_unit_rule, other_range_unit_rule]"

definition Request_URI_rule :: spirit where
  "Request_URI_rule = alts [Lit (CHR ''*''), absoluteURI_rule, abs_path_rule, authority_rule]"

definition Request_Line_rule :: spirit where
  "Request_Line_rule = seqs [Method_rule, SP_rule, Request_URI_rule, SP_rule, HTTP_version_rule, CRLF_rule]"

definition cache_extension_rule :: spirit where
  "cache_extension_rule = seqs [token_rule, Opt (seqs [Lit (CHR ''=''), alts [token_rule,
     quoted_string_rule]])]"

definition cache_request_directive_rule :: spirit where
  "cache_request_directive_rule = alts [Str ''no-cache'', Str ''no-store'', seqs [Str ''max-age'',
     Lit (CHR ''=''), delta_seconds_rule], seqs [Str ''max-stale'', Opt (seqs [Lit (CHR ''=''),
     delta_seconds_rule])], seqs [Str ''min-fresh'', Opt (seqs [Lit (CHR ''=''), delta_seconds_rule])],
     Str ''no-transform'', Str ''only-if-cached'', cache_extension_rule]"

definition cache_response_directive_rule :: spirit where
  "cache_response_directive_rule = alts [Str ''public'', seqs [Str ''private'', Opt (seqs [Lit (CHR ''=''),
     Lit (CHR 0x22), List_of (seqs [Star LWS_rule, field_name_rule, Star LWS_rule]) (Lit (CHR '','')),
     Lit (CHR 0x22)])], seqs [Str ''no-cache'', Opt (seqs [Lit (CHR ''=''), Lit (CHR 0x22),
     List_of field_name_rule (Lit (CHR '','')), Lit (CHR 0x22)])], Str ''no-store'', Str ''no-transform'',
     Str ''must-revalidate'', Str ''proxy-revalidate'', seqs [Str ''max-age'', Lit (CHR ''=''),
     delta_seconds_rule], seqs [Str ''s-maxage'', Lit (CHR ''=''), delta_seconds_rule], cache_extension_rule]"

definition cache_directive_rule :: spirit where
  "cache_directive_rule = alts [cache_request_directive_rule, cache_response_directive_rule]"

definition Cache_Control_rule :: spirit where
  "Cache_Control_rule = seqs [Str ''Cache-Control'', Lit (CHR '':''), List_of (seqs [Star LWS_rule,
     cache_directive_rule, Star LWS_rule]) (Lit (CHR '',''))]"

definition connection_token_rule :: spirit where "connection_token_rule = token_rule"

definition Connection_rule :: spirit where
  "Connection_rule = seqs [Str ''Connection'', Lit (CHR '':''), List_of (seqs [Star LWS_rule,
     connection_token_rule, Star LWS_rule]) (Lit (CHR '',''))]"

definition Date_rule :: spirit where "Date_rule = seqs [Str ''Date'', Lit (CHR '':''), HTTP_date_rule]"

definition extension_pragma_rule :: spirit where
  "extension_pragma_rule = seqs [token_rule, Opt (seqs [Lit (CHR ''=''), alts [token_rule,
     quoted_string_rule]])]"

definition pragma_directive_rule :: spirit where
  "pragma_directive_rule = alts [Str ''no-cache'', extension_pragma_rule]"

definition Pragma_rule :: spirit where
  "Pragma_rule = seqs [Str ''Pragma'', Lit (CHR '':''), List_of (seqs [Star LWS_rule, pragma_directive_rule,
     Star LWS_rule]) (Lit (CHR '',''))]"

definition Trailer_rule :: spirit where
  "Trailer_rule = seqs [Str ''Trailer'', Lit (CHR '':''), List_of (seqs [Star LWS_rule, field_name_rule,
     Star LWS_rule]) (Lit (CHR '',''))]"

definition Transfer_Encoding_rule :: spirit where
  "Transfer_Encoding_rule = seqs [Str ''Transfer-Encoding'', Lit (CHR '':''), List_of (seqs [Star LWS_rule,
     transfer_coding_rule, Star LWS_rule]) (Lit (CHR '',''))]"

definition Upgrade_rule :: spirit where
  "Upgrade_rule = seqs [Str ''Upgrade'', Lit (CHR '':''), List_of (seqs [Star LWS_rule, product_rule,
     Star LWS_rule]) (Lit (CHR '',''))]"

definition protocol_name_rule :: spirit where "protocol_name_rule = token_rule"
definition protocol_version_rule :: spirit where "protocol_version_rule = token_rule"

definition received_protocol_rule :: spirit where
  "received_protocol_rule = seqs [Opt (seqs [protocol_name_rule, Lit (CHR ''/'')]), protocol_version_rule]"

definition pseudonym_rule :: spirit where "pseudonym_rule = token_rule"

definition received_by_rule :: spirit where
  "received_by_rule = alts [seqs [host_rule, Opt (seqs [Lit (CHR '':''), port_rule])], pseudonym_rule]"

definition Via_rule :: spirit where
  "Via_rule = seqs [Str ''Via'', Lit (CHR '':''), List_of (seqs [received_protocol_rule, received_by_rule,
     Opt (Rule ''comment_'')]) (Lit (CHR '',''))]"

definition warn_code_rule :: spirit where "warn_code_rule = times 3 DIGIT_rule"

definition warn_agent_rule :: spirit where
  "warn_agent_rule = alts [seqs [host_rule, Opt (seqs [Lit (CHR '':''), port_rule])], pseudonym_rule]"

definition warn_text_rule :: spirit where "warn_text_rule = quoted_string_rule"
definition warn_date_rule :: spirit where "warn_date_rule = seqs [Lit (CHR 0x22), HTTP_date_rule, Lit (CHR 0x22)]"

definition warning_value_rule :: spirit where
  "warning_value_rule = seqs [warn_code_rule, SP_rule, warn_agent_rule, SP_rule, warn_text_rule,
     Opt (seqs [SP_rule, warn_date_rule])]"

definition Warning_rule :: spirit where
  "Warning_rule = seqs [Str ''Warning'', Lit (CHR '':''), List_of warning_value_rule (Lit (CHR '',''))]"

definition general_header_rule :: spirit where
  "general_header_rule = alts [Cache_Control_rule, Connection_rule, Date_rule, Pragma_rule, Trailer_rule,
     Transfer_Encoding_rule, Upgrade_rule, Via_rule, Warning_rule]"

definition media_range_rule :: spirit where
  "media_range_rule = seqs [alts [Str ''*/*'', seqs [type_rule, Lit (CHR ''/''), Lit (CHR ''*'')],
     seqs [type_rule, Lit (CHR ''/''), subtype_rule]], Star (seqs [Lit (CHR '';''), parameter_rule])]"

definition accept_extension_rule :: spirit where
  "accept_extension_rule = seqs [Lit (CHR '';''), token_rule, Opt (seqs [Lit (CHR ''=''), alts [token_rule,
     quoted_string_rule]])]"

definition accept_params_rule :: spirit where
  "accept_params_rule = seqs [Lit (CHR '';''), Lit (CHR ''q''), Lit (CHR ''=''), qvalue_rule,
     Star accept_extension_rule]"

definition Accept_rule :: spirit where
  "Accept_rule = seqs [Str ''Accept'', Lit (CHR '':''), Opt (List_of (seqs [Star LWS_rule, media_range_rule,
     Star LWS_rule, Opt accept_params_rule, Star LWS_rule]) (Lit (CHR '','')))]"

definition Accept_Charset_rule :: spirit where
  "Accept_Charset_rule = seqs [Str ''Accept-Charset'', Lit (CHR '':''), List_of (seqs [Star LWS_rule,
     alts [charset_rule, Lit (CHR ''*'')], Star LWS_rule, Opt (seqs [Star LWS_rule, Lit (CHR '';''),
     Star LWS_rule, Lit (CHR ''q''), Star LWS_rule, Lit (CHR ''=''), Star LWS_rule, qvalue_rule,
     Star LWS_rule])]) (Lit (CHR '',''))]"

definition codings_rule :: spirit where "codings_rule = alts [content_coding_rule, Lit (CHR ''*'')]"

definition Accept_Encoding_rule :: spirit where
  "Accept_Encoding_rule = seqs [Str ''Accept-Encoding'', Lit (CHR '':''), List_of (seqs [Star LWS_rule,
     codings_rule, Star LWS_rule, Opt (seqs [Star LWS_rule, Lit (CHR '';''), Star LWS_rule, Lit (CHR ''q''),
     Star LWS_rule, Lit (CHR ''=''), Star LWS_rule, qvalue_rule, Star LWS_rule])]) (Lit (CHR '',''))]"

definition language_range_rule :: spirit where
  "language_range_rule = alts [seqs [between 1 8 ALPHA_rule, Star (seqs [Lit (CHR ''-''),
     between 1 8 ALPHA_rule])], Lit (CHR ''*'')]"

definition Accept_Language_rule :: spirit where
  "Accept_Language_rule = seqs [Str ''Accept-Language'', Lit (CHR '':''), List_of (seqs [Star LWS_rule,
     language_range_rule, Star LWS_rule, Opt (seqs [Star LWS_rule, Lit (CHR '';''), Star LWS_rule,
     Lit (CHR ''q''), Star LWS_rule, Lit (CHR ''=''), Star LWS_rule, qvalue_rule,
     Star LWS_rule])]) (Lit (CHR '',''))]"

definition Authorization_rule :: spirit where
  "Authorization_rule = seqs [Str ''Authorization'', Lit (CHR '':''), token_rule]"

definition expect_params_rule :: spirit where
  "expect_params_rule = seqs [Lit (CHR '';''), token_rule, Opt (seqs [Lit (CHR ''=''), alts [token_rule,
     quoted_string_rule]])]"

definition expectation_extension_rule :: spirit where
  "expectation_extension_rule = seqs [token_rule, Opt (seqs [Lit (CHR ''=''), alts [token_rule,
     quoted_string_rule], Star expect_params_rule])]"

definition expectation_rule :: spirit where
  "expectation_rule = alts [Str ''100-continue'', expectation_extension_rule]"

definition Expect_rule :: spirit where
  "Expect_rule = List_of (seqs [Star LWS_rule, expectation_rule, Star LWS_rule]) (Lit (CHR '',''))"

definition Host_rule :: spirit where
  "Host_rule = seqs [Str ''Host'', Lit (CHR '':''), host_rule, Opt (seqs [Lit (CHR '':''), port_rule])]"

definition If_Match_rule :: spirit where
  "If_Match_rule = seqs [Str ''If-Match'', Lit (CHR '':''), alts [Lit (CHR ''*''), List_of (seqs [Star LWS_rule,
     entity_tag_rule, Star LWS_rule]) (Lit (CHR '',''))]]"

definition If_Modified_Since_rule :: spirit where
  "If_Modified_Since_rule = seqs [Str ''If-Modified-Since'', Lit (CHR '':''), HTTP_date_rule]"

definition If_None_Match_rule :: spirit where
  "If_None_Match_rule = seqs [Str ''If-none-Match'', Lit (CHR '':''), alts [Lit (CHR ''*''),
     List_of (seqs [Star LWS_rule, entity_tag_rule, Star LWS_rule]) (Lit (CHR '',''))]]"

definition If_Unmodified_Since_rule :: spirit where
  "If_Unmodified_Since_rule = seqs [Str ''If-Unmodified-Since'', Lit (CHR '':''), HTTP_date_rule]"

definition Max_Forwards_rule :: spirit where
  "Max_Forwards_rule = seqs [Str ''Max-Forwards'', Lit (CHR '':''), Plus DIGIT_rule]"

definition byte_range_spec_rule :: spirit where
  "byte_range_spec_rule = seqs [first_byte_pos_rule, Lit (CHR ''-''), Opt last_byte_pos_rule]"

definition suffix_length_rule :: spirit where "suffix_length_rule = Plus DIGIT_rule"

definition suffix_byte_range_spec_rule :: spirit where
  "suffix_byte_range_spec_rule = seqs [Lit (CHR ''-''), suffix_length_rule]"

definition byte_range_set_rule :: spirit where
  "byte_range_set_rule = List_of (seqs [Star LWS_rule, alts [byte_range_spec_rule, suffix_byte_range_spec_rule],
     Star LWS_rule]) (Lit (CHR '',''))"

definition byte_ranges_specifier_rule :: spirit where
  "byte_ranges_specifier_rule = seqs [bytes_unit_rule, Lit (CHR ''=''), byte_range_set_rule]"

definition ranges_specifier_rule :: spirit where "ranges_specifier_rule = byte_ranges_specifier_rule"
definition Range_rule :: spirit where "Range_rule = seqs [Str ''Range'', Lit (CHR '':''), ranges_specifier_rule]"

definition Referer_rule :: spirit where
  "Referer_rule = seqs [Str ''Referer'', Lit (CHR '':''), alts [absoluteURI_rule, relativeURI_rule]]"

definition User_Agent_rule :: spirit where
  "User_Agent_rule = seqs [Str ''User-Agent'', Lit (CHR '':''), List_of (seqs [Star LWS_rule,
     alts [product_rule, Rule ''comment_''], Star LWS_rule]) (Lit (CHR '',''))]"

definition request_header_rule :: spirit where
  "request_header_rule = alts [Accept_rule, Accept_Charset_rule, Accept_Encoding_rule, Accept_Language_rule,
     Authorization_rule, Expect_rule, Rule ''From_'', Host_rule, If_Match_rule, If_Modified_Since_rule,
     If_None_Match_rule, Rule ''If_Range_'', If_Unmodified_Since_rule, Max_Forwards_rule,
     Rule ''Proxy_Authorization_'', Range_rule, Referer_rule, Rule ''TE_'', User_Agent_rule]"

definition message_body_rule :: spirit where "message_body_rule = alts [Plus OCTET_rule, Plus OCTET_rule]"

definition Request_rule :: spirit where
  "Request_rule = seqs [Request_Line_rule, Star (seqs [alts [general_header_rule, request_header_rule,
     entity_header_rule], CRLF_rule]), CRLF_rule, Opt message_body_rule]"

definition extension_code_rule :: spirit where "extension_code_rule = times 3 DIGIT_rule"

definition Status_Code_rule :: spirit where
  "Status_Code_rule = alts [Str ''100'', Str ''101'', Str ''200'', Str ''201'', Str ''202'', Str ''203'',
     Str ''204'', Str ''205'', Str ''206'', Str ''300'', Str ''301'', Str ''302'', Str ''303'', Str ''304'',
     Str ''305'', Str ''307'', Str ''400'', Str ''401'', Str ''402'', Str ''403'', Str ''404'', Str ''405'',
     Str ''406'', Str ''407'', Str ''408'', Str ''409'', Str ''410'', Str ''411'', Str ''412'', Str ''413'',
     Str ''414'', Str ''415'', Str ''416'', Str ''417'', Str ''500'', Str ''501'', Str ''502'', Str ''503'',
     Str ''504'', Str ''505'', extension_code_rule]"

definition Reason_Phrase_rule :: spirit where "Reason_Phrase_rule = Star (Diff (Diff TEXT_rule CR_rule) LF_rule)"

definition Status_Line_rule :: spirit where
  "Status_Line_rule = seqs [HTTP_version_rule, SP_rule, Status_Code_rule, SP_rule, Reason_Phrase_rule,
     CRLF_rule]"

definition acceptable_ranges_rule :: spirit where
  "acceptable_ranges_rule = alts [List_of (seqs [Star LWS_rule, range_unit_rule,
     Star LWS_rule]) (Lit (CHR '','')), seqs [Star LWS_rule, Str ''none'', Star LWS_rule]]"

definition Accept_Ranges_rule :: spirit where
  "Accept_Ranges_rule = seqs [Str ''Accept-Ranges'', Lit (CHR '':''), acceptable_ranges_rule]"

definition age_value_rule :: spirit where "age_value_rule = delta_seconds_rule"
definition Age_rule :: spirit where "Age_rule = seqs [Str ''Age'', Lit (CHR '':''), age_value_rule]"
definition ETag_rule :: spirit where "ETag_rule = seqs [Str ''ETag'', Lit (CHR '':''), entity_tag_rule]"

definition Location_rule :: spirit where
  "Location_rule = seqs [Str ''Last-Modified'', Lit (CHR '':''), absoluteURI_rule]"

definition Retry_After_rule :: spirit where
  "Retry_After_rule = seqs [Str ''Retry-After'', Lit (CHR '':''), alts [HTTP_date_rule, delta_seconds_rule]]"

definition Vary_rule :: spirit where
  "Vary_rule = seqs [Str ''Vary'', Lit (CHR '':''), alts [Lit (CHR ''*''), List_of (seqs [Star LWS_rule,
     field_name_rule, Star LWS_rule]) (Lit (CHR '',''))]]"

definition response_header_rule :: spirit where
  "response_header_rule = alts [Accept_Ranges_rule, Age_rule, ETag_rule, Location_rule,
     Rule ''Proxy_Authenticate_'', Retry_After_rule, Rule ''Server_'', Vary_rule, Rule ''WWW_Authenticate_'']"

definition Response_rule :: spirit where
  "Response_rule = seqs [Status_Line_rule, Star (seqs [alts [general_header_rule, response_header_rule,
     entity_header_rule], CRLF_rule]), CRLF_rule, Opt message_body_rule]"

definition HTTP_message_rule :: spirit where "HTTP_message_rule = alts [Request_rule, Response_rule]"

definition start_line_rule :: spirit where
  "start_line_rule = alts [seqs [Star CRLF_rule, Request_Line_rule], Status_Line_rule]"

definition generic_message_rule :: spirit where
  "generic_message_rule = seqs [start_line_rule, Star (seqs [message_header_rule, CRLF_rule]), CRLF_rule,
     Opt message_body_rule, Star CRLF_rule]"

definition delims_rule :: spirit where
  "delims_rule = alts [Lit (CHR ''<''), Lit (CHR ''>''), Lit (CHR ''#''), Lit (CHR ''%''), Lit (CHR 0x22)]"

definition unwise_rule :: spirit where
  "unwise_rule = alts [Lit (CHR ''{''), Lit (CHR ''}''), Lit (CHR ''|''), Lit (CHR 0x5C), Lit (CHR ''^''),
     Lit (CHR ''[''), Lit (CHR '']''), Lit (CHR 0x60)]"

definition path_rule :: spirit where "path_rule = alts [abs_path_rule, opaque_part_rule]"
definition fragment_rule :: spirit where "fragment_rule = Star uric_rule"

definition URI_reference_rule :: spirit where
  "URI_reference_rule = seqs [Opt (alts [absoluteURI_rule, relativeURI_rule]), Opt (seqs [Lit (CHR ''#''),
     fragment_rule])]"

text \<open>The rules that are referred to by name: one refers to itself, the others are declared and given no expression.\<close>

definition grammar_rules :: "string \<Rightarrow> spirit option" where
  "grammar_rules = (\<lambda>n. if n = ''comment_'' then Some comment_rule else None)"

lemmas header_rule_defs = general_header_rule_def request_header_rule_def entity_header_rule_def response_header_rule_def

end
