(* ===== verification/HttpGrammar.thy ===== *)
theory HttpGrammar
  imports Grammar HttpTypes "HOL-Library.Sublist"
begin

text \<open>
  What the rules of \<^verbatim>\<open>lib/Spin/Private/Grammar.h\<close> accept: request lines, status lines and chunk
  sizes; and what becomes of header fields and of chunked bodies. The locale
  \<open>http_grammar\<close> is the parser of the header: any parser with the documented behaviour of
  Boost.Spirit, on the rules of the header.
\<close>

section \<open>Characters of the rules\<close>

definition in_range :: "char \<Rightarrow> char \<Rightarrow> char \<Rightarrow> bool" where
  "in_range a b x \<longleftrightarrow> char_value a \<le> char_value x \<and> char_value x \<le> char_value b"

definition token_char :: "char \<Rightarrow> bool" where
  "token_char x \<longleftrightarrow> in_range (CHR 0x21) (CHR 0x7E) x \<and> x \<notin> set (''()<>@,;:/[]?={}'' @ [CHR 0x5C, CHR 0x22])"

definition alpha_char :: "char \<Rightarrow> bool" where
  "alpha_char x \<longleftrightarrow> in_range (CHR ''A'') (CHR ''Z'') x \<or> in_range (CHR ''a'') (CHR ''z'') x"

definition decimal_char :: "char \<Rightarrow> bool" where
  "decimal_char x \<longleftrightarrow> in_range (CHR ''0'') (CHR ''9'') x"

definition unreserved_char :: "char \<Rightarrow> bool" where
  "unreserved_char x \<longleftrightarrow> alpha_char x \<or> decimal_char x \<or> x \<in> set (''-_.!~*()'' @ [CHR 0x27])"

definition path_char :: "char \<Rightarrow> bool" where
  "path_char x \<longleftrightarrow> unreserved_char x \<or> x \<in> set '':@&=+$,''"

definition hex_char :: "char \<Rightarrow> bool" where
  "hex_char x \<longleftrightarrow> in_range (CHR ''a'') (CHR ''f'') x \<or> in_range (CHR ''A'') (CHR ''F'') x \<or> decimal_char x"

definition octet :: "char \<Rightarrow> bool" where
  "octet x \<longleftrightarrow> 0 \<le> char_value x"

lemmas char_defs = token_char_def alpha_char_def decimal_char_def unreserved_char_def path_char_def hex_char_def
  octet_def in_range_def char_value_def

lemma char_value_inject [simp]: "char_value x = char_value y \<longleftrightarrow> x = y"
proof -
  have "of_char x < (256 :: int)" "of_char y < (256 :: int)" "0 \<le> (of_char x :: int)" "0 \<le> (of_char y :: int)" 
    by (simp_all add: of_char_def horner_sum_simps)
  then show ?thesis by (auto simp: char_value_def)
qed

lemma char_value_bounds: "- 128 \<le> char_value x" "char_value x \<le> 127"
proof -
  have "of_char x < (256 :: int)" "0 \<le> (of_char x :: int)" by (simp_all add: of_char_def horner_sum_simps)
  then show "- 128 \<le> char_value x" "char_value x \<le> 127" by (auto simp: char_value_def)
qed

section \<open>Rules that read one character\<close>

locale http_grammar = spirit_parser grammar_rules parse for parse :: "spirit \<Rightarrow> scan \<Rightarrow> outcome option"
begin

lemma char_class_alts: "char_class p P \<Longrightarrow> char_class (alts (q # ps)) Q \<Longrightarrow> char_class (alts (p # q # ps)) (\<lambda>x. P x \<or> Q x)"
  by (simp add: char_class_Alt)

lemma char_class_alts_one: "char_class p P \<Longrightarrow> char_class (alts [p]) P"
  by simp

lemmas classes = char_class_alts char_class_alts_one char_class_Diff char_class_Lit char_class_Range

lemma SP_class: "char_class SP_rule (\<lambda>x. x = SP)"
  unfolding SP_rule_def by (rule classes)

lemma HT_class: "char_class HT_rule (\<lambda>x. x = HT)"
  unfolding HT_rule_def by (rule classes)

lemma CR_class: "char_class CR_rule (\<lambda>x. x = CR)"
  unfolding CR_rule_def by (rule classes)

lemma LF_class: "char_class LF_rule (\<lambda>x. x = LF)"
  unfolding LF_rule_def by (rule classes)

lemma token_class: "char_class (Diff (Diff CHAR_rule CTL_rule) separators_rule) token_char"
proof (rule char_class_cong)
  show "char_class (Diff (Diff CHAR_rule CTL_rule) separators_rule) (\<lambda>x.
      ((0 \<le> char_value x \<and> char_value x \<le> 127) \<and> \<not> ((0 \<le> char_value x \<and> char_value x \<le> 31) \<or> x = CHR 0x7F))
      \<and> \<not> (x \<in> set (''()<>@,;:'' @ [CHR 0x5C, CHR 0x22] @ ''/[]?={}'' @ [SP, HT])))"
    unfolding CHAR_rule_def CTL_rule_def separators_rule_def SP_rule_def HT_rule_def append.simps list.set insert_iff empty_iff
      simp_thms
    by (rule classes)+
next
  fix x :: char
  have "char_value x = 127 \<longleftrightarrow> x = CHR 0x7F" using char_value_inject [of x "CHR 0x7F"] by (simp add: char_value_def)
  moreover have "char_value x = 32 \<longleftrightarrow> x = SP" using char_value_inject [of x SP] by (simp add: char_value_def)
  moreover have "x = HT \<Longrightarrow> char_value x = 9" by (simp add: char_value_def)
  moreover have "x \<in> set (''()<>@,;:'' @ [CHR 0x5C, CHR 0x22] @ ''/[]?={}'' @ [SP, HT])
      \<longleftrightarrow> x \<in> set (''()<>@,;:/[]?={}'' @ [CHR 0x5C, CHR 0x22]) \<or> x = SP \<or> x = HT" by auto
  moreover have "in_range (CHR 0x21) (CHR 0x7E) x \<longleftrightarrow> 33 \<le> char_value x \<and> char_value x \<le> 126"
    by (simp add: in_range_def char_value_def)
  ultimately show "(((0 \<le> char_value x \<and> char_value x \<le> 127) \<and> \<not> ((0 \<le> char_value x \<and> char_value x \<le> 31) \<or> x = CHR 0x7F))
      \<and> \<not> (x \<in> set (''()<>@,;:'' @ [CHR 0x5C, CHR 0x22] @ ''/[]?={}'' @ [SP, HT]))) = token_char x"
    unfolding token_char_def by linarith
qed

lemma digit_class: "char_class DIGIT_rule decimal_char"
  unfolding DIGIT_rule_def char_range_def by (rule char_class_cong, rule classes) (simp add: decimal_char_def in_range_def)

lemma upalpha_class: "char_class UPALPHA_rule (in_range (CHR ''A'') (CHR ''Z''))"
  unfolding UPALPHA_rule_def char_range_def by (rule char_class_cong, rule classes) (simp add: in_range_def)

lemma loalpha_class: "char_class LOALPHA_rule (in_range (CHR ''a'') (CHR ''z''))"
  unfolding LOALPHA_rule_def char_range_def by (rule char_class_cong, rule classes) (simp add: in_range_def)

lemma alpha_class: "char_class ALPHA_rule alpha_char"
  unfolding ALPHA_rule_def
  by (rule char_class_cong, (rule classes upalpha_class loalpha_class)+) (simp add: alpha_char_def)

lemma mark_class: "char_class mark_rule (\<lambda>x. x \<in> set (''-_.!~*'' @ [CHR 0x27] @ ''()''))"
  unfolding mark_rule_def append.simps list.set insert_iff empty_iff simp_thms by (rule classes)+

lemma unreserved_class: "char_class unreserved_rule unreserved_char"
  unfolding unreserved_rule_def
  by (rule char_class_cong, (rule classes alpha_class digit_class mark_class)+) (auto simp: unreserved_char_def)

lemma hex_class: "char_class HEX_rule hex_char"
  unfolding HEX_rule_def char_range_def
  by (rule char_class_cong, (rule classes digit_class)+) (simp add: hex_char_def in_range_def)

lemma octet_class: "char_class OCTET_rule octet"
proof (rule char_class_cong)
  show "char_class OCTET_rule (\<lambda>x. 0 \<le> char_value x \<and> char_value x \<le> 255)" unfolding OCTET_rule_def by (rule classes)
  fix x
  show "(0 \<le> char_value x \<and> char_value x \<le> 255) = octet x" using char_value_bounds(2) [of x] by (simp add: octet_def)
qed

lemmas classes_reads = char_classD [OF SP_class] char_classD [OF HT_class] char_classD [OF CR_class] char_classD [OF LF_class]
  char_classD [OF digit_class] char_classD [OF alpha_class] char_classD [OF unreserved_class] char_classD [OF hex_class]
  char_classD [OF octet_class]

lemmas reads = classes_reads parse_Seq parse_Alt parse_Opt parse_Str parse_Lit parse_Plus

end

text \<open>Request lines: the methods, and paths as lists of segments.\<close>

definition methods :: "string list" where
  "methods = [''OPTIONS'', ''GET'', ''HEAD'', ''POST'', ''PUT'', ''DELETE'', ''TRACE'', ''CONNECT'']"

definition path_text :: "string list \<Rightarrow> string" where
  "path_text segs = concat (map (Cons (CHR ''/'')) segs)"

definition is_path :: "string list \<Rightarrow> bool" where
  "is_path segs \<longleftrightarrow> segs \<noteq> [] \<and> list_all (list_all path_char) segs"

definition request_line :: "string \<Rightarrow> string list \<Rightarrow> string" where
  "request_line m segs = m @ SP # path_text segs @ SP # ''HTTP/1.1'' @ CRLF"

definition ends_path :: "string \<Rightarrow> bool" where
  "ends_path t \<longleftrightarrow> t = [] \<or> \<not> path_char (hd t) \<and> hd t \<notin> set ''%;/''"

section \<open>Reading request lines\<close>

context http_grammar
begin

lemma CRLF_reads: "parse CRLF_rule (c, s) = Some (c, match_string CRLF s)"
  by (cases s; cases "tl s") (auto simp: CRLF_rule_def reads)

lemma blank_class: "char_class (Alt SP_rule HT_rule) (\<lambda>x. x = SP \<or> x = HT)"
  by (rule char_class_Alt SP_class HT_class)+

lemma LWS_fails: "s = [] \<or> hd s \<notin> {CR, SP, HT} \<Longrightarrow> parse LWS_rule (c, s) = Some (c, None)"
  by (cases s) (auto simp: LWS_rule_def CRLF_reads parse_Seq parse_Opt char_class_Plus [OF blank_class])

lemma token_reads: "parse token_rule (c, s)
    = Some (c, if s \<noteq> [] \<and> token_char (hd s) then Some (dropWhile token_char s) else None)"
  unfolding token_rule_def by (rule char_class_Plus [OF token_class])

lemma method_reads: "m \<in> set methods \<Longrightarrow> parse Method_rule (c, m @ r) = Some (c, Some r)"
  by (auto simp: methods_def Method_rule_def reads)

lemma pchar_reads: "path_char x \<Longrightarrow> parse pchar_rule (c, x # r) = Some (c, Some r)"
  by (auto simp: pchar_rule_def escaped_rule_def reads path_char_def)

lemma pchar_fails: "t = [] \<or> \<not> path_char (hd t) \<and> hd t \<noteq> CHR ''%'' \<Longrightarrow> parse pchar_rule (c, t) = Some (c, None)"
  by (cases t) (auto simp: pchar_rule_def escaped_rule_def reads path_char_def)

lemma Star_reads:
  assumes "\<And>c x r. x \<in> set q \<Longrightarrow> parse p (c, x # r) = Some (c, Some r)" "\<And>c. parse p (c, t) = Some (c, None)"
  shows "parse (Star p) (c, q @ t) = Some (c, Some t)"
  using assms by (induction q arbitrary: c) (simp_all add: parse_Star_stop parse_Star_more)

lemma segment_reads:
  assumes "list_all path_char q" "t = [] \<or> \<not> path_char (hd t) \<and> hd t \<notin> set ''%;''"
  shows "parse segment_rule (c, q @ t) = Some (c, Some t)"
proof -
  have "parse (Star pchar_rule) (c, q @ t) = Some (c, Some t)" for c
    using assms by (intro Star_reads pchar_reads pchar_fails) (auto simp: list_all_iff)
  moreover have "parse (Star (seqs [Lit (CHR '';''), param_rule])) (c, t) = Some (c, Some t)" for c
    using assms(2) by (cases t) (auto intro!: parse_Star_stop simp: reads)
  ultimately show ?thesis by (simp add: segment_rule_def parse_Seq)
qed

lemma not_path_char: "\<not> path_char (CHR ''/'')" "\<not> path_char SP" "\<not> path_char (CHR ''?'')" "\<not> path_char CR"
  by (simp_all add: char_defs)

lemma path_rest: "ends_path t \<Longrightarrow> path_text qs @ t = [] \<or> \<not> path_char (hd (path_text qs @ t)) \<and> hd (path_text qs @ t) \<notin> set ''%;''"
  by (cases qs) (auto simp: path_text_def ends_path_def not_path_char)

lemma segments_read:
  assumes "list_all (list_all path_char) segs" "ends_path t"
  shows "parse (Star (Seq (Lit (CHR ''/'')) segment_rule)) (c, path_text segs @ t) = Some (c, Some t)"
  using assms(1)
proof (induction segs arbitrary: c)
  case Nil
  then show ?case using assms(2) by (cases t) (auto intro!: parse_Star_stop simp: path_text_def reads ends_path_def)
next
  case (Cons q segs)
  have "parse segment_rule (c, q @ path_text segs @ t) = Some (c, Some (path_text segs @ t))"
    using Cons.prems by (intro segment_reads path_rest assms(2)) simp
  then have "parse (Seq (Lit (CHR ''/'')) segment_rule) (c, path_text (q # segs) @ t) = Some (c, Some (path_text segs @ t))"
    by (simp add: path_text_def reads)
  from parse_Star_more [OF this] Cons show ?case by simp
qed

lemma abs_path_reads:
  assumes "is_path segs" "ends_path t"
  shows "parse abs_path_rule (c, path_text segs @ t) = Some (c, Some t)"
proof -
  obtain q qs where segs: "segs = q # qs" "list_all path_char q" "list_all (list_all path_char) qs"
    using assms(1) by (cases segs) (auto simp: is_path_def)
  have "parse segment_rule (c, q @ path_text qs @ t) = Some (c, Some (path_text qs @ t))"
    by (intro segment_reads path_rest assms(2) segs(2))
  then show ?thesis using segments_read [OF segs(3) assms(2)] segs(1)
    by (simp add: abs_path_rule_def path_segments_rule_def List_of_def path_text_def reads)
qed

lemma URI_reads:
  assumes "is_path segs" "ends_path t"
  shows "parse Request_URI_rule (c, path_text segs @ t) = Some (c, Some t)"
proof -
  have "\<exists>s. path_text segs @ t = CHR ''/'' # s" using assms(1) by (cases segs) (auto simp: is_path_def path_text_def)
  moreover have "parse absoluteURI_rule (c, CHR ''/'' # s) = Some (c, None)" for s
    by (simp add: absoluteURI_rule_def scheme_rule_def reads char_defs)
  ultimately show ?thesis using abs_path_reads [OF assms]
    by (auto simp: Request_URI_rule_def parse_Alt parse_Lit)
qed

lemma version_reads: "parse HTTP_version_rule (c, ''HTTP/1.1'' @ CR # r) = Some (c, Some (CR # r))"
  "parse HTTP_version_rule (c, ''HTTP/1.1'' @ SP # r) = Some (c, Some (SP # r))"
  by (simp_all add: HTTP_version_rule_def reads char_class_Star [OF digit_class] decimal_char_def in_range_def char_value_def)

lemma request_line_reads:
  assumes "m \<in> set methods" "is_path segs"
  shows "parse Request_Line_rule (c, request_line m segs @ r) = Some (c, Some r)"
proof -
  have "ends_path (SP # s)" for s by (simp add: ends_path_def not_path_char)
  from URI_reads [OF assms(2) this] method_reads [OF assms(1)] version_reads(1) show ?thesis
    by (simp add: Request_Line_rule_def request_line_def reads CRLF_reads)
qed

end

section \<open>Header fields\<close>

definition is_token :: "string \<Rightarrow> bool" where
  "is_token n \<longleftrightarrow> n \<noteq> [] \<and> list_all token_char n"

text \<open>The literals that an alternative for a general header or for a request header in front of \<open>Expect_\<close> starts with.\<close>

definition tried_names :: "string list" where
  "tried_names = [''Cache-Control'', ''Connection'', ''Date'', ''Pragma'', ''Trailer'', ''Transfer-Encoding'', ''Upgrade'', ''Via'',
     ''Warning'', ''Accept'', ''Accept-Charset'', ''Accept-Encoding'', ''Accept-Language'', ''Authorization'', ''100-continue'']"

lemma match_string_prefix: "match_string k s = None \<longleftrightarrow> \<not> prefix k s"
  by (auto simp: match_string_def prefix_def) (metis append_take_drop_id)

lemma not_token_char: "\<not> token_char (CHR '':'')" "\<not> token_char CR" "\<not> token_char SP" "\<not> token_char HT"
  by (simp_all add: char_defs)

lemma prefix_of_name:
  assumes "\<not> prefix k n" "CHR '':'' \<notin> set k"
  shows "match_string k (n @ CHR '':'' # s) = None"
  using assms by (auto simp: match_string_prefix prefix_append prefix_Cons)

context http_grammar
begin

lemma name_reads: "is_token n \<Longrightarrow> parse token_rule (c, n @ CHR '':'' # s) = Some (c, Some (CHR '':'' # s))"
  by (cases n) (auto simp: is_token_def token_reads list_all_iff not_token_char dropWhile_append2)

lemma field_value_loops: "parse field_value_rule (c, s) = None"
proof -
  have "parse (Star p) (c, s) = None \<or> (\<exists>d r. parse (Star p) (c, s) = Some (d, Some r))" for p c s
  proof (cases "parse (Star p) (c, s)")
    case (Some z)
    then have "star_run (parse p) (c, s) z" by (simp add: parse_Star)
    then have "\<exists>d r. z = (d, Some r)" by induction auto
    then show ?thesis using Some by auto
  qed simp
  note star = this
  have "parse (alts [field_content_rule, LWS_rule]) (c, s) = None \<or>
      (\<exists>d r. parse (alts [field_content_rule, LWS_rule]) (c, s) = Some (d, Some r))" for c s
    using star [of "alts [token_rule, separators_rule, quoted_string_rule]" c s]
    by (auto simp: field_content_rule_def parse_Alt)
  then show ?thesis unfolding field_value_rule_def by (rule parse_Star_forever)
qed

lemma message_header_loops: "is_token n \<Longrightarrow> parse message_header_rule (c, n @ CHR '':'' # s) = None"
  by (simp add: message_header_rule_def field_name_rule_def name_reads field_value_loops parse_Seq parse_Lit parse_Opt)

lemma generic_message_loops:
  assumes "m \<in> set methods" "is_path segs" "is_token n"
  shows "parse generic_message_rule (c, request_line m segs @ n @ CHR '':'' # s) = None"
proof -
  have "parse CRLF_rule (c, request_line m segs @ r) = Some (c, None)" for r
    using assms(1) by (auto simp: CRLF_reads request_line_def methods_def)
  from parse_Star_stop [OF this] have line: "parse start_line_rule (c, request_line m segs @ r) = Some (c, Some r)" for r
    by (simp add: start_line_rule_def parse_Seq parse_Alt request_line_reads [OF assms(1,2)])
  have "parse (Star (Seq message_header_rule CRLF_rule)) (c, n @ CHR '':'' # s) = None"
  proof (rule ccontr)
    assume "\<not> ?thesis"
    then obtain z where "star_run (parse (Seq message_header_rule CRLF_rule)) (c, n @ CHR '':'' # s) z"
      by (auto simp: parse_Star)
    then show False by (rule star_runE) (simp_all add: parse_Seq message_header_loops [OF assms(3)])
  qed
  then show ?thesis by (simp add: generic_message_rule_def parse_Seq line)
qed

text \<open>No list of expectations has a colon behind it that is matched.\<close>

lemma Expect_takes_name:
  assumes "is_token n" "\<not> prefix ''100-continue'' n"
  shows "parse Expect_rule (c, n @ CHR '':'' # s) = Some (c, Some (CHR '':'' # s))"
proof -
  have "n @ CHR '':'' # s = [] \<or> hd (n @ CHR '':'' # s) \<notin> {CR, SP, HT}"
    using assms(1) by (cases n) (auto simp: is_token_def not_token_char)
  from parse_Star_stop [OF LWS_fails [OF this]]
  have "parse (Star LWS_rule) (c, n @ CHR '':'' # s) = Some (c, Some (n @ CHR '':'' # s))" .
  moreover have "parse (Star LWS_rule) (c, CHR '':'' # s) = Some (c, Some (CHR '':'' # s))"
    by (intro parse_Star_stop LWS_fails) simp
  moreover have "parse expectation_rule (c, n @ CHR '':'' # s) = Some (c, Some (CHR '':'' # s))"
    by (simp add: expectation_rule_def expectation_extension_rule_def reads name_reads [OF assms(1)] prefix_of_name [OF assms(2)])
  moreover have "parse (Star (Seq (Lit (CHR '','')) p)) (c, CHR '':'' # s) = Some (c, Some (CHR '':'' # s))" for p
    by (intro parse_Star_stop) (simp add: reads)
  ultimately show ?thesis by (simp add: Expect_rule_def List_of_def parse_Seq)
qed

lemma request_header_refused:
  assumes "is_token n" "\<forall>k \<in> set tried_names. \<not> prefix k n"
  shows "parse (alts [general_header_rule, request_header_rule, entity_header_rule]) (c, n @ CHR '':'' # s)
    = Some (c, Some (CHR '':'' # s))"
proof -
  have no: "match_string k (n @ CHR '':'' # s) = None" if "k \<in> set tried_names" for k
    using assms(2) that by (intro prefix_of_name) (auto simp: tried_names_def)
  have "parse general_header_rule (c, n @ CHR '':'' # s) = Some (c, None)"
    using no by (simp add: general_header_rule_def Cache_Control_rule_def Connection_rule_def Date_rule_def Pragma_rule_def
        Trailer_rule_def Transfer_Encoding_rule_def Upgrade_rule_def Via_rule_def Warning_rule_def parse_Seq parse_Alt parse_Str
        tried_names_def)
  moreover have "parse request_header_rule (c, n @ CHR '':'' # s) = Some (c, Some (CHR '':'' # s))"
    using no Expect_takes_name [OF assms(1)] assms(2) by (simp add: request_header_rule_def Accept_rule_def Accept_Charset_rule_def
        Accept_Encoding_rule_def Accept_Language_rule_def Authorization_rule_def parse_Seq parse_Alt parse_Str tried_names_def)
  ultimately show ?thesis by (simp add: parse_Alt)
qed

lemma request_refused:
  assumes "m \<in> set methods" "is_path segs" "is_token n" "\<forall>k \<in> set tried_names. \<not> prefix k n"
  shows "parse Request_rule (c, request_line m segs @ n @ CHR '':'' # s) = Some (c, None)"
proof -
  have "parse (Star (Seq (alts [general_header_rule, request_header_rule, entity_header_rule]) CRLF_rule)) (c, n @ CHR '':'' # s)
      = Some (c, Some (n @ CHR '':'' # s))"
    by (intro parse_Star_stop) (simp add: parse_Seq request_header_refused [OF assms(3,4), unfolded alts.simps] CRLF_reads)
  moreover have "match_string CRLF (n @ CHR '':'' # s) = None"
    using assms(3) by (cases n) (auto simp: is_token_def not_token_char)
  ultimately show ?thesis by (simp add: Request_rule_def parse_Seq request_line_reads [OF assms(1,2)] CRLF_reads)
qed

end

section \<open>Status lines and responses\<close>

definition phrase_char :: "char \<Rightarrow> bool" where
  "phrase_char x \<longleftrightarrow> in_range SP (CHR 0x7E) x"

context http_grammar
begin

lemma query_refused:
  assumes "m \<in> set methods" "is_path segs"
  shows "parse HTTP_message_rule (c, m @ SP # path_text segs @ CHR ''?'' # s) = Some (c, None)"
proof -
  have "ends_path (CHR ''?'' # s)" by (simp add: ends_path_def not_path_char)
  from URI_reads [OF assms(2) this] method_reads [OF assms(1)]
  have "parse Request_rule (c, m @ SP # path_text segs @ CHR ''?'' # s) = Some (c, None)" for c
    by (simp add: Request_rule_def Request_Line_rule_def reads)
  moreover have "parse Response_rule (c, m @ SP # r) = Some (c, None)" for c r
    using assms(1) by (auto simp: methods_def Response_rule_def Status_Line_rule_def HTTP_version_rule_def parse_Seq parse_Str)
  ultimately show ?thesis by (simp add: HTTP_message_rule_def parse_Alt)
qed

lemma code_reads:
  assumes "decimal_char a" "decimal_char b" "decimal_char d"
  shows "parse Status_Code_rule (c, a # b # d # s) = Some (c, Some s)"
proof -
  have "parse extension_code_rule (c, a # b # d # s) = Some (c, Some s)"
    using assms by (simp add: extension_code_rule_def times_def numeral_eq_Suc reads)
  then have "parse (alts (map Str ts @ [extension_code_rule])) (c, a # b # d # s) = Some (c, Some s)"
    if "\<forall>t \<in> set ts. length t = 3" for ts
    using that by (induction ts rule: induct_list012) (auto simp: parse_Alt parse_Str match_string_def length_Suc_conv numeral_eq_Suc)
  from this [of "[''100'', ''101'', ''200'', ''201'', ''202'', ''203'', ''204'', ''205'', ''206'', ''300'', ''301'', ''302'',
      ''303'', ''304'', ''305'', ''307'', ''400'', ''401'', ''402'', ''403'', ''404'', ''405'', ''406'', ''407'', ''408'', ''409'',
      ''410'', ''411'', ''412'', ''413'', ''414'', ''415'', ''416'', ''417'', ''500'', ''501'', ''502'', ''503'', ''504'', ''505'']"]
  show ?thesis by (simp add: Status_Code_rule_def)
qed

lemma TEXT_reads: "phrase_char x \<Longrightarrow> parse TEXT_rule (c, x # r) = Some (c, Some r)"
proof -
  assume x: "phrase_char x"
  then have "32 \<le> char_value x" "x \<noteq> CHR 0x7F" by (auto simp: phrase_char_def in_range_def char_value_def)
  then show ?thesis
    by (simp add: TEXT_rule_def CTL_rule_def reads parse_Diff parse_Range unless_as_long_def octet_def)
qed

lemma TEXT_fails: "s = [] \<or> hd s \<notin> {SP, HT} \<Longrightarrow> parse TEXT_rule (c, CR # LF # s) = Some (c, None)"
  by (cases s) (auto simp: TEXT_rule_def CTL_rule_def reads parse_Diff parse_Range unless_as_long_def octet_def
      LWS_rule_def CRLF_reads char_class_Plus [OF blank_class] char_value_def)

lemma phrase_reads:
  assumes "list_all phrase_char q" "s = [] \<or> hd s \<notin> {SP, HT}"
  shows "parse Reason_Phrase_rule (c, q @ CRLF @ s) = Some (c, Some (CRLF @ s))"
proof -
  have "phrase_char x \<Longrightarrow> x \<noteq> CR \<and> x \<noteq> LF" for x by (auto simp: phrase_char_def in_range_def char_value_def)
  then show ?thesis unfolding Reason_Phrase_rule_def using assms
    by (intro Star_reads) (auto simp: list_all_iff parse_Diff TEXT_reads TEXT_fails reads unless_as_long_def)
qed

lemma status_line_reads:
  assumes "decimal_char a" "decimal_char b" "decimal_char d" "list_all phrase_char q" "s = [] \<or> hd s \<notin> {SP, HT}"
  shows "parse Status_Line_rule (c, ''HTTP/1.1'' @ [SP, a, b, d, SP] @ q @ CRLF @ s) = Some (c, Some s)"
  using version_reads(2) phrase_reads [OF assms(4,5)]
  by (simp add: Status_Line_rule_def parse_Seq classes_reads code_reads [OF assms(1-3)] CRLF_reads)

lemma content_length_loops:
  "parse (Star (Seq (alts [general_header_rule, response_header_rule, entity_header_rule]) CRLF_rule))
     (c, ''Content-Length: '' @ s) = None"
proof -
  have "parse general_header_rule (c, ''Content-Length: '' @ s) = Some (c, None)"
    by (simp add: general_header_rule_def Cache_Control_rule_def Connection_rule_def Date_rule_def Pragma_rule_def
        Trailer_rule_def Transfer_Encoding_rule_def Upgrade_rule_def Via_rule_def Warning_rule_def parse_Seq parse_Alt parse_Str)
  moreover have "parse response_header_rule (c, ''Content-Length: '' @ s) = Some (c, None)"
    by (simp add: response_header_rule_def Accept_Ranges_rule_def Age_rule_def ETag_rule_def Location_rule_def Retry_After_rule_def
        Vary_rule_def parse_Seq parse_Alt parse_Str parse_Rule grammar_rules_def)
  moreover have "parse entity_header_rule (c, ''Content-Length: '' @ s) = None"
  proof -
    have "is_token ''Content-Length''" by (simp add: is_token_def char_defs)
    from message_header_loops [OF this, of c "SP # s"] show ?thesis
      by (simp add: entity_header_rule_def Allow_rule_def Content_Encoding_rule_def Content_Language_rule_def Content_Length_rule_def
          Content_Location_rule_def Content_MD5_rule_def Content_Range_rule_def Content_Type_rule_def Expires_rule_def
          Last_Modified_rule_def extension_header_rule_def reads char_class_Plus [OF digit_class] char_defs)
  qed
  ultimately have "parse (Seq (alts [general_header_rule, response_header_rule, entity_header_rule]) CRLF_rule)
      (c, ''Content-Length: '' @ s) = None"
    by (simp add: parse_Seq parse_Alt)
  then show ?thesis by (metis not_None_eq parse_Star star_runE option.distinct(1))
qed

end

section \<open>Chunk sizes\<close>

definition hex_digit :: "char \<Rightarrow> nat" where
  "hex_digit x = (if decimal_char x then of_char x - 48 else if in_range (CHR ''a'') (CHR ''f'') x then of_char x - 87
     else of_char x - 55)"

definition hex_number :: "(char \<Rightarrow> nat) \<Rightarrow> string \<Rightarrow> nat" where
  "hex_number v s = foldl (\<lambda>n x. 16 * n + v x) 0 s"

text \<open>The values that the code gives to the digits.\<close>

definition digit_read :: "char \<Rightarrow> nat" where
  "digit_read x = (if x = CHR ''A'' then 16 else hex_digit x)"

lemma char_values:
  "char_value (CHR ''a'') = 97" "char_value (CHR ''b'') = 98" "char_value (CHR ''c'') = 99" "char_value (CHR ''d'') = 100"
  "char_value (CHR ''e'') = 101" "char_value (CHR ''f'') = 102" "char_value (CHR ''A'') = 65" "char_value (CHR ''B'') = 66"
  "char_value (CHR ''C'') = 67" "char_value (CHR ''D'') = 68" "char_value (CHR ''E'') = 69" "char_value (CHR ''F'') = 70"
  "char_value (CHR ''0'') = 48" "char_value (CHR ''1'') = 49" "char_value (CHR ''2'') = 50" "char_value (CHR ''3'') = 51"
  "char_value (CHR ''4'') = 52" "char_value (CHR ''5'') = 53" "char_value (CHR ''6'') = 54" "char_value (CHR ''7'') = 55"
  "char_value (CHR ''8'') = 56" "char_value (CHR ''9'') = 57"
  by (simp_all add: char_value_def)

lemma in_range_cases:
  "in_range (CHR ''a'') (CHR ''f'') x \<longleftrightarrow> x \<in> set ''abcdef''" "in_range (CHR ''A'') (CHR ''F'') x \<longleftrightarrow> x \<in> set ''ABCDEF''"
  "decimal_char x \<longleftrightarrow> x \<in> set ''0123456789''"
proof -
  have v: "x = y \<longleftrightarrow> char_value x = char_value y" for y by simp
  show "in_range (CHR ''a'') (CHR ''f'') x \<longleftrightarrow> x \<in> set ''abcdef''" "in_range (CHR ''A'') (CHR ''F'') x \<longleftrightarrow> x \<in> set ''ABCDEF''"
    "decimal_char x \<longleftrightarrow> x \<in> set ''0123456789''"
    unfolding decimal_char_def in_range_def list.set insert_iff empty_iff v char_values by presburger+
qed

lemma hex_char_iff: "hex_char x \<longleftrightarrow> x \<in> set hex_charset"
  unfolding hex_char_def in_range_cases hex_charset_def by auto

lemma hex_table:
  "list_all (\<lambda>x. (let w = length (takeWhile (\<lambda>y. y \<noteq> x) hex_charset) in w < 22 \<and> (if w > 16 then w - 6 else w) = digit_read x)
     \<and> digit_read x \<le> 16 \<and> hex_digit x \<le> digit_read x) hex_charset"
  by (simp add: hex_charset_def hex_digit_def in_range_cases digit_read_def)

lemma digit_read_le: "hex_char x \<Longrightarrow> digit_read x \<le> 16" "hex_char x \<Longrightarrow> hex_digit x \<le> digit_read x"
  "hex_digit (CHR ''A'') < digit_read (CHR ''A'')"
  using hex_table unfolding hex_char_iff list_all_iff by (blast, blast) (simp add: digit_read_def hex_digit_def in_range_cases)

lemma dehex_step:
  assumes "hex_char x"
  shows "dehex_loop n (x # s) = dehex_loop (n * 16 + word_of_nat (digit_read x)) s"
  using assms hex_table unfolding hex_char_iff list_all_iff by (auto simp: Let_def)

lemma hex_number_snoc: "hex_number v (s @ [x]) = 16 * hex_number v s + v x" "hex_number v [] = 0"
  by (simp_all add: hex_number_def)

lemma dehex_reads: "list_all hex_char s \<Longrightarrow> dehex s = Inr (word_of_nat (hex_number digit_read s))"
proof -
  have "list_all hex_char s \<Longrightarrow> dehex_loop (word_of_nat n) s = Inr (word_of_nat (foldl (\<lambda>n x. 16 * n + digit_read x) n s))" for n
  proof (induction s arbitrary: n)
    case (Cons x s)
    have "word_of_nat n * 16 + word_of_nat (digit_read x) = (word_of_nat (16 * n + digit_read x) :: 64 word)" by simp
    then have "dehex_loop (word_of_nat n) (x # s) = dehex_loop (word_of_nat (16 * n + digit_read x)) s"
      using Cons.prems by (simp add: dehex_step mult.commute del: dehex_loop.simps)
    also have "\<dots> = Inr (word_of_nat (foldl (\<lambda>n x. 16 * n + digit_read x) (16 * n + digit_read x) s))"
      using Cons by (intro Cons.IH) simp
    finally show ?case by simp
  qed simp
  from this [of 0] show "list_all hex_char s \<Longrightarrow> dehex s = Inr (word_of_nat (hex_number digit_read s))"
    by (simp add: dehex_def hex_number_def)
qed

lemma hex_number_bound: "list_all hex_char s \<Longrightarrow> 15 * hex_number digit_read s + 16 \<le> 16 * 16 ^ length s"
proof (induction s rule: rev_induct)
  case (snoc x s)
  then have "15 * hex_number digit_read s + 16 \<le> 16 * 16 ^ length s" "digit_read x \<le> 16" by (auto intro: digit_read_le)
  then show ?case by (simp add: hex_number_snoc)
qed (simp add: hex_number_snoc)

lemma hex_number_less:
  "list_all hex_char s \<Longrightarrow> (if CHR ''A'' \<in> set s then hex_number hex_digit s < hex_number digit_read s
    else hex_number digit_read s = hex_number hex_digit s)"
proof (induction s rule: rev_induct)
  case (snoc x s)
  then have "hex_digit x \<le> digit_read x" "x = CHR ''A'' \<Longrightarrow> hex_digit x < digit_read x" using digit_read_le(2,3) by auto
  moreover have "x \<noteq> CHR ''A'' \<Longrightarrow> digit_read x = hex_digit x" by (simp add: digit_read_def)
  ultimately show ?case using snoc by (auto simp: hex_number_snoc split: if_splits)
qed (simp add: hex_number_snoc)

lemma hex_number_fits:
  assumes "list_all hex_char s" "length s \<le> 15"
  shows "unat (word_of_nat (hex_number digit_read s) :: 64 word) = hex_number digit_read s"
proof -
  have "(16 :: nat) ^ length s \<le> 16 ^ 15" using assms(2) by (intro power_increasing) auto
  then have "hex_number digit_read s < 2 ^ 64" using hex_number_bound [OF assms(1)] by simp
  then show ?thesis by (simp add: unat_of_nat)
qed

section \<open>Chunked bodies\<close>

definition chunk_text :: "string \<times> string \<Rightarrow> string" where
  "chunk_text q = fst q @ CRLF @ snd q @ CRLF"

text \<open>A size in hexadecimal digits that the code reads right, and as many octets.\<close>

definition is_chunk :: "string \<times> string \<Rightarrow> bool" where
  "is_chunk q \<longleftrightarrow> fst q \<noteq> [] \<and> list_all hex_char (fst q) \<and> CHR ''A'' \<notin> set (fst q) \<and> length (fst q) \<le> 15
     \<and> hex_number hex_digit (fst q) = length (snd q) \<and> list_all octet (snd q)"

definition chunked_body :: "(string \<times> string) list \<Rightarrow> string" where
  "chunked_body cs = concat (map chunk_text cs) @ chunk_text (''0'', [])"

context http_grammar
begin

lemma times_reads: "list_all octet d \<Longrightarrow> parse (times (length d) OCTET_rule) (c, d @ s) = Some (c, Some s)"
proof (induction d)
  case (Cons x d)
  then show ?case by (cases d) (simp_all add: times_def reads)
qed (simp add: times_def reads)

lemma chunk_reads:
  assumes "is_chunk q"
  shows "parse chunk_rule (c, chunk_text q @ s) = Some (word_of_nat (length (snd q)), Some s)"
proof -
  obtain h d where q: "q = (h, d)" by (cases q)
  have h: "h \<noteq> []" "list_all hex_char h" "list_all octet d" "hex_number digit_read h = length d"
    and fits: "unat (word_of_nat (length d) :: 64 word) = length d"
    using assms q hex_number_less [of h] hex_number_fits [of h] by (auto simp: is_chunk_def)
  have "parse (Plus HEX_rule) (c, h @ CR # r) = Some (c, Some (CR # r))" for r
    using h(1,2) by (cases h) (auto simp: char_class_Plus [OF hex_class] dropWhile_append2 list_all_iff char_defs)
  then have "parse chunk_size_p_rule (c, h @ CR # r) = Some (word_of_nat (length d), Some (CR # r))" for r
    using h(2,4) by (simp add: chunk_size_p_rule_def parse_Into assign_chunk_size_def HexAdapter_assign_def HexAdapter_ref_def
        HexAdapter_def dehex_reads)
  moreover have "parse chunk_extension_rule (n, CR # r) = Some (n, Some (CR # r))" for n r
    unfolding chunk_extension_rule_def by (intro parse_Star_stop) (simp add: reads)
  ultimately show ?thesis using times_reads [OF h(3), of _ "CRLF @ s"] fits
    by (simp add: chunk_rule_def chunk_data_rule_def chunk_text_def q reads CRLF_reads parse_Times)
qed

lemma chunks_read:
  assumes "list_all is_chunk cs"
  shows "\<exists>n. parse (Star chunk_rule) (c, concat (map chunk_text cs)) = Some (n, Some [])"
  using assms
proof (induction cs arbitrary: c)
  case Nil
  have "parse chunk_rule (c, []) = Some (c, None)"
    by (simp add: chunk_rule_def chunk_size_p_rule_def parse_Seq parse_Into assign_chunk_size_def char_class_Plus [OF hex_class])
  from parse_Star_stop [OF this] show ?case by simp
next
  case (Cons q cs)
  then show ?case using parse_Star_more [OF chunk_reads [of q]] by simp
qed

lemma chunked_body_refused:
  assumes "list_all is_chunk cs"
  shows "\<exists>n. parse Chunked_Body_rule (c, chunked_body cs) = Some (n, None)"
proof -
  have "is_chunk (''0'', [])" by (simp add: is_chunk_def hex_number_def hex_digit_def in_range_cases hex_char_iff hex_charset_def)
  then obtain n where "parse (Star chunk_rule) (c, chunked_body cs) = Some (n, Some [])"
    using chunks_read [of "cs @ [(''0'', [])]" c] assms by (auto simp: chunked_body_def)
  then show ?thesis
    by (simp add: Chunked_Body_rule_def last_chunk_rule_def reads)
qed

end

section \<open>Whole messages\<close>

lemma show_nat_three:
  assumes "100 \<le> n" "n < 1000"
  shows "show_nat n = [digit_char (n div 100), digit_char (n div 10 mod 10), digit_char (n mod 10)]"
proof -
  have "10 \<le> n" "10 \<le> n div 10" "n div 10 div 10 < 10" "n div 10 div 10 = n div 100" using assms by (auto simp: div_mult2_eq [symmetric])
  then show ?thesis
    using show_nat.simps [of n] show_nat.simps [of "n div 10"] show_nat.simps [of "n div 10 div 10"] by simp
qed

lemma decimal_digit_char:
  assumes "d < 10"
  shows "decimal_char (digit_char d)"
proof -
  have "d = 0 \<or> d = 1 \<or> d = 2 \<or> d = 3 \<or> d = 4 \<or> d = 5 \<or> d = 6 \<or> d = 7 \<or> d = 8 \<or> d = 9" using assms by presburger
  then show ?thesis by (elim disjE) (simp_all add: in_range_cases del: One_nat_def)
qed

context http_grammar
begin

lemma bare_message_reads:
  assumes "m \<in> set methods" "is_path segs"
  shows "parse generic_message_rule (c, request_line m segs @ CRLF) = Some (c, Some [])"
proof -
  have "parse CRLF_rule (c, request_line m segs @ r) = Some (c, None)" for r
    using assms(1) by (auto simp: CRLF_reads request_line_def methods_def)
  from parse_Star_stop [OF this] have "parse start_line_rule (c, request_line m segs @ r) = Some (c, Some r)" for r
    by (simp add: start_line_rule_def parse_Seq parse_Alt request_line_reads [OF assms])
  moreover have "parse (Star (Seq message_header_rule CRLF_rule)) (c, CRLF) = Some (c, Some CRLF)"
    by (intro parse_Star_stop) (simp add: message_header_rule_def field_name_rule_def token_reads not_token_char parse_Seq)
  moreover have "parse (Star CRLF_rule) (c, []) = Some (c, Some [])" by (intro parse_Star_stop) (simp add: CRLF_reads)
  ultimately show ?thesis
    by (simp add: generic_message_rule_def message_body_rule_def reads CRLF_reads char_class_Plus [OF octet_class])
qed

lemma response_loops:
  assumes "positional_format L" "decimal_casts L" "100 \<le> code" "code < 1000" "list_all phrase_char reason"
  shows "parse Status_Line_rule (c, serialize L (Response ''HTTP/1.1'' (int code) reason))
        = Some (c, Some (''Content-Length: 0'' @ CRLF @ CRLF))
    \<and> parse Response_rule (c, serialize L (Response ''HTTP/1.1'' (int code) reason)) = None"
proof -
  have "serialize L (Response ''HTTP/1.1'' (int code) reason) = ''HTTP/1.1''
      @ [SP, digit_char (code div 100), digit_char (code div 10 mod 10), digit_char (code mod 10), SP]
      @ reason @ CRLF @ (''Content-Length: 0'' @ CRLF @ CRLF)"
    using serialize_wire [OF assms(1,2)] show_nat_three [OF assms(3,4)]
    by (simp add: Response_def show_int_def with_content_length_def header_block_def header_line_def show_nat.simps)
  moreover have "parse Status_Line_rule (c, ''HTTP/1.1''
      @ [SP, digit_char (code div 100), digit_char (code div 10 mod 10), digit_char (code mod 10), SP]
      @ reason @ CRLF @ (''Content-Length: 0'' @ CRLF @ CRLF)) = Some (c, Some (''Content-Length: 0'' @ CRLF @ CRLF))"
    using assms(3-5) by (intro status_line_reads decimal_digit_char) auto
  ultimately have line: "parse Status_Line_rule (c, serialize L (Response ''HTTP/1.1'' (int code) reason))
      = Some (c, Some (''Content-Length: 0'' @ CRLF @ CRLF))" by simp
  then show ?thesis
    using content_length_loops [of c "''0'' @ CRLF @ CRLF"] by (simp add: Response_rule_def parse_Seq)
qed

end

interpretation interpreter: http_grammar "interpreted grammar_rules"
  by unfold_locales

section \<open>What the grammar accepts\<close>

text \<open>
  Every request line with one of the eight methods and an absolute path is read exactly; as
  soon as there is a query behind the path, the whole message is refused, because
  \<open>Request_URI_\<close> has no alternative with a path and a query.
\<close>

theorem request_lines:
  assumes "http_grammar parse" "m \<in> set methods" "is_path segs"
  shows "parse Request_Line_rule (c, request_line m segs @ s) = Some (c, Some s)
    \<and> parse HTTP_message_rule (c, m @ SP # path_text segs @ CHR ''?'' # s) = Some (c, None)"
  using http_grammar.request_line_reads [OF assms] http_grammar.query_refused [OF assms] by blast

theorem request_lines_witness:
  "interpreted grammar_rules HTTP_message_rule (0, ''GET /a/b?c HTTP/1.1'' @ CRLF @ CRLF) = Some (0, None)"
  using request_lines [OF interpreter.http_grammar_axioms, of "''GET''" "[''a'', ''b'']" 0 "''c HTTP/1.1'' @ CRLF @ CRLF"]
  by (simp add: methods_def is_path_def path_text_def path_char_def unreserved_char_def char_defs)

text \<open>
  C36: a request whose first header field is not one of those that are tried before \<open>Expect_\<close> is refused,
  whatever follows the name: \<open>Expect_\<close> lacks its own name, and takes any token for an expectation.
\<close>

theorem requests_with_other_headers_refused:
  assumes "http_grammar parse" "m \<in> set methods" "is_path segs" "is_token n" "\<forall>k \<in> set tried_names. \<not> prefix k n"
  shows "parse Request_rule (c, request_line m segs @ n @ CHR '':'' # s) = Some (c, None)"
  by (rule http_grammar.request_refused [OF assms])

theorem requests_with_other_headers_refused_witness:
  "interpreted grammar_rules Request_rule
     (0, ''GET / HTTP/1.1'' @ CRLF @ ''Host: example.com'' @ CRLF @ CRLF) = Some (0, None)"
  using requests_with_other_headers_refused [OF interpreter.http_grammar_axioms, of "''GET''" "[[]]" "''Host''" 0
      "'' example.com'' @ CRLF @ CRLF"]
  by (simp add: methods_def is_path_def path_text_def request_line_def is_token_def tried_names_def char_defs)

text \<open>
  The parser does not return from a generic message with a header field: \<open>field_value_\<close> repeats a rule
  that also matches nothing.
\<close>

theorem generic_messages_do_not_return:
  assumes "http_grammar parse" "m \<in> set methods" "is_path segs" "is_token n"
  shows "parse generic_message_rule (c, request_line m segs @ n @ CHR '':'' # s) = None
    \<and> parse generic_message_rule (c, request_line m segs @ CRLF) = Some (c, Some [])"
  using http_grammar.generic_message_loops [OF assms] http_grammar.bare_message_reads [OF assms(1-3)] by blast

theorem generic_messages_do_not_return_witness:
  "interpreted grammar_rules generic_message_rule (0, ''GET / HTTP/1.1'' @ CRLF @ ''Host: x'' @ CRLF @ CRLF) = None"
  using generic_messages_do_not_return [OF interpreter.http_grammar_axioms, of "''GET''" "[[]]" "''Host''" 0 "'' x'' @ CRLF @ CRLF"]
  by (simp add: methods_def is_path_def path_text_def request_line_def is_token_def char_defs)

text \<open>
  The status line of a response for HTTP/1.1 with a code of three digits, without header fields and without body, is read
  exactly, and then the parser does not return, because there is a blank behind the colon of the length that the library
  adds. (With a header field that a rule in front of it reads, a response may be refused instead.)
\<close>

theorem serialized_responses_do_not_return:
  assumes "http_grammar parse" "positional_format L" "decimal_casts L"
    and "100 \<le> code" "code < 1000" "list_all phrase_char reason"
  shows "parse Status_Line_rule (c, serialize L (Response ''HTTP/1.1'' (int code) reason))
        = Some (c, Some (''Content-Length: 0'' @ CRLF @ CRLF))
    \<and> parse Response_rule (c, serialize L (Response ''HTTP/1.1'' (int code) reason)) = None"
  by (rule http_grammar.response_loops [OF assms])

theorem serialized_responses_do_not_return_witness:
  "interpreted grammar_rules Response_rule (0, serialize boost_ref (Response ''HTTP/1.1'' 200 ''OK'')) = None"
  using serialized_responses_do_not_return [OF interpreter.http_grammar_axioms boost_ref_laws(2,1), of 200 "''OK''" 0]
  by (simp add: phrase_char_def char_defs)

text \<open>
  C37: a body of chunks, each with its size in at most fifteen hexadecimal digits other than a capital A (which the code
  misreads, \<open>chunk_sizes\<close>) and with as many octets below 128 (the others are refused), is read chunk by chunk, each
  exactly and with its size; and then the body is refused: the chunk of size zero at its end is taken for one more chunk, and there
  is no other for \<open>last_chunk_\<close>.
\<close>

theorem chunked_bodies_refused:
  assumes "http_grammar parse" "list_all is_chunk cs"
  shows "(\<forall>q s. q \<in> set cs \<longrightarrow> parse chunk_rule (c, chunk_text q @ s) = Some (word_of_nat (length (snd q)), Some s))
    \<and> (\<exists>n. parse Chunked_Body_rule (c, chunked_body cs) = Some (n, None))"
  using http_grammar.chunk_reads [OF assms(1)] http_grammar.chunked_body_refused [OF assms] assms(2) by (auto simp: list_all_iff)

theorem chunked_bodies_refused_witness:
  "\<exists>n. interpreted grammar_rules Chunked_Body_rule (0, ''3'' @ CRLF @ ''abc'' @ CRLF @ ''0'' @ CRLF @ CRLF) = Some (n, None)"
  using chunked_bodies_refused [OF interpreter.http_grammar_axioms, of "[(''3'', ''abc'')]" 0]
  by (simp add: chunked_body_def chunk_text_def is_chunk_def hex_number_def hex_digit_def in_range_cases hex_char_iff
      hex_charset_def octet_def char_value_def)

text \<open>
  The size that is read from up to fifteen hexadecimal digits is right exactly if there is no capital A among
  them; that one counts sixteen.
\<close>

theorem chunk_sizes:
  assumes "list_all hex_char s" "length s \<le> 15"
  shows "\<exists>n. dehex s = Inr n \<and> (unat n = hex_number hex_digit s \<longleftrightarrow> CHR ''A'' \<notin> set s)"
  using dehex_reads [OF assms(1)] hex_number_fits [OF assms] hex_number_less [OF assms(1)] by (auto split: if_splits)

theorem chunk_sizes_witness:
  "\<exists>n. dehex ''1A'' = Inr n \<and> unat n \<noteq> 26"
proof -
  have "list_all hex_char ''1A''" "length ''1A'' \<le> 15" "hex_number hex_digit ''1A'' = 26"
    by (simp_all add: hex_char_iff hex_charset_def hex_number_def hex_digit_def in_range_cases)
  from chunk_sizes [OF this(1,2)] this(3) show ?thesis by auto
qed

end
