(* ===== verification/Base64.thy ===== *)
theory Base64
  imports Prelude
begin

text \<open>
  \<^verbatim>\<open>lib/Acari/base64encode.cpp\<close>: encoding and decoding of base64, with the indices of type
  \<open>unsigned int\<close> as 32-bit words. The loops are compared with an encoding of groups of bytes.
\<close>

unbundle bit_operations_syntax

section \<open>The tables\<close>

definition base64_characters :: string where
  "base64_characters = ''ABCDEFGHIJKLMNOPQRSTUVWXYZabcdefghijklmnopqrstuvwxyz0123456789+/''"

text \<open>A \<open>char\<close> of the table, read as an \<open>int\<close>.\<close>

definition decode_characters :: "int list" where
  "decode_characters =
     [-1, -1, -1, -1, -1, -1, -1, -1, -1, -1, -1, -1, -1, -1, -1, -1,
      -1, -1, -1, -1, -1, -1, -1, -1, -1, -1, -1, -1, -1, -1, -1, -1,
      -1, -1, -1, -1, -1, -1, -1, -1, -1, -1, -1, 62, -1, -1, -1, 63,
      52, 53, 54, 55, 56, 57, 58, 59, 60, 61, -1, -1, -1, -1, -1, -1,
      -1,  0,  1,  2,  3,  4,  5,  6,  7,  8,  9, 10, 11, 12, 13, 14,
      15, 16, 17, 18, 19, 20, 21, 22, 23, 24, 25, -1, -1, -1, -1, -1,
      -1, 26, 27, 28, 29, 30, 31, 32, 33, 34, 35, 36, 37, 38, 39, 40,
      41, 42, 43, 44, 45, 46, 47, 48, 49, 50, 51, -1, -1, -1, -1, -1] @ replicate 128 (- 1)"

definition decode_char :: "char \<Rightarrow> 32 word" where
  "decode_char x = word_of_int (decode_characters ! of_char x)"

section \<open>Encoding\<close>

definition byte :: "char \<Rightarrow> 32 word" where
  "byte x = word_of_nat (of_char x)"

text \<open>The characters for the four groups of six bits.\<close>

definition sextet1 :: "32 word \<Rightarrow> char" where
  "sextet1 w = base64_characters ! unat (drop_bit 18 (w AND 0xFC0000))"
definition sextet2 :: "32 word \<Rightarrow> char" where
  "sextet2 w = base64_characters ! unat (drop_bit 12 (w AND 0x3F000))"
definition sextet3 :: "32 word \<Rightarrow> char" where
  "sextet3 w = base64_characters ! unat (drop_bit 6 (w AND 0xFC0))"
definition sextet4 :: "32 word \<Rightarrow> char" where
  "sextet4 w = base64_characters ! unat (w AND 0x3F)"

definition put :: "32 word \<Rightarrow> char \<Rightarrow> string \<Rightarrow> string" where
  "put i x buffer = buffer[unat i := x]"

partial_function (option) encode_loop :: "string \<Rightarrow> 32 word \<Rightarrow> 32 word \<Rightarrow> string \<Rightarrow> (32 word \<times> 32 word \<times> string) option" where
  "encode_loop data pos dest buffer =
     (if unat (pos + 3) \<le> length data then
        (let w = push_bit 16 (byte (data ! unat pos)) OR push_bit 8 (byte (data ! unat (pos + 1))) OR byte (data ! unat (pos + 2))
         in encode_loop data (pos + 3) (dest + 4)
              (put (dest + 3) (sextet4 w) (put (dest + 2) (sextet3 w) (put (dest + 1) (sextet2 w) (put dest (sextet1 w) buffer)))))
      else Some (pos, dest, buffer))"

definition encode_rest :: "string \<Rightarrow> 32 word \<times> 32 word \<times> string \<Rightarrow> string" where
  "encode_rest data s = (case s of (pos, dest, buffer) \<Rightarrow>
     if unat pos \<noteq> length data then
       if length data - unat pos = 2 then
         (let w = push_bit 16 (byte (data ! unat pos)) OR push_bit 8 (byte (data ! unat (pos + 1)))
          in put (dest + 2) (sextet3 w) (put (dest + 1) (sextet2 w) (put dest (sextet1 w) buffer)))
       else
         (let w = push_bit 16 (byte (data ! unat pos))
          in put (dest + 1) (sextet2 w) (put dest (sextet1 w) buffer))
     else buffer)"

text \<open>\<open>None\<close> is a loop that does not end.\<close>

definition base64encode :: "string \<Rightarrow> string option" where
  "base64encode data = map_option (encode_rest data)
     (encode_loop data 0 0 (replicate (length data div 3 * 4 + (if length data mod 3 \<noteq> 0 then 4 else 0)) (CHR ''='')))"

section \<open>Decoding\<close>

fun strip_padding :: "string \<Rightarrow> nat \<Rightarrow> nat" where
  "strip_padding s 0 = 0"
| "strip_padding s (Suc n) = (if s ! n = CHR ''='' then strip_padding s n else Suc n)"

text \<open>A negative \<open>int\<close> has its highest bit set; \<open>Inl\<close> is a return of the empty string.\<close>

definition negative :: "32 word \<Rightarrow> bool" where
  "negative w \<longleftrightarrow> sint w < 0"

definition octet1 :: "32 word \<Rightarrow> char" where
  "octet1 v = char_of (unat (drop_bit 16 (v AND 0xFF0000)))"
definition octet2 :: "32 word \<Rightarrow> char" where
  "octet2 v = char_of (unat (drop_bit 8 (v AND 0xFF00)))"
definition octet3 :: "32 word \<Rightarrow> char" where
  "octet3 v = char_of (unat (v AND 0xFF))"

partial_function (option) decode_loop :: "string \<Rightarrow> nat \<Rightarrow> 32 word \<Rightarrow> 32 word \<Rightarrow> string \<Rightarrow> (unit + 32 word \<times> 32 word \<times> string) option" where
  "decode_loop s n index dest buffer =
     (if unat (index + 4) \<le> n then
        (let v = push_bit 18 (decode_char (s ! unat index)) OR push_bit 12 (decode_char (s ! unat (index + 1)))
               OR push_bit 6 (decode_char (s ! unat (index + 2))) OR decode_char (s ! unat (index + 3))
         in if negative v then Some (Inl ())
            else decode_loop s n (index + 4) (dest + 3)
                   (put (dest + 2) (octet3 v) (put (dest + 1) (octet2 v) (put dest (octet1 v) buffer))))
      else Some (Inr (index, dest, buffer)))"

definition decode_rest :: "string \<Rightarrow> nat \<Rightarrow> 32 word \<times> 32 word \<times> string \<Rightarrow> string" where
  "decode_rest s remainder x = (case x of (index, dest, buffer) \<Rightarrow>
     if remainder = 2 then
       (let v = push_bit 18 (decode_char (s ! unat index)) OR push_bit 12 (decode_char (s ! unat (index + 1)))
        in if negative v then [] else put dest (octet1 v) buffer)
     else if remainder = 3 then
       (let v = push_bit 18 (decode_char (s ! unat index)) OR push_bit 12 (decode_char (s ! unat (index + 1)))
              OR push_bit 6 (decode_char (s ! unat (index + 2)))
        in if negative v then [] else put (dest + 1) (octet2 v) (put dest (octet1 v) buffer))
     else buffer)"

definition base64decode :: "string \<Rightarrow> string option" where
  "base64decode s = (let n = strip_padding s (length s); remainder = n mod 4 in
     if remainder = 1 then Some []
     else map_option (\<lambda>r. case r of Inl _ \<Rightarrow> [] | Inr x \<Rightarrow> decode_rest s remainder x)
       (decode_loop s n 0 0 (replicate (n div 4 * 3 + (if remainder = 2 then 1 else if remainder = 3 then 2 else 0)) (CHR ''-''))))"

section \<open>Words of 24 bits\<close>

lemma unat_less_32: "unat (x :: 32 word) < 4294967296"
  using unsigned_less [of x] by simp

lemma of_char_less: "(of_char x :: nat) < 256"
  by simp

lemma field:
  fixes x :: "32 word"
  assumes "k + m \<le> 32"
  shows "unat (drop_bit k (x AND push_bit k (mask m))) = unat x div 2 ^ k mod 2 ^ m"
proof -
  have "drop_bit k (x AND push_bit k (mask m)) = take_bit m (drop_bit k x)"
    using assms by (auto intro!: bit_eqI simp: bit_simps)
  then have "unat (drop_bit k (x AND push_bit k (mask m))) = unat (take_bit m (drop_bit k x))" by (rule arg_cong)
  also have "\<dots> = take_bit m (drop_bit k (unat x))" by (simp only: unsigned_take_bit_eq unsigned_drop_bit_eq)
      (simp add: take_bit_nat_eq_self unat_less_32)
  finally show ?thesis by (simp only: take_bit_eq_mod drop_bit_eq_div)
qed

lemma fields:
  fixes x :: "32 word"
  shows "unat (drop_bit 18 (x AND 0xFC0000)) = unat x div 2 ^ 18 mod 64" "unat (drop_bit 12 (x AND 0x3F000)) = unat x div 2 ^ 12 mod 64"
    "unat (drop_bit 6 (x AND 0xFC0)) = unat x div 2 ^ 6 mod 64" "unat (x AND 0x3F) = unat x mod 64"
    "unat (drop_bit 16 (x AND 0xFF0000)) = unat x div 2 ^ 16 mod 256" "unat (drop_bit 8 (x AND 0xFF00)) = unat x div 2 ^ 8 mod 256"
    "unat (x AND 0xFF) = unat x mod 256"
proof -
  have "push_bit 18 (mask 6) = (0xFC0000 :: 32 word)" "push_bit 12 (mask 6) = (0x3F000 :: 32 word)"
    "push_bit 6 (mask 6) = (0xFC0 :: 32 word)" "push_bit 0 (mask 6) = (0x3F :: 32 word)"
    "push_bit 16 (mask 8) = (0xFF0000 :: 32 word)" "push_bit 8 (mask 8) = (0xFF00 :: 32 word)"
    "push_bit 0 (mask 8) = (0xFF :: 32 word)"
    by (simp_all add: mask_eq_exp_minus_1 push_bit_eq_mult)
  note masks = this
  show "unat (drop_bit 18 (x AND 0xFC0000)) = unat x div 2 ^ 18 mod 64" using field [of 18 6 x, unfolded masks] by simp
  show "unat (drop_bit 12 (x AND 0x3F000)) = unat x div 2 ^ 12 mod 64" using field [of 12 6 x, unfolded masks] by simp
  show "unat (drop_bit 6 (x AND 0xFC0)) = unat x div 2 ^ 6 mod 64" using field [of 6 6 x, unfolded masks] by simp
  show "unat (x AND 0x3F) = unat x mod 64" using field [of 0 6 x, unfolded masks] by simp
  show "unat (drop_bit 16 (x AND 0xFF0000)) = unat x div 2 ^ 16 mod 256" using field [of 16 8 x, unfolded masks] by simp
  show "unat (drop_bit 8 (x AND 0xFF00)) = unat x div 2 ^ 8 mod 256" using field [of 8 8 x, unfolded masks] by simp
  show "unat (x AND 0xFF) = unat x mod 256" using field [of 0 8 x, unfolded masks] by simp
qed

lemma or_low:
  fixes x y :: "32 word"
  assumes "unat x < 2 ^ (32 - k)" "unat y < 2 ^ k" "k < 32"
  shows "unat (push_bit k x OR y) = unat x * 2 ^ k + unat y"
proof -
  have "unat (take_bit k y) = unat y" using assms(2) by (simp only: unsigned_take_bit_eq take_bit_nat_eq_self)
  then have y: "take_bit k y = y" by (simp only: word_unat_eq_iff)
  have high: "\<not> bit y i" if "k \<le> i" for i
    using bit_take_bit_iff [of k y i, unfolded y] leD [OF that] by blast
  have "push_bit k x AND y = 0"
  proof (rule bit_eqI)
    fix i
    show "bit (push_bit k x AND y) i = bit 0 i" by (cases "k \<le> i") (simp_all add: bit_and_iff bit_push_bit_iff high)
  qed
  then have or: "push_bit k x OR y = push_bit k x + y" by (simp add: disjunctive_add_eq_or)
  have "unat x * 2 ^ k + unat y < 2 ^ 32"
  proof -
    have "unat x * 2 ^ k + unat y < (unat x + 1) * 2 ^ k" using assms(2) by simp
    also have "\<dots> \<le> 2 ^ (32 - k) * 2 ^ k" using assms(1) by (intro mult_right_mono) auto
    also have "\<dots> = 2 ^ 32" using assms(3) by (simp flip: power_add)
    finally show ?thesis .
  qed
  moreover from this have "unat (push_bit k x) = unat x * 2 ^ k"
    by (subst unsigned_push_bit_eq) (simp add: push_bit_nat_def take_bit_nat_eq_self)
  ultimately show ?thesis by (simp add: or unat_word_ariths)
qed

lemma unat_byte [simp]: "unat (byte x) = of_char x"
proof -
  have "(of_char x :: nat) < 4294967296" by (rule less_trans [OF of_char_less]) simp
  then show ?thesis by (simp only: byte_def unat_of_nat) (simp del: of_char_less)
qed

lemma or_bytes:
  "unat (push_bit 16 (byte x) OR push_bit 8 (byte y) OR byte z) = of_char x * 65536 + of_char y * 256 + of_char z"
  "unat (push_bit 16 (byte x) OR push_bit 8 (byte y)) = of_char x * 65536 + of_char y * 256"
  "unat (push_bit 16 (byte x)) = of_char x * 65536"
proof -
  have b: "(of_char c :: nat) < 256" for c :: char by simp
  have low: "unat (push_bit 8 (byte y) OR w) = of_char y * 256 + unat w" if "unat w < 256" for w y
    using or_low [of "byte y" 8 w] b [of y] that by simp
  have hi: "unat (push_bit 16 (byte x) OR w) = of_char x * 65536 + unat w" if "unat w < 65536" for w
    using or_low [of "byte x" 16 w] b [of x] that by simp
  have "of_char y * 256 + of_char z < (65536 :: nat)" "of_char y * 256 < (65536 :: nat)"
    using of_char_less [of y] of_char_less [of z] by linarith+
  then have less: "unat (push_bit 8 (byte y) OR byte z) < 65536" "unat (push_bit 8 (byte y)) < 65536"
    using low [of "byte z" y] low [of 0 y] by simp_all
  show "unat (push_bit 16 (byte x) OR push_bit 8 (byte y) OR byte z) = of_char x * 65536 + of_char y * 256 + of_char z"
    using hi [OF less(1)] low [of "byte z" y] by (simp add: or.assoc)
  show "unat (push_bit 16 (byte x) OR push_bit 8 (byte y)) = of_char x * 65536 + of_char y * 256"
    using hi [OF less(2)] low [of 0 y] by simp
  show "unat (push_bit 16 (byte x)) = of_char x * 65536" using hi [of 0] by simp
qed

section \<open>Encoding in groups of three bytes\<close>

abbreviation num :: "char \<Rightarrow> nat" where "num \<equiv> of_char"

definition symbol :: "nat \<Rightarrow> char" where
  "symbol n = base64_characters ! n"

fun encoding :: "string \<Rightarrow> string" where
  "encoding [] = []"
| "encoding [x] = [symbol (num x div 4), symbol (num x mod 4 * 16), CHR ''='', CHR ''='']"
| "encoding [x, y] = [symbol (num x div 4), symbol (num x mod 4 * 16 + num y div 16), symbol (num y mod 16 * 4), CHR ''='']"
| "encoding (x # y # z # s) = symbol (num x div 4) # symbol (num x mod 4 * 16 + num y div 16)
     # symbol (num y mod 16 * 4 + num z div 64) # symbol (num z mod 64) # encoding s"

definition padded_size :: "nat \<Rightarrow> nat" where
  "padded_size n = n div 3 * 4 + (if n mod 3 \<noteq> 0 then 4 else 0)"

lemma padded_size_simps [simp]:
  "padded_size 0 = 0" "padded_size (Suc 0) = 4" "padded_size (Suc (Suc 0)) = 4"
  "padded_size (Suc (Suc (Suc n))) = 4 + padded_size n"
proof -
  have "Suc (Suc (Suc n)) = 3 + n" by simp
  then show "padded_size (Suc (Suc (Suc n))) = 4 + padded_size n"
    unfolding padded_size_def by (simp only: div_add_self1 mod_add_self1) simp
qed (simp_all add: padded_size_def)

lemma sextets:
  "sextet1 w = symbol (unat w div 2 ^ 18 mod 64)" "sextet2 w = symbol (unat w div 2 ^ 12 mod 64)"
  "sextet3 w = symbol (unat w div 2 ^ 6 mod 64)" "sextet4 w = symbol (unat w mod 64)"
  by (simp_all only: sextet1_def sextet2_def sextet3_def sextet4_def fields symbol_def)

lemma last_digit: "s < 64 \<Longrightarrow> (m * 64 + s) mod 64 = s" "s < 64 \<Longrightarrow> (m * 64 + s) div 64 = m" for m s :: nat
  by simp_all

lemma four_digits:
  fixes p q r s :: nat
  assumes "p < 64" "q < 64" "r < 64" "s < 64" "n = ((p * 64 + q) * 64 + r) * 64 + s"
  shows "n div 2 ^ 18 mod 64 = p" "n div 2 ^ 12 mod 64 = q" "n div 2 ^ 6 mod 64 = r" "n mod 64 = s"
proof -
  have "(2 :: nat) ^ 6 = 64" "(2 :: nat) ^ 12 = 64 * 64" "(2 :: nat) ^ 18 = 64 * 64 * 64" by simp_all
  then show "n div 2 ^ 18 mod 64 = p" "n div 2 ^ 12 mod 64 = q" "n div 2 ^ 6 mod 64 = r" "n mod 64 = s"
    using assms(1-4) by (simp_all only: assms(5) div_mult2_eq last_digit mod_less)
qed

lemma group_numbers:
  fixes a b c :: nat
  assumes "a < 256" "b < 256" "c < 256"
  shows "(a * 65536 + b * 256 + c) div 2 ^ 18 mod 64 = a div 4" "(a * 65536 + b * 256 + c) div 2 ^ 12 mod 64 = a mod 4 * 16 + b div 16"
    "(a * 65536 + b * 256 + c) div 2 ^ 6 mod 64 = b mod 16 * 4 + c div 64" "(a * 65536 + b * 256 + c) mod 64 = c mod 64"
proof -
  obtain a1 a0 b1 b0 c1 c0 where n: "a1 = a div 4" "a0 = a mod 4" "b1 = b div 16" "b0 = b mod 16" "c1 = c div 64" "c0 = c mod 64"
    by blast
  then have eq: "a = a1 * 4 + a0" "b = b1 * 16 + b0" "c = c1 * 64 + c0" by simp_all
  have "a1 < 64" "a0 < 4" "b1 < 16" "b0 < 16" "c1 < 4" "c0 < 64" using assms by (auto simp: n)
  then have "a1 < 64" "a0 * 16 + b1 < 64" "b0 * 4 + c1 < 64" "c0 < 64" by linarith+
  note less = this
  have "a * 65536 + b * 256 + c = ((a1 * 64 + (a0 * 16 + b1)) * 64 + (b0 * 4 + c1)) * 64 + c0" unfolding eq by simp
  note digits = four_digits [OF less this, unfolded n]
  show "(a * 65536 + b * 256 + c) div 2 ^ 18 mod 64 = a div 4"
    "(a * 65536 + b * 256 + c) div 2 ^ 12 mod 64 = a mod 4 * 16 + b div 16"
    "(a * 65536 + b * 256 + c) div 2 ^ 6 mod 64 = b mod 16 * 4 + c div 64" "(a * 65536 + b * 256 + c) mod 64 = c mod 64"
    by (fact digits)+
qed

lemma groups:
  fixes x y z :: char
  defines "w \<equiv> push_bit 16 (byte x) OR push_bit 8 (byte y) OR byte z" and "v \<equiv> push_bit 16 (byte x) OR push_bit 8 (byte y)"
    and "u \<equiv> push_bit 16 (byte x)"
  shows "[sextet1 w, sextet2 w, sextet3 w, sextet4 w] = encoding [x, y, z]"
    "[sextet1 v, sextet2 v, sextet3 v, CHR ''=''] = encoding [x, y]" "[sextet1 u, sextet2 u, CHR ''='', CHR ''=''] = encoding [x]"
proof -
  have l: "num x < 256" "num y < 256" "num z < 256" by (rule of_char_less)+
  show "[sextet1 w, sextet2 w, sextet3 w, sextet4 w] = encoding [x, y, z]"
    unfolding sextets w_def or_bytes by (simp only: group_numbers [OF l] encoding.simps)
  have z: "(0 :: nat) < 256" by simp
  show "[sextet1 v, sextet2 v, sextet3 v, CHR ''=''] = encoding [x, y]"
    using group_numbers [OF l(1,2) z] unfolding sextets v_def or_bytes by simp
  show "[sextet1 u, sextet2 u, CHR ''='', CHR ''=''] = encoding [x]"
    using group_numbers [OF l(1) z z] unfolding sextets u_def or_bytes by simp
qed

lemma at_word: "n < 2 ^ 32 \<Longrightarrow> unat (word_of_nat n :: 32 word) = n"
  by (simp add: unat_of_nat)

lemma word_adds:
  "word_of_nat n + 1 = (word_of_nat (n + 1) :: 32 word)" "word_of_nat n + 2 = (word_of_nat (n + 2) :: 32 word)"
  "word_of_nat n + 3 = (word_of_nat (n + 3) :: 32 word)" "word_of_nat n + 4 = (word_of_nat (n + 4) :: 32 word)"
  by simp_all

lemma encode_loop_step:
  assumes "p + 3 < 2 ^ 32" "d + 4 < 2 ^ 32"
  shows "encode_loop data (word_of_nat p) (word_of_nat d) buffer =
    (if p + 3 \<le> length data then
       (let w = push_bit 16 (byte (data ! p)) OR push_bit 8 (byte (data ! (p + 1))) OR byte (data ! (p + 2))
        in encode_loop data (word_of_nat (p + 3)) (word_of_nat (d + 4))
             (buffer[d := sextet1 w, d + 1 := sextet2 w, d + 2 := sextet3 w, d + 3 := sextet4 w]))
     else Some (word_of_nat p, word_of_nat d, buffer))"
proof -
  have "p < 2 ^ 32" "p + 1 < 2 ^ 32" "p + 2 < 2 ^ 32" "d < 2 ^ 32" "d + 1 < 2 ^ 32" "d + 2 < 2 ^ 32" "d + 3 < 2 ^ 32"
    using assms by simp_all
  note at = this [THEN at_word] assms(1) [THEN at_word]
  show ?thesis by (subst encode_loop.simps) (simp only: word_adds put_def at)
qed

lemma encode_rest_step:
  assumes "p + 3 < 2 ^ 32" "d + 4 < 2 ^ 32"
  shows "encode_rest data (word_of_nat p, word_of_nat d, buffer) =
    (if p \<noteq> length data then
       if length data - p = 2 then
         (let w = push_bit 16 (byte (data ! p)) OR push_bit 8 (byte (data ! (p + 1)))
          in buffer[d := sextet1 w, d + 1 := sextet2 w, d + 2 := sextet3 w])
       else (let w = push_bit 16 (byte (data ! p)) in buffer[d := sextet1 w, d + 1 := sextet2 w])
     else buffer)"
proof -
  have "p < 2 ^ 32" "p + 1 < 2 ^ 32" "d < 2 ^ 32" "d + 1 < 2 ^ 32" "d + 2 < 2 ^ 32" using assms by simp_all
  note at = this [THEN at_word]
  show ?thesis by (simp only: encode_rest_def prod.case word_adds put_def at)
qed

lemma list_update_Cons_numeral [simp]: "(x # xs)[numeral k := y] = x # xs[pred_numeral k := y]"
  by (simp add: numeral_eq_Suc)

lemma replicate_4: "replicate (4 + n) x = x # x # x # x # replicate n x" "replicate 4 x = [x, x, x, x]"
  by (simp_all add: numeral_eq_Suc)

lemma encode_loop_reads:
  assumes "length pre + length s + 3 < 2 ^ 32" "length out + padded_size (length s) + 4 < 2 ^ 32"
  shows "map_option (encode_rest (pre @ s))
      (encode_loop (pre @ s) (word_of_nat (length pre)) (word_of_nat (length out)) (out @ replicate (padded_size (length s)) (CHR ''='')))
    = Some (out @ encoding s)"
proof -
  have steps: "length pre + 3 < 2 ^ 32" "length out + 4 < 2 ^ 32" if "length pre + length s + 3 < 2 ^ 32"
    "length out + padded_size (length s) + 4 < 2 ^ 32" for pre out s :: string
    using that by simp_all
  show ?thesis using assms
  proof (induction s arbitrary: pre out rule: encoding.induct)
    case (4 x y z s)
    let ?w = "push_bit 16 (byte x) OR push_bit 8 (byte y) OR byte z"
    have "encode_loop (pre @ x # y # z # s) (word_of_nat (length pre)) (word_of_nat (length out))
          (out @ replicate (padded_size (length (x # y # z # s))) (CHR ''=''))
        = encode_loop (pre @ x # y # z # s) (word_of_nat (length pre + 3)) (word_of_nat (length out + 4))
          (out @ [sextet1 ?w, sextet2 ?w, sextet3 ?w, sextet4 ?w] @ replicate (padded_size (length s)) (CHR ''=''))"
      by (subst encode_loop_step [OF steps [OF 4(2,3)]]) (simp add: nth_append Let_def list_update_append replicate_4 del: of_nat_add)
    then show ?case
      using 4(1) [of "pre @ [x, y, z]" "out @ [sextet1 ?w, sextet2 ?w, sextet3 ?w, sextet4 ?w]"] 4(2,3) groups(1) [of x y z]
      by (simp add: add.commute)
  next
    case 1
    note steps = steps [OF this]
    show ?case by (simp add: encode_loop_step [OF steps] encode_rest_step [OF steps])
  next
    case (2 x)
    note steps = steps [OF this]
    show ?case using groups(3) [of x]
      by (simp add: encode_loop_step [OF steps] encode_rest_step [OF steps] nth_append list_update_append replicate_4 Let_def)
  next
    case (3 x y)
    note steps = steps [OF this]
    show ?case using groups(2) [of x y]
      by (simp add: encode_loop_step [OF steps] encode_rest_step [OF steps] nth_append list_update_append replicate_4 Let_def)
  qed
qed

lemma base64encode_encoding:
  assumes "length s + 3 < 2 ^ 32" "padded_size (length s) + 4 < 2 ^ 32"
  shows "base64encode s = Some (encoding s)"
proof -
  have "length ([] :: string) + length s + 3 < 2 ^ 32" "length ([] :: string) + padded_size (length s) + 4 < 2 ^ 32" using assms by simp_all
  from encode_loop_reads [OF this] show ?thesis by (simp add: base64encode_def padded_size_def)
qed

section \<open>Decoding in groups of four symbols\<close>

definition symbol_value :: "char \<Rightarrow> nat option" where
  "symbol_value x = (let v = decode_characters ! num x in if v < 0 then None else Some (nat v))"

definition bytes :: "nat \<Rightarrow> nat \<Rightarrow> nat \<Rightarrow> nat \<Rightarrow> string" where
  "bytes a b c d = [char_of (a * 4 + b div 16), char_of (b mod 16 * 16 + c div 4), char_of (c mod 4 * 64 + d)]"

fun decoding :: "string \<Rightarrow> string option" where
  "decoding [] = Some []"
| "decoding [p] = None"
| "decoding [p, q] = (case (symbol_value p, symbol_value q) of (Some a, Some b) \<Rightarrow> Some (take 1 (bytes a b 0 0)) | _ \<Rightarrow> None)"
| "decoding [p, q, r] = (case (symbol_value p, symbol_value q, symbol_value r) of
     (Some a, Some b, Some c) \<Rightarrow> Some (take 2 (bytes a b c 0)) | _ \<Rightarrow> None)"
| "decoding (p # q # r # t # s) = (case (symbol_value p, symbol_value q, symbol_value r, symbol_value t) of
     (Some a, Some b, Some c, Some d) \<Rightarrow> map_option ((@) (bytes a b c d)) (decoding s) | _ \<Rightarrow> None)"

text \<open>The text in front of the padding at the end.\<close>

definition unpadded :: "string \<Rightarrow> string" where
  "unpadded s = rev (dropWhile (\<lambda>x. x = CHR ''='') (rev s))"

lemma strip_padding: "n \<le> length s \<Longrightarrow> take (strip_padding s n) s = unpadded (take n s) \<and> strip_padding s n \<le> n"
proof (induction n)
  case (Suc n)
  then show ?case by (auto simp: unpadded_def take_Suc_conv_app_nth)
qed (simp add: unpadded_def)

lemma symbol_values:
  assumes "symbol_value x = Some v"
  shows "v < 64" "decode_char x = word_of_nat v"
proof -
  have all: "list_all (\<lambda>v. v < 64) decode_characters" by (simp add: decode_characters_def list_all_iff)
  have "length decode_characters = 256" by (simp add: decode_characters_def)
  then have "decode_characters ! num x \<in> set decode_characters" using of_char_less [of x] by (simp only: nth_mem)
  then have "decode_characters ! num x < 64" using all by (simp only: list_all_iff) 
  then show "v < 64" "decode_char x = word_of_nat v"
    using assms by (auto simp: symbol_value_def decode_char_def Let_def split: if_splits)
qed

lemma no_symbol: "symbol_value x = None \<Longrightarrow> decode_char x = - 1"
proof -
  have all: "list_all (\<lambda>v. v < 0 \<longrightarrow> v = - 1) decode_characters" by (simp add: decode_characters_def list_all_iff)
  have "length decode_characters = 256" by (simp add: decode_characters_def)
  then have "decode_characters ! num x \<in> set decode_characters" using of_char_less [of x] by (simp only: nth_mem)
  moreover assume "symbol_value x = None"
  ultimately have "decode_characters ! num x = - 1" using all unfolding list_all_iff symbol_value_def Let_def by (metis option.distinct(1))
  then show ?thesis by (simp add: decode_char_def)
qed

lemma high_bits: "6 \<le> i \<Longrightarrow> i < 32 \<Longrightarrow> bit (decode_char x) i \<longleftrightarrow> symbol_value x = None"
proof (cases "symbol_value x")
  case (Some v)
  assume i: "6 \<le> i" "i < 32"
  have "take_bit 6 v = v" using symbol_values(1) [OF Some] by (simp add: take_bit_nat_eq_self)
  then have "decode_char x = take_bit 6 (word_of_nat v)" by (simp only: symbol_values(2) [OF Some] take_bit_of_nat)
  then show ?thesis using Some i by (simp only: bit_take_bit_iff) simp
qed (simp add: no_symbol)

lemma negative_iff:
  "negative (push_bit 18 (decode_char p) OR push_bit 12 (decode_char q) OR push_bit 6 (decode_char r) OR decode_char t)
    \<longleftrightarrow> symbol_value p = None \<or> symbol_value q = None \<or> symbol_value r = None \<or> symbol_value t = None"
  "negative (push_bit 18 (decode_char p) OR push_bit 12 (decode_char q) OR push_bit 6 (decode_char r))
    \<longleftrightarrow> symbol_value p = None \<or> symbol_value q = None \<or> symbol_value r = None"
  "negative (push_bit 18 (decode_char p) OR push_bit 12 (decode_char q))
    \<longleftrightarrow> symbol_value p = None \<or> symbol_value q = None"
proof -
  have "negative w \<longleftrightarrow> bit w 31" for w using bit_last_iff [of w] by (simp add: negative_def)
  then show "negative (push_bit 18 (decode_char p) OR push_bit 12 (decode_char q) OR push_bit 6 (decode_char r) OR decode_char t)
    \<longleftrightarrow> symbol_value p = None \<or> symbol_value q = None \<or> symbol_value r = None \<or> symbol_value t = None"
  "negative (push_bit 18 (decode_char p) OR push_bit 12 (decode_char q) OR push_bit 6 (decode_char r))
    \<longleftrightarrow> symbol_value p = None \<or> symbol_value q = None \<or> symbol_value r = None"
  "negative (push_bit 18 (decode_char p) OR push_bit 12 (decode_char q))
    \<longleftrightarrow> symbol_value p = None \<or> symbol_value q = None"
    by (simp_all add: bit_or_iff bit_push_bit_iff high_bits disj_assoc)
qed

lemma or_symbols:
  assumes "symbol_value p = Some a" "symbol_value q = Some b" "symbol_value r = Some c" "symbol_value t = Some d"
  shows "unat (push_bit 18 (decode_char p) OR push_bit 12 (decode_char q) OR push_bit 6 (decode_char r) OR decode_char t)
      = ((a * 64 + b) * 64 + c) * 64 + d"
    "unat (push_bit 18 (decode_char p) OR push_bit 12 (decode_char q) OR push_bit 6 (decode_char r)) = ((a * 64 + b) * 64 + c) * 64"
    "unat (push_bit 18 (decode_char p) OR push_bit 12 (decode_char q)) = (a * 64 + b) * 64 * 64"
proof -
  have u: "unat (decode_char p) = a" "unat (decode_char q) = b" "unat (decode_char r) = c" "unat (decode_char t) = d"
    and l: "a < 64" "b < 64" "c < 64" "d < 64"
    using symbol_values [OF assms(1)] symbol_values [OF assms(2)] symbol_values [OF assms(3)] symbol_values [OF assms(4)]
    by (simp_all add: unat_of_nat)
  have r: "unat (push_bit 6 (decode_char r) OR w) = c * 64 + unat w" if "unat w < 64" for w
    using or_low [of "decode_char r" 6 w] u l that by simp
  have q: "unat (push_bit 12 (decode_char q) OR w) = b * 64 * 64 + unat w" if "unat w < 64 * 64" for w
    using or_low [of "decode_char q" 12 w] u l that by simp
  have p: "unat (push_bit 18 (decode_char p) OR w) = a * 64 * 64 * 64 + unat w" if "unat w < 64 * 64 * 64" for w
    using or_low [of "decode_char p" 18 w] u l that by simp
  have r1: "unat (push_bit 6 (decode_char r) OR decode_char t) = c * 64 + d" using r [of "decode_char t"] u l by simp
  moreover have "c * 64 + d < 64 * 64" using l by linarith
  ultimately have q1: "unat (push_bit 12 (decode_char q) OR (push_bit 6 (decode_char r) OR decode_char t)) = b * 64 * 64 + (c * 64 + d)"
    using q by simp
  moreover have "b * 64 * 64 + (c * 64 + d) < 64 * 64 * 64" using l by linarith
  ultimately show "unat (push_bit 18 (decode_char p) OR push_bit 12 (decode_char q) OR push_bit 6 (decode_char r) OR decode_char t)
      = ((a * 64 + b) * 64 + c) * 64 + d" using p by (simp add: or.assoc)
  have r2: "unat (push_bit 6 (decode_char r)) = c * 64" using r [of 0] by simp
  moreover have "c * 64 < 64 * 64" using l by linarith
  ultimately have q2: "unat (push_bit 12 (decode_char q) OR push_bit 6 (decode_char r)) = b * 64 * 64 + c * 64" using q by simp
  moreover have "b * 64 * 64 + c * 64 < 64 * 64 * 64" using l by linarith
  ultimately show "unat (push_bit 18 (decode_char p) OR push_bit 12 (decode_char q) OR push_bit 6 (decode_char r)) = ((a * 64 + b) * 64 + c) * 64"
    using p by (simp add: or.assoc)
  have "unat (push_bit 12 (decode_char q)) = b * 64 * 64" using q [of 0] by simp
  moreover have "b * 64 * 64 < 64 * 64 * 64" using l by linarith
  ultimately show "unat (push_bit 18 (decode_char p) OR push_bit 12 (decode_char q)) = (a * 64 + b) * 64 * 64" using p by simp
qed

lemma symbol_A: "symbol_value (CHR ''A'') = Some 0"
  by (simp add: symbol_value_def decode_characters_def)

lemma octets_of:
  assumes "a < 64" "b < 64" "c < 64" "d < 64" "unat w = ((a * 64 + b) * 64 + c) * 64 + d"
  shows "[octet1 w, octet2 w, octet3 w] = bytes a b c d"
proof -
  obtain b1 b0 c1 c0 where n: "b1 = b div 16" "b0 = b mod 16" "c1 = c div 4" "c0 = c mod 4" by blast
  then have eq: "b = b1 * 16 + b0" "c = c1 * 4 + c0" by simp_all
  have "a < 64" "b1 < 4" "b0 < 16" "c1 < 16" "c0 < 4" using assms by (auto simp: n)
  then have l: "a * 4 + b1 < 256" "b0 * 16 + c1 < 256" "c0 * 64 + d < 256" using assms(4) by linarith+
  have w: "unat w = ((a * 4 + b1) * 256 + (b0 * 16 + c1)) * 256 + (c0 * 64 + d)" unfolding assms(5) eq by simp
  have "(2 :: nat) ^ 8 = 256" "(2 :: nat) ^ 16 = 256 * 256" by simp_all
  moreover have last: "(m * 256 + s) mod 256 = s" "(m * 256 + s) div 256 = m" if "s < 256" for m s :: nat using that by simp_all
  ultimately have "unat w div 2 ^ 16 mod 256 = a * 4 + b1" "unat w div 2 ^ 8 mod 256 = b0 * 16 + c1" "unat w mod 256 = c0 * 64 + d"
    using l by (simp_all only: w div_mult2_eq last mod_less)
  then show ?thesis by (simp only: octet1_def octet2_def octet3_def fields bytes_def n)
qed

section \<open>The decoding loop\<close>

definition decoded_size :: "nat \<Rightarrow> nat" where
  "decoded_size n = n div 4 * 3 + (if n mod 4 = 2 then 1 else if n mod 4 = 3 then 2 else 0)"

lemma decoded_size_simps [simp]:
  "decoded_size 0 = 0" "decoded_size 2 = 1" "decoded_size 3 = 2" "decoded_size (4 + n) = 3 + decoded_size n"
  unfolding decoded_size_def by (simp_all only: div_add_self1 mod_add_self1) simp_all

lemma four_more: "Suc (Suc (Suc (Suc n))) = 4 + n" "(4 + n) mod 4 = n mod 4"
  by simp_all

lemma decode_loop_step:
  assumes "i + 4 < 2 ^ 32" "d + 3 < 2 ^ 32"
  shows "decode_loop s n (word_of_nat i) (word_of_nat d) buffer =
    (if i + 4 \<le> n then
       (let v = push_bit 18 (decode_char (s ! i)) OR push_bit 12 (decode_char (s ! (i + 1)))
              OR push_bit 6 (decode_char (s ! (i + 2))) OR decode_char (s ! (i + 3))
        in if negative v then Some (Inl ())
           else decode_loop s n (word_of_nat (i + 4)) (word_of_nat (d + 3))
                  (buffer[d := octet1 v, d + 1 := octet2 v, d + 2 := octet3 v]))
     else Some (Inr (word_of_nat i, word_of_nat d, buffer)))"
proof -
  have "i < 2 ^ 32" "i + 1 < 2 ^ 32" "i + 2 < 2 ^ 32" "i + 3 < 2 ^ 32" "d < 2 ^ 32" "d + 1 < 2 ^ 32" "d + 2 < 2 ^ 32"
    using assms by simp_all
  note at = this [THEN at_word] assms(1) [THEN at_word]
  show ?thesis by (subst decode_loop.simps) (simp only: word_adds put_def at)
qed

lemma decode_rest_step:
  assumes "i + 4 < 2 ^ 32" "d + 3 < 2 ^ 32"
  shows "decode_rest s remainder (word_of_nat i, word_of_nat d, buffer) =
    (if remainder = 2 then
       (let v = push_bit 18 (decode_char (s ! i)) OR push_bit 12 (decode_char (s ! (i + 1)))
        in if negative v then [] else buffer[d := octet1 v])
     else if remainder = 3 then
       (let v = push_bit 18 (decode_char (s ! i)) OR push_bit 12 (decode_char (s ! (i + 1)))
              OR push_bit 6 (decode_char (s ! (i + 2)))
        in if negative v then [] else buffer[d := octet1 v, d + 1 := octet2 v])
     else buffer)"
proof -
  have "i < 2 ^ 32" "i + 1 < 2 ^ 32" "i + 2 < 2 ^ 32" "d < 2 ^ 32" "d + 1 < 2 ^ 32" using assms by simp_all
  note at = this [THEN at_word]
  show ?thesis by (simp only: decode_rest_def prod.case word_adds put_def at)
qed

definition finish :: "string \<Rightarrow> nat \<Rightarrow> unit + 32 word \<times> 32 word \<times> string \<Rightarrow> string" where
  "finish s remainder r = (case r of Inl _ \<Rightarrow> [] | Inr x \<Rightarrow> decode_rest s remainder x)"

lemma replicate_3: "replicate (3 + n) x = x # x # x # replicate n x"
  by (simp add: numeral_eq_Suc)

lemma replicate_2: "replicate 2 x = [x, x]"
  by (simp add: numeral_eq_Suc)

lemma decode_loop_reads:
  assumes "length pre + length t + 4 < 2 ^ 32" "length out + decoded_size (length t) + 3 < 2 ^ 32" "length t mod 4 \<noteq> 1"
  shows "map_option (finish (pre @ t @ rest) (length t mod 4))
      (decode_loop (pre @ t @ rest) (length pre + length t) (word_of_nat (length pre)) (word_of_nat (length out))
        (out @ replicate (decoded_size (length t)) (CHR ''-'')))
    = Some (case decoding t of None \<Rightarrow> [] | Some r \<Rightarrow> out @ r)"
proof -
  have steps: "length pre + 4 < 2 ^ 32" "length out + 3 < 2 ^ 32" if "length pre + length t + 4 < 2 ^ 32"
    "length out + decoded_size (length t) + 3 < 2 ^ 32" for pre out t :: string
    using that by simp_all
  show ?thesis using assms
  proof (induction t arbitrary: pre out rule: decoding.induct)
    case (5 p q r t s)
    have len: "length (p # q # r # t # s) = 4 + length s" by simp
    note start = decode_loop_step [OF steps [OF 5(2,3)]]
    show ?case
    proof (cases "symbol_value p = None \<or> symbol_value q = None \<or> symbol_value r = None \<or> symbol_value t = None")
      case True
      then show ?thesis by (subst start) (auto simp: nth_append negative_iff finish_def split: option.splits)
    next
      case False
      then obtain a b c d where v: "symbol_value p = Some a" "symbol_value q = Some b" "symbol_value r = Some c" "symbol_value t = Some d"
        by auto
      obtain w where w: "push_bit 18 (decode_char p) OR push_bit 12 (decode_char q) OR push_bit 6 (decode_char r) OR decode_char t = w"
        by blast
      have o: "[octet1 w, octet2 w, octet3 w] = bytes a b c d"
        using v or_symbols(1) [OF v] by (intro octets_of symbol_values(1)) (simp_all add: w)
      have "decode_loop (pre @ (p # q # r # t # s) @ rest) (length pre + length (p # q # r # t # s)) (word_of_nat (length pre))
            (word_of_nat (length out)) (out @ replicate (decoded_size (length (p # q # r # t # s))) (CHR ''-''))
          = decode_loop (pre @ (p # q # r # t # s) @ rest) (length pre + length (p # q # r # t # s)) (word_of_nat (length pre + 4))
            (word_of_nat (length out + 3)) (out @ bytes a b c d @ replicate (decoded_size (length s)) (CHR ''-''))"
        using negative_iff(1) [of p q r t] by (subst start, unfold o [symmetric])
          (simp add: v nth_append Let_def len list_update_append replicate_3 w del: of_nat_add list.size)
      moreover have "length (bytes a b c d) = 3" by (simp add: bytes_def)
      ultimately show ?thesis
        using 5(1) [OF refl v(1) refl v(2) refl v(3,4), of "pre @ [p, q, r, t]" "out @ bytes a b c d"] 5(2-4) v
        by (cases "decoding s") (simp_all add: four_more add.assoc)
    qed
  next
    case 1
    note steps = steps [OF 1(1,2)]
    show ?case by (simp add: decode_loop_step [OF steps] decode_rest_step [OF steps] finish_def)
  next
    case (2 p)
    then show ?case by simp
  next
    case (3 p q)
    note steps = steps [OF 3(1,2)]
    let ?w = "push_bit 18 (decode_char p) OR push_bit 12 (decode_char q)"
    have "octet1 ?w = hd (bytes a b 0 0)" if "symbol_value p = Some a" "symbol_value q = Some b" for a b
      using octets_of [of a b 0 0 ?w] symbol_values(1) [OF that(1)] symbol_values(1) [OF that(2)] or_symbols(3) [OF that symbol_A symbol_A]
      by (auto simp: bytes_def)
    then show ?case
      by (simp add: decode_loop_step [OF steps] decode_rest_step [OF steps] finish_def nth_append Let_def negative_iff list_update_append
          numeral_2_eq_2 [symmetric] bytes_def split: option.splits)
  next
    case (4 p q r)
    note steps = steps [OF 4(1,2)]
    let ?w = "push_bit 18 (decode_char p) OR push_bit 12 (decode_char q) OR push_bit 6 (decode_char r)"
    have "[octet1 ?w, octet2 ?w] = take 2 (bytes a b c 0)"
      if "symbol_value p = Some a" "symbol_value q = Some b" "symbol_value r = Some c" for a b c
      using octets_of [of a b c 0 ?w] symbol_values(1) [OF that(1)] symbol_values(1) [OF that(2)] symbol_values(1) [OF that(3)]
        or_symbols(2) [OF that symbol_A]
      by (auto simp: bytes_def)
    then show ?case
      by (simp add: decode_loop_step [OF steps] decode_rest_step [OF steps] finish_def nth_append Let_def negative_iff list_update_append
          replicate_2 numeral_3_eq_3 [symmetric] bytes_def split: option.splits)
  qed
qed

lemma decoded_size_le: "decoded_size n \<le> n"
  by (simp add: decoded_size_def) presburger

text \<open>No text of length one more than a multiple of four is decoded.\<close>

lemma decoding_odd: "length t mod 4 = 1 \<Longrightarrow> decoding t = None"
  by (induction t rule: decoding.induct) (auto split: option.splits)

lemma base64decode_decoding:
  assumes "length s + 4 < 2 ^ 32"
  shows "base64decode s = Some (case decoding (unpadded s) of None \<Rightarrow> [] | Some r \<Rightarrow> r)"
proof -
  have n: "take (strip_padding s (length s)) s = unpadded s" "strip_padding s (length s) \<le> length s"
    using strip_padding [of "length s" s] by simp_all
  from arg_cong [OF n(1), of length] n(2) have "strip_padding s (length s) = length (unpadded s)" by simp
  moreover have "s = unpadded s @ drop (strip_padding s (length s)) s"
    using append_take_drop_id [of "strip_padding s (length s)" s] n(1) by simp
  ultimately obtain t rest where s: "s = t @ rest" "t = unpadded s" "strip_padding s (length s) = length t"
    using that by blast
  show ?thesis
  proof (cases "length t mod 4 = 1")
    case True
    then show ?thesis using s(3) decoding_odd [OF True] by (simp add: base64decode_def flip: s(2))
  next
    case False
    have len: "length t \<le> length s" using s(1) by simp
    then have "length ([] :: string) + length t + 4 < 2 ^ 32" "length ([] :: string) + decoded_size (length t) + 3 < 2 ^ 32"
      using assms decoded_size_le [of "length t"] by simp_all
    from decode_loop_reads [OF this False, of rest] have "map_option (finish s (length t mod 4))
        (decode_loop s (length t) 0 0 (replicate (decoded_size (length t)) (CHR ''-''))) = Some (case decoding t of None \<Rightarrow> [] | Some r \<Rightarrow> r)"
      by (simp flip: s(1) cong: option.case_cong)
    then show ?thesis using False by (simp only: base64decode_def s(3) Let_def if_False finish_def [abs_def] decoded_size_def s(2) [symmetric])
  qed
qed

section \<open>Correctness\<close>

lemma counts:
  "map int [0..<26] = [0, 1, 2, 3, 4, 5, 6, 7, 8, 9, 10, 11, 12, 13, 14, 15, 16, 17, 18, 19, 20, 21, 22, 23, 24, 25]"
  "map int [26..<52] = [26, 27, 28, 29, 30, 31, 32, 33, 34, 35, 36, 37, 38, 39, 40, 41, 42, 43, 44, 45, 46, 47, 48, 49, 50, 51]"
  "map int [52..<62] = [52, 53, 54, 55, 56, 57, 58, 59, 60, 61]"
  by (simp_all add: upt_rec)

lemma rows:
  shows "take 26 (drop 65 decode_characters) = map int [0..<0 + 26]" "take 26 (drop 97 decode_characters) = map int [26..<26 + 26]"
    "take 10 (drop 48 decode_characters) = map int [52..<52 + 10]" "take 1 (drop 43 decode_characters) = map int [62..<62 + 1]"
    "take 1 (drop 47 decode_characters) = map int [63..<63 + 1]"
  by (simp_all add: decode_characters_def counts)

lemma letters:
  "take 26 (drop 0 base64_characters) = map char_of [65..<65 + 26 :: nat]" "take 26 (drop 26 base64_characters) = map char_of [97..<97 + 26 :: nat]"
  "take 10 (drop 52 base64_characters) = map char_of [48..<48 + 10 :: nat]" "take 1 (drop 62 base64_characters) = map char_of [43..<43 + 1 :: nat]"
  "take 1 (drop 63 base64_characters) = map char_of [47..<47 + 1 :: nat]"
  by (simp_all add: base64_characters_def upt_rec char_of_def bit_0)

lemma row_symbol:
  assumes row: "take k (drop i decode_characters) = map int [j..<j + k]"
    and letter: "take k (drop j base64_characters) = map char_of [i..<i + k]"
    and less: "j \<le> n" "n < j + k" "i + k \<le> 256"
  shows "symbol_value (symbol n) = Some n"
proof -
  have len: "length base64_characters = 64" "length decode_characters = 256" by (simp_all add: base64_characters_def decode_characters_def)
  obtain m where m: "n = j + m" "m < k" using less by (metis le_iff_add nat_add_left_cancel_less)
  have "j + k \<le> 64" using arg_cong [OF letter, of length] m(2) by (simp add: len min_def split: if_splits)
  then have "base64_characters ! n = take k (drop j base64_characters) ! m" using m by (simp add: len)
  also have "\<dots> = char_of (i + m)" using m by (simp add: letter)
  finally have c: "num (symbol n) = i + m" using less m by (simp add: symbol_def)
  have "decode_characters ! (i + m) = take k (drop i decode_characters) ! m" using less m by (simp add: len)
  also have "\<dots> = int n" using m by (simp add: row)
  finally show ?thesis by (simp add: symbol_value_def c)
qed

lemma symbol_symbol:
  assumes "n < 64"
  shows "symbol_value (symbol n) = Some n" "symbol n \<noteq> CHR ''=''"
proof -
  consider "n < 0 + 26" | "26 \<le> n" "n < 26 + 26" | "52 \<le> n" "n < 52 + 10" | "62 \<le> n" "n < 62 + 1" | "63 \<le> n" "n < 63 + 1"
    using assms by linarith
  then show "symbol_value (symbol n) = Some n"
    by cases (rule row_symbol [OF rows(1) letters(1)] row_symbol [OF rows(2) letters(2)] row_symbol [OF rows(3) letters(3)]
        row_symbol [OF rows(4) letters(4)] row_symbol [OF rows(5) letters(5)]; simp)+
  moreover have "symbol_value (CHR ''='') = None" by (simp add: symbol_value_def decode_characters_def)
  ultimately show "symbol n \<noteq> CHR ''=''" by auto
qed

lemma groups_back:
  fixes x y z :: char
  shows "num x div 4 < 64" "num x mod 4 * 16 + num y div 16 < 64" "num y mod 16 * 4 + num z div 64 < 64" "num z mod 64 < 64"
  "num x mod 4 * 16 < 64" "num y mod 16 * 4 < 64"
  "bytes (num x div 4) (num x mod 4 * 16 + num y div 16) (num y mod 16 * 4 + num z div 64) (num z mod 64) = [x, y, z]"
  "take 2 (bytes (num x div 4) (num x mod 4 * 16 + num y div 16) (num y mod 16 * 4) 0) = [x, y]"
  "take (Suc 0) (bytes (num x div 4) (num x mod 4 * 16) 0 0) = [x]"
proof -
  have l: "num x < 256" "num y < 256" "num z < 256" by (rule of_char_less)+
  have parts: "num x mod 4 < 4" "num y div 16 < 16" "num y mod 16 < 16" "num z div 64 < 4"
    using l by (simp_all add: div_less_iff_less_mult del: of_char_less)
  then show "num x div 4 < 64" "num x mod 4 * 16 + num y div 16 < 64" "num y mod 16 * 4 + num z div 64 < 64" "num z mod 64 < 64"
    "num x mod 4 * 16 < 64" "num y mod 16 * 4 < 64" using l by linarith+
  have d: "(m * 16 + n) div 16 = m" "(m * 16 + n) mod 16 = n" if "n < 16" for m n :: nat using that by simp_all
  have e: "(m * 4 + n) div 4 = m" "(m * 4 + n) mod 4 = n" if "n < 4" for m n :: nat using that by simp_all
  have "m div k * k + m mod k = m" for m k :: nat by simp
  then show "bytes (num x div 4) (num x mod 4 * 16 + num y div 16) (num y mod 16 * 4 + num z div 64) (num z mod 64) = [x, y, z]"
    "take 2 (bytes (num x div 4) (num x mod 4 * 16 + num y div 16) (num y mod 16 * 4) 0) = [x, y]"
    "take (Suc 0) (bytes (num x div 4) (num x mod 4 * 16) 0 0) = [x]"
    unfolding bytes_def d [OF parts(2)] e [OF parts(4)] by simp_all
qed

lemma encoding_padding:
  "\<exists>k t. encoding s = t @ replicate k (CHR ''='') \<and> (t = [] \<or> last t \<noteq> CHR ''='') \<and> decoding t = Some s"
proof (induction s rule: encoding.induct)
  case (2 x)
  show ?case
    by (rule exI [of _ 2], rule exI [of _ "[symbol (num x div 4), symbol (num x mod 4 * 16)]"])
      (simp add: groups_back symbol_symbol replicate_2)
next
  case (3 x y)
  show ?case
    by (rule exI [of _ 1], rule exI [of _ "[symbol (num x div 4), symbol (num x mod 4 * 16 + num y div 16), symbol (num y mod 16 * 4)]"])
      (simp add: groups_back symbol_symbol)
next
  case (4 x y z s)
  then obtain k t where t: "encoding s = t @ replicate k (CHR ''='')" "t = [] \<or> last t \<noteq> CHR ''=''" "decoding t = Some s" by blast
  let ?g = "[symbol (num x div 4), symbol (num x mod 4 * 16 + num y div 16), symbol (num y mod 16 * 4 + num z div 64), symbol (num z mod 64)]"
  have "decoding (?g @ t) = Some (x # y # z # s)"
    using t(3) by (simp add: groups_back symbol_symbol)
  moreover have "last (?g @ t) \<noteq> CHR ''=''" using t(2) by (auto simp: groups_back symbol_symbol)
  ultimately show ?case using t(1) by (intro exI [of _ k] exI [of _ "?g @ t"]) simp
qed simp

lemma dropWhile_padding: "P x \<Longrightarrow> dropWhile P (replicate k x @ t) = dropWhile P t"
  by (induction k) simp_all

lemma unpadded_encoding: "decoding (unpadded (encoding s)) = Some s"
proof -
  obtain k t where t: "encoding s = t @ replicate k (CHR ''='')" "t = [] \<or> last t \<noteq> CHR ''=''" "decoding t = Some s"
    using encoding_padding by blast
  have "dropWhile (\<lambda>x. x = CHR ''='') (rev t) = rev t" using t(2) by (cases t rule: rev_cases) auto
  then have "unpadded (encoding s) = t" using t(1) by (simp add: unpadded_def dropWhile_padding)
  then show ?thesis using t(3) by simp
qed

lemma length_encoding: "length (encoding s) = padded_size (length s)"
  by (induction s rule: encoding.induct) simp_all

lemma padded_size_ge: "n \<le> padded_size n"
  by (simp add: padded_size_def) presburger

lemma base64encode_padded:
  assumes "padded_size (length s) + 4 < 2 ^ 32"
  shows "base64encode s = Some (encoding s)"
proof (rule base64encode_encoding [OF _ assms])
  show "length s + 3 < 2 ^ 32" using assms padded_size_ge [of "length s"] by linarith
qed

text \<open>
  C38: As long as the indices fit an \<open>unsigned int\<close>, \<open>base64encode\<close> returns, and what it returns is the base64
  encoding of the bytes three by three, padded to a multiple of four symbols; \<open>base64decode\<close> returns for every text, with the
  bytes its symbols stand for after the padding at the end is left out, and with the empty string when a
  character is not of the alphabet or a single symbol is left over.\<close>

theorem base64_is_the_encoding_by_groups:
  assumes "padded_size (length s) + 4 < 2 ^ 32" "length t + 4 < 2 ^ 32"
  shows "base64encode s = Some (encoding s) \<and> length (encoding s) = padded_size (length s) \<and>
    base64decode t = Some (case decoding (unpadded t) of None \<Rightarrow> [] | Some r \<Rightarrow> r)"
  using assms by (simp add: base64encode_padded length_encoding base64decode_decoding)

lemma base64_example: "encoding ''Ma'' = ''TWE=''" "decoding ''TWE'' = Some ''Ma''" "unpadded ''TWE='' = ''TWE''"
  by code_simp+

theorem base64_is_the_encoding_by_groups_witness:
  "base64encode ''Ma'' = Some ''TWE='' \<and> base64decode ''TWE='' = Some ''Ma''"
  using base64_is_the_encoding_by_groups [of "''Ma''" "''TWE=''"]
  by (simp add: base64_example padded_size_def del: encoding.simps decoding.simps)

text \<open>
  C39: What \<open>base64encode\<close> makes of a string, \<open>base64decode\<close> makes the string of, for every string whose encoding
  has a size that fits an \<open>unsigned int\<close>.\<close>

theorem base64_roundtrip:
  "padded_size (length s) + 4 < 2 ^ 32 \<Longrightarrow> Option.bind (base64encode s) base64decode = Some s"
  using base64decode_decoding [of "encoding s"] by (simp add: base64encode_padded length_encoding unpadded_encoding)

theorem base64_roundtrip_witness: "Option.bind (base64encode ''Ma'') base64decode = Some ''Ma''"
  by (rule base64_roundtrip) (simp add: padded_size_def)

end
