(* ===== verification/UrlCode.thy ===== *)
theory UrlCode
  imports Prelude
begin

text \<open>
  \<^verbatim>\<open>lib/Acari/urlencode.cpp\<close>: escaping of the bytes a URL may not hold, and its inverse. A \<open>char\<close> is a
  byte; the two comparisons of a range are false for the bytes from 128 on, which are negative in the source, and so
  is \<open>isxdigit\<close>.
\<close>

section \<open>Escaping\<close>

definition between :: "char \<Rightarrow> char \<Rightarrow> char \<Rightarrow> bool" where
  "between a x b \<longleftrightarrow> (of_char a :: nat) \<le> of_char x \<and> (of_char x :: nat) \<le> of_char b"

definition kept :: "bool \<Rightarrow> char \<Rightarrow> bool" where
  "kept keep_slash x \<longleftrightarrow>
     between (CHR ''0'') x (CHR ''9'') \<or> between (CHR ''A'') x (CHR ''Z'') \<or> between (CHR ''a'') x (CHR ''z'') \<or>
     x = CHR ''$'' \<or> x = CHR ''-'' \<or> x = CHR ''_'' \<or> x = CHR ''.'' \<or> x = CHR ''+'' \<or> x = CHR ''!'' \<or> x = CHR ''*'' \<or>
     x = CHR 0x27 \<or> x = CHR ''('' \<or> x = CHR '')'' \<or> x = CHR '','' \<or> (keep_slash \<and> x = CHR ''/'')"

text \<open>The format \<open>%%%02x\<close>.\<close>

definition hex_digit :: "nat \<Rightarrow> char" where
  "hex_digit n = ''0123456789abcdef'' ! n"

definition escape :: "char \<Rightarrow> string" where
  "escape x = [CHR ''%'', hex_digit (of_char x div 16), hex_digit (of_char x mod 16)]"

fun urlencode :: "string \<Rightarrow> bool \<Rightarrow> string" where
  "urlencode [] keep_slash = []"
| "urlencode (x # target) keep_slash =
     (if \<not> kept keep_slash x then escape x @ urlencode target keep_slash else x # urlencode target keep_slash)"

section \<open>Reading escapes\<close>

definition isxdigit :: "char \<Rightarrow> bool" where
  "isxdigit x \<longleftrightarrow> between (CHR ''0'') x (CHR ''9'') \<or> between (CHR ''A'') x (CHR ''F'') \<or> between (CHR ''a'') x (CHR ''f'')"

definition digit_value :: "char \<Rightarrow> nat" where
  "digit_value x = (if between (CHR ''0'') x (CHR ''9'') then of_char x - 48
     else if between (CHR ''A'') x (CHR ''F'') then of_char x - 55 else of_char x - 87)"

text \<open>\<open>strtol\<close> to base 16 of a text of two hexadecimal digits, converted to \<open>char\<close>.\<close>

definition unescape :: "char \<Rightarrow> char \<Rightarrow> char" where
  "unescape a b = char_of (digit_value a * 16 + digit_value b)"

fun urldecode :: "string \<Rightarrow> string" where
  "urldecode [] = []"
| "urldecode [x] = [x]"
| "urldecode [x, a] = x # urldecode [a]"
| "urldecode (x # a # b # target) =
     (if x = CHR ''%'' then
        if isxdigit a \<and> isxdigit b then unescape a b # urldecode target else x # urldecode (a # b # target)
      else x # urldecode (a # b # target))"

section \<open>Properties\<close>

lemma hex_digits: "list_all (\<lambda>n. isxdigit (hex_digit n) \<and> digit_value (hex_digit n) = n \<and> kept False (hex_digit n)) [0..<16]"
  by code_simp

lemma hex_digit: "n < 16 \<Longrightarrow> isxdigit (hex_digit n) \<and> digit_value (hex_digit n) = n \<and> kept False (hex_digit n)"
  using hex_digits by (simp add: list_all_iff)

lemma escape_digits:
  "isxdigit (hex_digit (of_char x div 16))" "isxdigit (hex_digit (of_char x mod 16))"
  "unescape (hex_digit (of_char x div 16)) (hex_digit (of_char x mod 16)) = x"
proof -
  have "(of_char x :: nat) < 16 * 16" by (rule less_le_trans [of _ 256]) simp_all
  then have "(of_char x :: nat) div 16 < 16" "(of_char x :: nat) mod 16 < 16" by (simp_all add: less_mult_imp_div_less)
  note digits = this [THEN hex_digit]
  then show "isxdigit (hex_digit (of_char x div 16))" "isxdigit (hex_digit (of_char x mod 16))" by simp_all
  have "(of_char x :: nat) div 16 * 16 + of_char x mod 16 = of_char x" by simp
  then show "unescape (hex_digit (of_char x div 16)) (hex_digit (of_char x mod 16)) = x" using digits by (simp add: unescape_def)
qed

lemma percent_not_kept: "\<not> kept k (CHR ''%'')"
  by (simp add: kept_def between_def)

lemma urldecode_other: "x \<noteq> CHR ''%'' \<Longrightarrow> urldecode (x # s) = x # urldecode s"
  by (cases s rule: urldecode.cases) simp_all

lemma urldecode_escape: "urldecode (escape x @ s) = x # urldecode s"
  by (simp add: escape_def escape_digits)

lemma kept_mono: "kept False x \<Longrightarrow> kept k x"
  by (auto simp: kept_def)

lemma escape_kept: "list_all (\<lambda>c. kept k c \<or> c = CHR ''%'') (escape x)"
proof -
  have "(of_char x :: nat) < 16 * 16" by (rule less_le_trans [of _ 256]) simp_all
  then have "(of_char x :: nat) div 16 < 16" "(of_char x :: nat) mod 16 < 16" by (simp_all add: less_mult_imp_div_less)
  note this [THEN hex_digit]
  then show ?thesis using kept_mono by (auto simp: escape_def)
qed

text \<open>
  C40: \<open>urldecode\<close> gives back every string that \<open>urlencode\<close> was given, whether slashes are kept or not; the encoded text
  holds no characters but the ones a URL may hold and the percent signs of its escapes, and is at most three times as long.\<close>

theorem url_roundtrip:
  "urldecode (urlencode s k) = s \<and> list_all (\<lambda>c. kept k c \<or> c = CHR ''%'') (urlencode s k) \<and>
    length (urlencode s k) \<le> 3 * length s"
proof (induction s)
  case (Cons x s)
  moreover have "x \<noteq> CHR ''%''" if "kept k x" using that percent_not_kept by auto
  moreover have "length (escape x) = 3" by (simp add: escape_def)
  ultimately show ?case by (simp add: urldecode_escape urldecode_other escape_kept)
qed simp

text \<open>A text without escapes is decoded to itself, also where a percent sign does not start one.\<close>

lemma urldecode_plain: "CHR ''%'' \<notin> set s \<Longrightarrow> urldecode s = s"
  by (induction s rule: urldecode.induct) auto

lemma urldecode_malformed: "urldecode ''100%'' = ''100%''" "urldecode ''%4'' = ''%4''" "urldecode ''%zz%41'' = ''%zzA''"
  by code_simp+

end
