(* ===== verification/UDPSocket.thy ===== *)
theory UDPSocket
  imports Connection
begin

text \<open>
  \<^verbatim>\<open>lib/Spin/UDPSocket.h\<close> and \<^verbatim>\<open>UDPSocket.cpp\<close>: sending and receiving datagrams, with the buffer for one
  datagram that \<open>peek\<close> keeps. The locks serialise the operations, so each is one function on the socket, the state
  \<open>'s\<close> of the operating system and, where it is used, the connection handler. The branch for
  version 1.33.1 of Boost is left out, in which a call-back of a socket outside a shared pointer gets the bare pointer, and the
  assertion of \<open>recv\<close> on the size of the address, which \<^verbatim>\<open>recvfrom\<close> leaves at 16 for the address family in use.
\<close>

section \<open>The socket functions of the operating system\<close>

text \<open>Ports are in network byte order; \<open>sys_select\<close> waits until the descriptor can be read or the time in microseconds is over.\<close>

record 's sockets =
  sys_socket :: "'s \<Rightarrow> int \<times> 's"
  sys_reuse_address :: "int \<Rightarrow> 's \<Rightarrow> int \<times> 's"
  sys_bind :: "int \<Rightarrow> 32 word \<Rightarrow> 16 word \<Rightarrow> 's \<Rightarrow> int \<times> 's"
  sys_sendto :: "int \<Rightarrow> string \<Rightarrow> 32 word \<Rightarrow> 16 word \<Rightarrow> 's \<Rightarrow> int \<times> 's"
  sys_recvfrom :: "int \<Rightarrow> nat \<Rightarrow> 's \<Rightarrow> (int \<times> string \<times> 32 word \<times> 16 word) \<times> 's"
  sys_select :: "int \<Rightarrow> int \<Rightarrow> 's \<Rightarrow> int \<times> 's"
  sys_close :: "int \<Rightarrow> 's \<Rightarrow> 's"
  sys_errno :: "'s \<Rightarrow> errno"

text \<open>The conversions on a little-endian machine.\<close>

definition htons :: "16 word \<Rightarrow> 16 word" where
  "htons p = or (push_bit 8 p) (drop_bit 8 p)"

definition ntohs :: "16 word \<Rightarrow> 16 word" where
  "ntohs p = or (push_bit 8 p) (drop_bit 8 p)"

lemma ntohs_htons [simp]: "ntohs (htons p) = p"
proof (rule bit_eqI)
  fix n
  assume "possible_bit TYPE(16 word) n"
  then have n: "n < 16" by simp
  then show "bit (ntohs (htons p)) n = bit p n"
    by (cases "n < 8") (auto simp: htons_def ntohs_def bit_or_iff bit_push_bit_iff bit_drop_bit_eq)
qed

text \<open>The macro \<open>SOCKET_CALL\<close>.\<close>

definition socket_call :: "'s sockets \<Rightarrow> string \<Rightarrow> string \<Rightarrow> ('s \<Rightarrow> int \<times> 's) \<Rightarrow> 's \<Rightarrow> (exn + int) \<times> 's" where
  "socket_call sys what place command s = (case command s of
     (r, s') \<Rightarrow> if r < 0 then (Inl (SocketError what place (sys_errno sys s')), s') else (Inr r, s'))"

section \<open>State\<close>

text \<open>\<open>udp_id\<close> is the object's identity, \<open>udp_fd = -1\<close> a closed socket; the four parts of the tuple \<open>peek_buffer_\<close> follow.\<close>

record udp_socket =
  udp_id :: nat
  udp_fd :: int
  udp_handler :: "nat option"
  peek_address :: address
  peek_port :: "16 word"
  peek_size :: "64 word"
  peek_data :: string

datatype udp_notification = UDPDataReady nat | UDPClientCallback nat

definition UDPSocket :: "'s sockets \<Rightarrow> nat \<Rightarrow> address \<Rightarrow> 16 word \<Rightarrow> 's \<Rightarrow> (exn + udp_socket) \<times> 's" where
  "UDPSocket sys i address port =
     bind_st (socket_call sys ''socket allocation failed'' ''UDPSocket constructor'' (sys_socket sys)) (\<lambda>f.
       let u = \<lparr>udp_id = i, udp_fd = f, udp_handler = None, peek_address = Address_u32 0, peek_port = 0, peek_size = 0,
                peek_data = []\<rparr>
       in if port \<noteq> 0 then
            bind_st (socket_call sys ''setsockopt failed'' ''UDPSocket constructor'' (sys_reuse_address sys f)) (\<lambda>_.
            bind_st (socket_call sys ''bind failed'' ''UDPSocket constructor'' (sys_bind sys f (u32 address) (htons port))) (\<lambda>_.
            return_st u))
          else return_st u)"

section \<open>Sending\<close>

definition udp_send :: "'s sockets \<Rightarrow> udp_socket \<Rightarrow> address \<Rightarrow> 16 word \<Rightarrow> string \<Rightarrow> 's \<Rightarrow> (exn + 64 word) \<times> 's" where
  "udp_send sys u to port data s =
     (if udp_fd u = -1 then (Inl UnusableUDPSocket, s)
      else case sys_sendto sys (udp_fd u) data (u32 to) (htons port) s of (sent, s') \<Rightarrow>
        if sent < 0 then (Inl (SocketError ''Send failed'' ''UDPSocket::send'' (sys_errno sys s')), s')
        else (Inr (word_of_int sent), s'))"

section \<open>Receiving\<close>

type_synonym received = "address \<times> 16 word \<times> 64 word"

text \<open>The default time-out, \<open>~0\<close>: wait for ever.\<close>

definition no_timeout :: "64 word" where
  "no_timeout = - 1"

text \<open>The wait for data, whose result is \<open>timed_out\<close>.\<close>

definition wait_readable :: "'s sockets \<Rightarrow> int \<Rightarrow> 64 word \<Rightarrow> 's \<Rightarrow> (exn + bool) \<times> 's" where
  "wait_readable sys f timeout s =
     (if timeout \<noteq> no_timeout then
        (case sys_select sys f (sint timeout) s of (r, s') \<Rightarrow>
           if r = 0 then (Inr True, s')
           else if r = 1 then (Inr False, s')
           else (Inl (SocketError ''Select call for recv failed'' ''UDPSocket::recv'' (sys_errno sys s')), s'))
      else (Inr False, s))"

definition resize :: "nat \<Rightarrow> string \<Rightarrow> string" where
  "resize n buffer = take n buffer @ replicate (n - length buffer) NUL"

text \<open>The branch of \<open>recv\<close> that reads from the socket. The buffer is the caller's, also when an exception is thrown.\<close>

definition recv_socket :: "'s sockets \<Rightarrow> int \<Rightarrow> string \<Rightarrow> 64 word \<Rightarrow> 's \<Rightarrow> ((exn + received) \<times> string) \<times> 's" where
  "recv_socket sys f buffer timeout s =
     (let we_own_the_buffer_size = (buffer = []);
          buffer = (if we_own_the_buffer_size then resize 4096 buffer else buffer)
      in case wait_readable sys f timeout s of
           (Inl e, s') \<Rightarrow> ((Inl e, buffer), s')
         | (Inr timed_out, s') \<Rightarrow>
             (case (if timed_out then ((0, [], 0, 0), s') else sys_recvfrom sys f (length buffer) s') of
                ((received, d, a, p), s'') \<Rightarrow>
                  let buffer = put_at 0 d buffer
                  in if received < 0
                     then ((Inl (SocketError ''Recv failed'' ''UDPSocket::recv'' (sys_errno sys s'')), buffer), s'')
                     else ((Inr (Address_u32 a, ntohs p, word_of_int received),
                            if we_own_the_buffer_size then resize (nat received) buffer else buffer), s'')))"

definition udp_recv ::
  "'s sockets \<Rightarrow> udp_socket \<Rightarrow> string \<Rightarrow> 64 word \<Rightarrow> 's \<Rightarrow> ((exn + received) \<times> string) \<times> udp_socket \<times> 's" where
  "udp_recv sys u buffer timeout s =
     (if udp_fd u = -1 then ((Inl UnusableUDPSocket, buffer), u, s)
      else if peek_data u = [] then (case recv_socket sys (udp_fd u) buffer timeout s of (r, s') \<Rightarrow> (r, u, s'))
      else ((Inr (peek_address u, peek_port u, peek_size u), peek_data u), u\<lparr>peek_data := []\<rparr>, s))"

text \<open>\<open>peek\<close> calls \<open>recv\<close> with the (empty) vector of its own buffer.\<close>

definition udp_peek ::
  "'s sockets \<Rightarrow> udp_socket \<Rightarrow> string \<Rightarrow> 64 word \<Rightarrow> 's \<Rightarrow> ((exn + received) \<times> string) \<times> udp_socket \<times> 's" where
  "udp_peek sys u buffer timeout s =
     (if udp_fd u = -1 then ((Inl UnusableUDPSocket, buffer), u, s)
      else if peek_data u = [] then
        (case recv_socket sys (udp_fd u) (peek_data u) timeout s of
           ((Inl e, d), s') \<Rightarrow> ((Inl e, buffer), u\<lparr>peek_data := d\<rparr>, s')
         | ((Inr (a, p, n), d), s') \<Rightarrow>
             ((Inr (a, p, n), d), u\<lparr>peek_address := a, peek_port := p, peek_size := n, peek_data := d\<rparr>, s'))
      else ((Inr (peek_address u, peek_port u, peek_size u), peek_data u), u, s))"

definition clearPeekBuffer :: "udp_socket \<Rightarrow> udp_socket" where
  "clearPeekBuffer u = u\<lparr>peek_data := []\<rparr>"

definition udp_poll :: "'s sockets \<Rightarrow> udp_socket \<Rightarrow> 's \<Rightarrow> (exn + bool) \<times> 's" where
  "udp_poll sys u s =
     (if udp_fd u = -1 then (Inl UnusableUDPSocket, s)
      else case sys_select sys (udp_fd u) 1 s of (r, s') \<Rightarrow>
        if r = 0 then (Inr False, s')
        else if r = 1 then (Inr True, s')
        else (Inl (SocketError ''Select call for poll failed'' ''UDPSocket::poll'' (sys_errno sys s')), s'))"

section \<open>Closing and the data handler\<close>

definition udp_close :: "'s sockets \<Rightarrow> udp_socket \<Rightarrow> 's \<Rightarrow> udp_socket \<times> 's" where
  "udp_close sys u s = (if udp_fd u \<noteq> -1 then (u\<lparr>udp_fd := -1\<rparr>, sys_close sys (udp_fd u) s) else (u, s))"

definition setDataHandler ::
  "nat \<Rightarrow> udp_notification option \<Rightarrow> udp_socket \<Rightarrow> udp_notification handler
     \<Rightarrow> (exn + unit) \<times> udp_socket \<times> udp_notification handler" where
  "setDataHandler handler error_callback u h =
     (if udp_fd u = -1 then (Inl UnusableUDPSocket, u, h)
      else (Inr (), u\<lparr>udp_handler := Some handler\<rparr>, attach (udp_fd u) (UDPDataReady (udp_id u)) error_callback h))"

definition clearDataHandler ::
  "(int \<Rightarrow> udp_notification handler \<Rightarrow> udp_notification handler) \<Rightarrow> udp_socket \<Rightarrow> udp_notification handler
     \<Rightarrow> udp_socket \<times> udp_notification handler" where
  "clearDataHandler detach_from u h =
     (if udp_handler u \<noteq> None \<and> udp_fd u \<noteq> -1
      then (u\<lparr>udp_handler := None\<rparr>, detach_from (udp_fd u) h) else (u, h))"

definition udp_destroy ::
  "'s sockets \<Rightarrow> (int \<Rightarrow> udp_notification handler \<Rightarrow> udp_notification handler) \<Rightarrow> udp_socket
     \<Rightarrow> udp_notification handler \<Rightarrow> 's \<Rightarrow> udp_notification handler \<times> 's" where
  "udp_destroy sys detach_from u h s = (case clearDataHandler detach_from u h of (u', h') \<Rightarrow> (h', sys_close sys (udp_fd u') s))"

text \<open>\<open>onDataReady_\<close>: the handler that is called with the socket, if there is one.\<close>

definition udp_onDataReady :: "udp_socket \<Rightarrow> nat option" where
  "udp_onDataReady u = udp_handler u"

section \<open>Datagrams in the order they arrive\<close>

text \<open>
  The socket \<open>f\<close> has the datagrams \<open>queue s\<close> waiting (address and port of the sender, in the byte order of the
  machine, and data) and hands them out one by one, cut off at the size that is asked for.
\<close>

type_synonym datagram = "address \<times> 16 word \<times> string"

definition delivers :: "'s sockets \<Rightarrow> int \<Rightarrow> ('s \<Rightarrow> datagram list) \<Rightarrow> bool" where
  "delivers sys f queue \<longleftrightarrow> (\<forall>n s a p d q. queue s = (a, p, d) # q \<longrightarrow>
     (\<exists>s'. sys_recvfrom sys f n s = ((int (length (take n d)), take n d, u32 a, htons p), s') \<and> queue s' = q))"

text \<open>\<open>select\<close> says whether a datagram waits, and takes none.\<close>

definition selects :: "'s sockets \<Rightarrow> int \<Rightarrow> ('s \<Rightarrow> datagram list) \<Rightarrow> bool" where
  "selects sys f queue \<longleftrightarrow> (\<forall>t s. \<exists>s'. sys_select sys f t s = (if queue s = [] then 0 else 1, s') \<and> queue s' = queue s)"

text \<open>What the socket has for its reader: the datagram that was peeked at, and the ones that wait.\<close>

definition contents :: "udp_socket \<Rightarrow> datagram list \<Rightarrow> datagram list" where
  "contents u q = (if peek_data u = [] then q else (peek_address u, peek_port u, peek_data u) # q)"

definition peek_ok :: "udp_socket \<Rightarrow> bool" where
  "peek_ok u \<longleftrightarrow> udp_fd u \<noteq> -1 \<and> (peek_data u \<noteq> [] \<longrightarrow> peek_size u = word_of_nat (length (peek_data u)))"

definition read_datagram :: "datagram \<Rightarrow> (exn + received) \<times> string" where
  "read_datagram x = (case x of (a, p, d) \<Rightarrow> (Inr (a, p, word_of_nat (length d)), d))"

definition fits :: "datagram \<Rightarrow> bool" where
  "fits x = (case x of (a, p, d) \<Rightarrow> d \<noteq> [] \<and> length d \<le> 4096)"

lemma Address_u32_u32 [simp]: "Address_u32 (u32 a) = a"
  by (simp add: Address_u32_def)

lemma recv_socket_delivers:
  assumes "delivers sys f queue" "queue s = x # q" "fits x"
  obtains s' where "recv_socket sys f [] no_timeout s = (read_datagram x, s')" "queue s' = q"
proof -
  obtain a p d where x: "x = (a, p, d)" by (cases x)
  then obtain s' where s': "sys_recvfrom sys f 4096 s = ((int (length (take 4096 d)), take 4096 d, u32 a, htons p), s')" "queue s' = q"
    using assms(1,2) unfolding delivers_def by metis
  have "length d \<le> 4096" using assms(3) by (simp add: fits_def x)
  with s' have "recv_socket sys f [] no_timeout s = (read_datagram x, s')"
    by (simp add: recv_socket_def resize_def wait_readable_def put_at_def read_datagram_def x)
  with s'(2) show ?thesis by (rule that [rotated])
qed

datatype udp_op = Recv | Peek | Clear | Poll

datatype udp_result = Received "(exn + received) \<times> string" | Polled "exn + bool"

fun udp_run :: "'s sockets \<Rightarrow> udp_socket \<Rightarrow> udp_op list \<Rightarrow> 's \<Rightarrow> udp_result list" where
  "udp_run sys u [] s = []"
| "udp_run sys u (Recv # ops) s = (case udp_recv sys u [] no_timeout s of (r, u', s') \<Rightarrow> Received r # udp_run sys u' ops s')"
| "udp_run sys u (Peek # ops) s = (case udp_peek sys u [] no_timeout s of (r, u', s') \<Rightarrow> Received r # udp_run sys u' ops s')"
| "udp_run sys u (Clear # ops) s = udp_run sys (clearPeekBuffer u) ops s"
| "udp_run sys u (Poll # ops) s = (case udp_poll sys u s of (r, s') \<Rightarrow> Polled r # udp_run sys u ops s')"

text \<open>
  The specification: a queue, whose first element may be marked as seen. \<open>poll\<close> does not count an element that is seen.
\<close>

fun queue_run :: "bool \<Rightarrow> datagram list \<Rightarrow> udp_op list \<Rightarrow> udp_result list" where
  "queue_run seen q [] = []"
| "queue_run seen q (Recv # ops) = Received (read_datagram (hd q)) # queue_run False (tl q) ops"
| "queue_run seen q (Peek # ops) = Received (read_datagram (hd q)) # queue_run True q ops"
| "queue_run seen q (Clear # ops) = queue_run False (if seen then tl q else q) ops"
| "queue_run seen q (Poll # ops) = Polled (Inr ((if seen then tl q else q) \<noteq> [])) # queue_run seen q ops"

text \<open>No \<open>recv\<close> and no \<open>peek\<close> is called when none of the \<open>n\<close> datagrams is left, where it would wait for another.\<close>

fun enough :: "bool \<Rightarrow> nat \<Rightarrow> udp_op list \<Rightarrow> bool" where
  "enough seen n [] \<longleftrightarrow> True"
| "enough seen n (Recv # ops) \<longleftrightarrow> n > 0 \<and> enough False (n - 1) ops"
| "enough seen n (Peek # ops) \<longleftrightarrow> n > 0 \<and> enough True n ops"
| "enough seen n (Clear # ops) \<longleftrightarrow> enough False (if seen then n - 1 else n) ops"
| "enough seen n (Poll # ops) \<longleftrightarrow> enough seen n ops"

text \<open>One call: what it returns, and what is left for the calls after it.\<close>

lemma udp_recv_contents:
  assumes "delivers sys (udp_fd u) queue" "peek_ok u" "contents u (queue s) = x # q" "fits x"
  obtains u' s' where "udp_recv sys u [] no_timeout s = (read_datagram x, u', s')" "udp_fd u' = udp_fd u" "peek_ok u'"
    "peek_data u' = []" "contents u' (queue s') = q"
proof (cases "peek_data u = []")
  case True
  then obtain s' where "recv_socket sys (udp_fd u) [] no_timeout s = (read_datagram x, s')" "queue s' = q"
    using recv_socket_delivers [OF assms(1) _ assms(4)] assms(3) by (auto simp: contents_def)
  then show ?thesis using that [of u s'] assms(2) True by (simp add: udp_recv_def contents_def peek_ok_def)
next
  case False
  then show ?thesis using that [of "u\<lparr>peek_data := []\<rparr>" s] assms(2,3)
    by (auto simp: udp_recv_def contents_def peek_ok_def read_datagram_def)
qed

lemma udp_peek_contents:
  assumes "delivers sys (udp_fd u) queue" "peek_ok u" "contents u (queue s) = x # q" "fits x"
  obtains u' s' where "udp_peek sys u [] no_timeout s = (read_datagram x, u', s')" "udp_fd u' = udp_fd u" "peek_ok u'"
    "peek_data u' \<noteq> []" "contents u' (queue s') = x # q"
proof (cases "peek_data u = []")
  case True
  then obtain s' where s': "recv_socket sys (udp_fd u) [] no_timeout s = (read_datagram x, s')" "queue s' = q"
    using recv_socket_delivers [OF assms(1) _ assms(4)] assms(3) by (auto simp: contents_def)
  obtain a p d where "x = (a, p, d)" by (cases x)
  then show ?thesis
    using that [of "u\<lparr>peek_address := a, peek_port := p, peek_size := word_of_nat (length d), peek_data := d\<rparr>" s'] s' assms(2,4) True
    by (simp add: udp_peek_def contents_def peek_ok_def read_datagram_def fits_def)
next
  case False
  then show ?thesis using that [of u s] assms(2,3) by (auto simp: udp_peek_def contents_def peek_ok_def read_datagram_def)
qed

lemma clearPeekBuffer_contents:
  assumes "peek_ok u"
  shows "udp_fd (clearPeekBuffer u) = udp_fd u" "peek_ok (clearPeekBuffer u)" "peek_data (clearPeekBuffer u) = []"
    "contents (clearPeekBuffer u) q = (if peek_data u \<noteq> [] then tl (contents u q) else contents u q)"
  using assms by (simp_all add: clearPeekBuffer_def peek_ok_def contents_def)

lemma udp_poll_contents:
  assumes "selects sys (udp_fd u) queue" "peek_ok u"
  obtains s' where "udp_poll sys u s = (Inr ((if peek_data u \<noteq> [] then tl (contents u (queue s)) else contents u (queue s)) \<noteq> []), s')"
    "queue s' = queue s"
  using assms(1) [unfolded selects_def, rule_format, of 1 s] assms(2) that
  by (auto simp: udp_poll_def contents_def peek_ok_def split: if_splits)

lemma udp_run_queue:
  assumes "delivers sys (udp_fd u) queue" "selects sys (udp_fd u) queue" "peek_ok u" "list_all fits (contents u (queue s))"
    "enough (peek_data u \<noteq> []) (length (contents u (queue s))) ops"
  shows "udp_run sys u ops s = queue_run (peek_data u \<noteq> []) (contents u (queue s)) ops"
  using assms
proof (induction ops arbitrary: u s)
  case (Cons oper ops)
  note dl = Cons.prems(1) and sl = Cons.prems(2) and ok = Cons.prems(3) and ft = Cons.prems(4)
  show ?case
  proof (cases oper)
    case Recv
    with Cons.prems(5) ft obtain x q where x: "contents u (queue s) = x # q" "fits x" "list_all fits q"
      by (cases "contents u (queue s)") auto
    obtain u' s' where "udp_recv sys u [] no_timeout s = (read_datagram x, u', s')" "udp_fd u' = udp_fd u" "peek_ok u'"
      "peek_data u' = []" "contents u' (queue s') = q" by (rule udp_recv_contents [OF dl ok x(1,2)])
    then show ?thesis using Cons.IH [of u' s'] Cons.prems x Recv by simp
  next
    case Peek
    with Cons.prems(5) ft obtain x q where x: "contents u (queue s) = x # q" "fits x" "list_all fits q"
      by (cases "contents u (queue s)") auto
    obtain u' s' where "udp_peek sys u [] no_timeout s = (read_datagram x, u', s')" "udp_fd u' = udp_fd u" "peek_ok u'"
      "peek_data u' \<noteq> []" "contents u' (queue s') = x # q" by (rule udp_peek_contents [OF dl ok x(1,2)])
    then show ?thesis using Cons.IH [of u' s'] Cons.prems x Peek by simp
  next
    case Clear
    have "list_all fits (contents (clearPeekBuffer u) (queue s))"
      using ft by (cases "contents u (queue s)") (auto simp: clearPeekBuffer_contents(4) [OF ok])
    then show ?thesis using Cons.IH [of "clearPeekBuffer u" s] Cons.prems Clear
      by (simp add: clearPeekBuffer_contents [OF ok] split: if_splits)
  next
    case Poll
    obtain s' where "udp_poll sys u s = (Inr ((if peek_data u \<noteq> [] then tl (contents u (queue s)) else contents u (queue s)) \<noteq> []), s')"
      "queue s' = queue s" by (rule udp_poll_contents [OF sl ok])
    then show ?thesis using Cons.IH [of u s'] Cons.prems Poll by simp
  qed
qed simp

text \<open>
  C17: let the datagrams that wait have between 1 and 4096 bytes each, let none arrive meanwhile, and let \<open>recv\<close> and
  \<open>peek\<close>, without a time-out, be called only while one is left. Then \<open>recv\<close>, \<open>peek\<close>, \<open>clearPeekBuffer\<close> and \<open>poll\<close>, in
  any order, behave as a queue with a look at its head: \<open>peek\<close> shows the next datagram and leaves it, \<open>recv\<close> takes it,
  with the same address, port, size and data whether it was peeked at before or not, and \<open>clearPeekBuffer\<close> drops it if it was.
  \<open>poll\<close> says whether there is a datagram that was not yet peeked at: with only the one in the peek buffer left it says
  that there is none, although \<open>recv\<close> returns one.
\<close>

theorem datagrams_read_in_order:
  assumes "delivers sys (udp_fd u) queue" "selects sys (udp_fd u) queue" "udp_fd u \<noteq> -1" "peek_data u = []"
    "list_all fits (queue s)" "enough False (length (queue s)) ops"
  shows "udp_run sys u ops s = queue_run False (queue s) ops"
  using udp_run_queue [OF assms(1,2), of s ops] assms(3-6) by (simp add: contents_def peek_ok_def)

definition queue_sockets :: "datagram list sockets" where
  "queue_sockets = \<lparr>sys_socket = (\<lambda>s. (3, s)), sys_reuse_address = (\<lambda>_ s. (0, s)), sys_bind = (\<lambda>_ _ _ s. (0, s)),
     sys_sendto = (\<lambda>_ d _ _ s. (int (length d), s)),
     sys_recvfrom = (\<lambda>_ n s. case s of [] \<Rightarrow> ((-1, [], 0, 0), s)
       | (a, p, d) # q \<Rightarrow> ((int (length (take n d)), take n d, u32 a, htons p), q)),
     sys_select = (\<lambda>_ _ s. (if s = [] then 0 else 1, s)), sys_close = (\<lambda>_ s. s), sys_errno = (\<lambda>_. EBADF)\<rparr>"

definition fresh_socket :: udp_socket where
  "fresh_socket = \<lparr>udp_id = 0, udp_fd = 3, udp_handler = None, peek_address = Address_u32 0, peek_port = 0, peek_size = 0, peek_data = []\<rparr>"

lemma queue_sockets_deliver: "delivers queue_sockets f (\<lambda>s. s)"
  by (auto simp: delivers_def queue_sockets_def)

lemma queue_sockets_select: "selects queue_sockets f (\<lambda>s. s)"
  by (auto simp: selects_def queue_sockets_def)

theorem datagrams_read_in_order_witness:
  "udp_run queue_sockets fresh_socket [Poll, Peek, Peek, Recv, Peek, Clear, Peek, Poll, Recv, Poll]
      (map (\<lambda>d. (Address_u32 1, 53, d)) [''ab'', ''cde'', ''f''])
    = [Polled (Inr True), Received (Inr (Address_u32 1, 53, 2), ''ab''), Received (Inr (Address_u32 1, 53, 2), ''ab''),
       Received (Inr (Address_u32 1, 53, 2), ''ab''), Received (Inr (Address_u32 1, 53, 3), ''cde''),
       Received (Inr (Address_u32 1, 53, 1), ''f''), Polled (Inr False), Received (Inr (Address_u32 1, 53, 1), ''f''),
       Polled (Inr False)]"
  by (subst datagrams_read_in_order [OF queue_sockets_deliver queue_sockets_select])
    (simp_all add: fresh_socket_def fits_def read_datagram_def)

section \<open>A failed peek\<close>

text \<open>
  C35: when the receiving that \<open>peek\<close> asks for fails, the exception leaves the enlarged buffer behind as if a datagram of
  4096 zero bytes had been peeked at: the next \<open>recv\<close> (and every \<open>peek\<close>) succeeds without reading from the socket and
  returns these bytes, with the address, the port and the size of the datagram peeked at before.
\<close>

theorem failed_peek_invents_a_datagram:
  assumes "udp_fd u \<noteq> -1" "peek_data u = []" "sys_recvfrom sys (udp_fd u) 4096 s = ((-1, [], a, p), s')"
  shows "\<exists>u'. udp_peek sys u buffer no_timeout s
      = ((Inl (SocketError ''Recv failed'' ''UDPSocket::recv'' (sys_errno sys s')), buffer), u', s')
    \<and> udp_recv sys u' [] t s2 = ((Inr (peek_address u, peek_port u, peek_size u), replicate 4096 NUL), u, s2)
    \<and> udp_peek sys u' [] t s2 = ((Inr (peek_address u, peek_port u, peek_size u), replicate 4096 NUL), u', s2)"
  using assms
  by (intro exI [of _ "u\<lparr>peek_data := replicate 4096 NUL\<rparr>"])
    (simp add: udp_peek_def udp_recv_def recv_socket_def resize_def wait_readable_def put_at_def)

theorem failed_peek_invents_a_datagram_witness:
  "\<exists>u'. udp_peek queue_sockets fresh_socket [] no_timeout []
      = ((Inl (SocketError ''Recv failed'' ''UDPSocket::recv'' EBADF), []), u', [])
    \<and> udp_recv queue_sockets u' [] no_timeout [(Address_u32 1, 53, ''ab'')]
      = ((Inr (Address_u32 0, 0, 0), replicate 4096 NUL), fresh_socket, [(Address_u32 1, 53, ''ab'')])"
  using failed_peek_invents_a_datagram [of fresh_socket queue_sockets "[]" 0 0 "[]" "[]" no_timeout "[(Address_u32 1, 53, ''ab'')]"]
  by (auto simp: fresh_socket_def queue_sockets_def)

section \<open>The data handler and the life of the descriptor\<close>

text \<open>
  A socket that is destroyed with its data handler still set leaves the connection handler's list as it was; one
  that is closed first leaves its call-back there, with the descriptor that was closed, for good.
\<close>

theorem closing_keeps_the_call_back:
  assumes "idents_ok h" "udp_fd u \<noteq> -1" "udp_fd u \<notin> fst ` set (watched_list h)"
  shows "case setDataHandler d e u h of (r, u1, h1) \<Rightarrow> r = Inr () \<and>
      (\<forall>detach_from \<in> {detach_worker, detach_wait}. watched_list (fst (udp_destroy sys detach_from u1 h1 s)) = watched_list h) \<and>
      (case udp_close sys u1 s of (u2, s2) \<Rightarrow> s2 = sys_close sys (udp_fd u) s \<and> udp_handler u2 = Some d \<and>
        (\<forall>detach_from. watched_list (fst (udp_destroy sys detach_from u2 h1 s2)) = watched_list h @ [(udp_fd u, UDPDataReady (udp_id u))]))"
  using assms worker_notifier.attach_detach wait_notifier.attach_detach worker_notifier.watched_attach
  by (auto simp: setDataHandler_def udp_destroy_def clearDataHandler_def udp_close_def split: prod.splits)

lemma fresh_parts: "udp_fd fresh_socket = 3" "udp_id fresh_socket = 0" "sys_close queue_sockets f s = s"
  by (simp_all add: fresh_socket_def queue_sockets_def)

theorem closing_keeps_the_call_back_witness:
  "watched_list (fst (udp_destroy queue_sockets detach_wait
      (fst (udp_close queue_sockets (fst (snd (setDataHandler 7 None fresh_socket ConnectionHandler))) []))
      (snd (snd (setDataHandler 7 None fresh_socket ConnectionHandler))) [])) = [(3, UDPDataReady 0)]"
proof -
  have "idents_ok (ConnectionHandler :: udp_notification handler)"
    "watched_list (ConnectionHandler :: udp_notification handler) = []"
    by (simp_all add: idents_ok_def ConnectionHandler_def watched_list_def)
  then show ?thesis
    using closing_keeps_the_call_back [where h = ConnectionHandler and u = fresh_socket and d = 7 and e = None and sys = queue_sockets and s = "[]"]
    by (auto simp: case_prod_beta fresh_parts)
qed

end
