(* ===== verification/ParseUrl.thy ===== *)
theory ParseUrl
  imports Exceptions
begin

text \<open>
  \<^verbatim>\<open>lib/Damon/Private/parseURL.cpp\<close>: taking a URL apart. The regular expressions of the source are values of a
  type of expressions; \<open>boost::regex_match\<close> is not part of the repository and is the parameter \<open>re_match\<close>,
  which gives the sub-matches. Its documented behaviour (Perl's leftmost, greedy matching of the
  whole text, with backtracking) is the reference matcher below.
\<close>

section \<open>Regular expressions\<close>

datatype char_set = Ranges "(char \<times> char) list" | Except string | Dot

fun member_of :: "char_set \<Rightarrow> char \<Rightarrow> bool" where
  "member_of (Ranges rs) x = list_ex (\<lambda>(a, b). (of_char a :: nat) \<le> of_char x \<and> (of_char x :: nat) \<le> of_char b) rs"
| "member_of (Except xs) x = (\<not> List.member xs x)"
| "member_of Dot x = True"

datatype regex = Bol | Literal char | Plus char_set | Star char_set | Maybe regex | Group nat regex | Then regex regex

fun exactly :: "string \<Rightarrow> regex" where
  "exactly [] = Bol"
| "exactly [x] = Literal x"
| "exactly (x # xs) = Then (Literal x) (exactly xs)"

type_synonym sub_matches = "nat \<Rightarrow> string option"

fun longest :: "nat \<Rightarrow> nat \<Rightarrow> (nat \<Rightarrow> 'a option) \<Rightarrow> 'a option" where
  "longest 0 m f = (if m = 0 then f 0 else None)"
| "longest (Suc n) m f = (if Suc n < m then None else case f (Suc n) of None \<Rightarrow> longest n m f | Some x \<Rightarrow> Some x)"

text \<open>\<open>k\<close> is what has to match behind the expression. \<open>Bol\<close> occurs only in front.\<close>

fun rmatch :: "regex \<Rightarrow> string \<Rightarrow> sub_matches \<Rightarrow> (string \<Rightarrow> sub_matches \<Rightarrow> sub_matches option) \<Rightarrow> sub_matches option" where
  "rmatch Bol s e k = k s e"
| "rmatch (Literal x) s e k = (case s of [] \<Rightarrow> None | y # t \<Rightarrow> if x = y then k t e else None)"
| "rmatch (Plus c) s e k = longest (length (takeWhile (member_of c) s)) 1 (\<lambda>n. k (drop n s) e)"
| "rmatch (Star c) s e k = longest (length (takeWhile (member_of c) s)) 0 (\<lambda>n. k (drop n s) e)"
| "rmatch (Maybe a) s e k = (case rmatch a s e k of None \<Rightarrow> k s e | Some m \<Rightarrow> Some m)"
| "rmatch (Group i a) s e k = rmatch a s e (\<lambda>t e'. k t (e'(i \<mapsto> take (length s - length t) s)))"
| "rmatch (Then a b) s e k = rmatch a s e (\<lambda>t e'. rmatch b t e' k)"

definition regex_match :: "regex \<Rightarrow> string \<Rightarrow> sub_matches option" where
  "regex_match r s = rmatch r s Map.empty (\<lambda>t e. if t = [] then Some e else None)"

definition perl_regex :: "(regex \<Rightarrow> string \<Rightarrow> sub_matches option) \<Rightarrow> bool" where
  "perl_regex re_match \<longleftrightarrow> (\<forall>r s. re_match r s = regex_match r s)"

section \<open>The functions\<close>

definition letters :: char_set where "letters = Ranges [(CHR ''A'', CHR ''Z''), (CHR ''a'', CHR ''z'')]"
definition digits :: char_set where "digits = Ranges [(CHR ''0'', CHR ''9'')]"

text \<open>\<open>^(([A-Za-z]+)://)?(([^:/@]+)(:([^/@]+))?@)?([^:/]+)(:([0-9]+))?(.*)\<close>\<close>

definition protocol_re :: regex where
  "protocol_re = Group 1 (Then (Group 2 (Plus letters)) (exactly ''://''))"

definition credentials_re :: regex where
  "credentials_re = Group 3 (Then (Group 4 (Plus (Except '':/@'')))
     (Then (Maybe (Group 5 (Then (Literal (CHR '':'')) (Group 6 (Plus (Except ''/@''))))))
       (Literal (CHR ''@''))))"

definition port_re :: regex where
  "port_re = Group 8 (Then (Literal (CHR '':'')) (Group 9 (Plus digits)))"

definition url_re :: regex where
  "url_re = Then Bol (Then (Maybe protocol_re) (Then (Maybe credentials_re)
     (Then (Group 7 (Plus (Except '':/''))) (Then (Maybe port_re) (Group 10 (Star Dot))))))"

definition sub_text :: "sub_matches \<Rightarrow> nat \<Rightarrow> string" where
  "sub_text m i = (case m i of None \<Rightarrow> [] | Some t \<Rightarrow> t)"

definition parseURL ::
  "(regex \<Rightarrow> string \<Rightarrow> sub_matches option) \<Rightarrow> boost_lib \<Rightarrow> string
     \<Rightarrow> exn + string \<times> string \<times> 16 word \<times> string \<times> string \<times> string" where
  "parseURL re_match L url = (case re_match url_re url of
      None \<Rightarrow> Inl (runtime_error ''Invalid URL'')
    | Some mr \<Rightarrow>
        let protocol = (case mr 2 of Some p \<Rightarrow> p | None \<Rightarrow> ''http'') in
        if protocol \<noteq> ''http'' \<and> protocol \<noteq> ''https'' then Inl (runtime_error ''Unknown protocol'')
        else
          bind_exn
            (case mr 9 of
               Some t \<Rightarrow> (case cast_uint16 L t of None \<Rightarrow> Inl bad_lexical_cast | Some n \<Rightarrow> Inr (word_of_nat n))
             | None \<Rightarrow> Inr (if protocol = ''http'' then 80 else 443))
            (\<lambda>port. Inr (protocol, sub_text mr 7, port,
               (case mr 10 of Some t \<Rightarrow> (if t = [] then ''/'' else t) | None \<Rightarrow> ''/''), sub_text mr 4, sub_text mr 6)))"

text \<open>\<open>^([A-Za-z]+://)?([^:/@]+(:[^/@]+)?@)?([^:/]+(:[0-9]+)?).*\<close>\<close>

definition host_re :: regex where
  "host_re = Then Bol (Then (Maybe (Group 1 (Then (Plus letters) (exactly ''://''))))
     (Then (Maybe (Group 2 (Then (Plus (Except '':/@''))
        (Then (Maybe (Group 3 (Then (Literal (CHR '':'')) (Plus (Except ''/@''))))) (Literal (CHR ''@''))))))
     (Then (Group 4 (Then (Plus (Except '':/'')) (Maybe (Group 5 (Then (Literal (CHR '':'')) (Plus digits))))))
       (Star Dot))))"

definition extractHost :: "(regex \<Rightarrow> string \<Rightarrow> sub_matches option) \<Rightarrow> string \<Rightarrow> string" where
  "extractHost re_match url = (case re_match host_re url of None \<Rightarrow> [] | Some mr \<Rightarrow> sub_text mr 4)"

section \<open>URLs as texts\<close>

record url_parts =
  scheme :: "string option"
  user :: "(string \<times> string option) option"
  host_name :: string
  port_number :: "nat option"
  path :: string

definition user_text :: "(string \<times> string option) option \<Rightarrow> string" where
  "user_text c = (case c of None \<Rightarrow> [] | Some (u, None) \<Rightarrow> u @ ''@'' | Some (u, Some p) \<Rightarrow> u @ '':'' @ p @ ''@'')"

definition port_text :: "nat option \<Rightarrow> string" where
  "port_text n = (case n of None \<Rightarrow> [] | Some n \<Rightarrow> '':'' @ show_nat n)"

definition url_text :: "url_parts \<Rightarrow> string" where
  "url_text p = (case scheme p of None \<Rightarrow> [] | Some s \<Rightarrow> s @ ''://'') @ user_text (user p) @ host_name p @
     port_text (port_number p) @ path p"

definition avoids :: "string \<Rightarrow> string \<Rightarrow> bool" where
  "avoids xs s \<longleftrightarrow> s \<noteq> [] \<and> list_all (\<lambda>x. x \<notin> set xs) s"

definition good_url :: "url_parts \<Rightarrow> bool" where
  "good_url p \<longleftrightarrow> (case scheme p of None \<Rightarrow> True | Some s \<Rightarrow> s = ''http'' \<or> s = ''https'') \<and>
     (case user p of None \<Rightarrow> True | Some (u, None) \<Rightarrow> avoids '':/@'' u
      | Some (u, Some w) \<Rightarrow> avoids '':/@'' u \<and> avoids ''/@'' w) \<and>
     avoids '':/@'' (host_name p) \<and>
     (case port_number p of None \<Rightarrow> True | Some n \<Rightarrow> n < 2 ^ 16) \<and>
     (path p = [] \<or> hd (path p) = CHR ''/'')"

section \<open>Matching without backtracking\<close>

lemma longest_first: "m \<le> n \<Longrightarrow> f n = Some x \<Longrightarrow> longest n m f = Some x"
  by (cases n) simp_all

lemma longest_None: "(\<And>i. m \<le> i \<Longrightarrow> i \<le> n \<Longrightarrow> f i = None) \<Longrightarrow> longest n m f = None"
  by (induction n) simp_all

lemma take_stop: "list_all P w \<Longrightarrow> t = [] \<or> \<not> P (hd t) \<Longrightarrow> takeWhile P (w @ t) = w"
  by (rule takeWhile_append_stop) (simp_all add: list_all_iff)

lemma plus_takes:
  assumes "list_all (member_of c) w" "w \<noteq> []" "t = [] \<or> \<not> member_of c (hd t)" "k t e = Some m"
  shows "rmatch (Plus c) (w @ t) e k = Some m"
  using assms by (simp add: take_stop) (rule longest_first, simp_all add: Suc_le_eq)

text \<open>The texts that an expression can leave, whatever the sub-matches are: when none of them goes on, nothing matches.\<close>

fun leaves :: "regex \<Rightarrow> string \<Rightarrow> string set" where
  "leaves Bol s = {s}"
| "leaves (Literal x) s = (case s of [] \<Rightarrow> {} | y # t \<Rightarrow> if x = y then {t} else {})"
| "leaves (Plus c) s = (\<lambda>n. drop n s) ` {1..length (takeWhile (member_of c) s)}"
| "leaves (Star c) s = (\<lambda>n. drop n s) ` {0..length (takeWhile (member_of c) s)}"
| "leaves (Maybe a) s = leaves a s \<union> {s}"
| "leaves (Group i a) s = leaves a s"
| "leaves (Then a b) s = (\<Union>t \<in> leaves a s. leaves b t)"

lemma rmatch_None: "(\<And>t e. t \<in> leaves r s \<Longrightarrow> k t e = None) \<Longrightarrow> rmatch r s e k = None"
proof (induction r s e k rule: rmatch.induct)
  case (7 a b s e k)
  show ?case unfolding rmatch.simps by (rule 7(2)) (auto intro!: 7(1) 7(3))
qed (auto intro!: longest_None split: list.splits)

lemma leaves_plus:
  assumes "list_all (member_of c) w" "t = [] \<or> \<not> member_of c (hd t)"
  shows "leaves (Plus c) (w @ t) \<subseteq> {v @ t | u v. w = u @ v \<and> u \<noteq> []}"
proof
  fix x
  assume "x \<in> leaves (Plus c) (w @ t)"
  then obtain n where "x = drop n (w @ t)" "1 \<le> n" "n \<le> length w" using assms by (auto simp: take_stop)
  then have "x = drop n w @ t" "w = take n w @ drop n w" "take n w \<noteq> []" by auto
  then show "x \<in> {v @ t | u v. w = u @ v \<and> u \<noteq> []}" by blast
qed

section \<open>Taking a URL apart\<close>

lemma avoids_all: "avoids xs s \<Longrightarrow> list_all (member_of (Except xs)) s"
  by (simp add: avoids_def list_all_iff)

lemma avoids_fewer: "avoids xs s \<Longrightarrow> set ys \<subseteq> set xs \<Longrightarrow> avoids ys s"
  by (auto simp: avoids_def list_all_iff)

lemma show_nat_in_digits: "list_all (member_of digits) (show_nat n)"
  using show_nat_digits [of n] by (simp add: list_all_iff digits_def is_digit_def)

lemma show_nat_avoids: "avoids ''/@'' (show_nat n)"
  using show_nat_digits [of n] by (auto simp: avoids_def list_all_iff is_digit_def)

definition good_path :: "string \<Rightarrow> bool" where
  "good_path t \<longleftrightarrow> t = [] \<or> hd t = CHR ''/''"

lemma good_path_cases: "good_path t \<longleftrightarrow> t = [] \<or> (\<exists>u. t = CHR ''/'' # u)"
  by (cases t) (auto simp: good_path_def)

text \<open>What comes behind the name of the host starts with a colon and a digit, or with a slash, or is nothing.\<close>

definition behind_host :: "string \<Rightarrow> bool" where
  "behind_host t \<longleftrightarrow> (\<exists>n p. t = port_text n @ p \<and> good_path p)"

lemma behind_host_stops:
  assumes "behind_host t"
  shows "t = [] \<or> hd t \<in> {CHR '':'', CHR ''/''}"
  using assms by (auto simp: behind_host_def port_text_def good_path_cases split: option.splits)

text \<open>The expression for the credentials, without its groups.\<close>

abbreviation credentials_shape :: regex where
  "credentials_shape \<equiv> Then (Plus (Except '':/@''))
     (Then (Maybe (Then (Literal (CHR '':'')) (Plus (Except ''/@'')))) (Literal (CHR ''@'')))"

lemma no_password: "avoids '':/@'' v \<or> v = [] \<Longrightarrow> behind_host t \<Longrightarrow>
    leaves (Then (Maybe (Then (Literal (CHR '':'')) (Plus (Except ''/@'')))) (Literal (CHR ''@''))) (v @ t) = {}"
proof (cases v)
  case (Cons x xs)
  assume "avoids '':/@'' v \<or> v = []"
  with Cons show ?thesis by (auto simp: avoids_def)
next
  case Nil
  assume "behind_host t"
  then obtain n p where t: "t = port_text n @ p" "good_path p" by (auto simp: behind_host_def)
  show ?thesis
  proof (cases n)
    case None
    with Nil t show ?thesis by (auto simp: port_text_def good_path_cases)
  next
    case (Some m)
    have "leaves (Plus (Except ''/@'')) (show_nat m @ p) \<subseteq> {v @ p | u v. show_nat m = u @ v \<and> u \<noteq> []}"
      using avoids_all [OF show_nat_avoids] t(2) by (intro leaves_plus) (auto simp: good_path_cases)
    moreover have "leaves (Literal (CHR ''@'')) (v @ p) = {}" if "show_nat m = u @ v" for u v
      using show_nat_avoids [of m] t(2) that by (cases v) (auto simp: good_path_cases avoids_def)
    ultimately show ?thesis using Nil t Some by (auto simp: port_text_def)
  qed
qed

lemma no_credentials:
  assumes "avoids '':/@'' h" "behind_host t"
  shows "leaves credentials_shape (h @ t) = {}"
proof -
  have "leaves (Plus (Except '':/@'')) (h @ t) \<subseteq> {v @ t | u v. h = u @ v \<and> u \<noteq> []}"
    using avoids_all [OF assms(1)] behind_host_stops [OF assms(2)] by (intro leaves_plus) auto
  moreover have "avoids '':/@'' v \<or> v = []" if "h = u @ v" for u v
    using assms(1) that by (auto simp: avoids_def)
  ultimately show ?thesis using no_password [OF _ assms(2)] unfolding leaves.simps(7) by blast
qed

text \<open>A text without protocol does not look as if it had one.\<close>

definition no_scheme :: "string \<Rightarrow> bool" where
  "no_scheme s \<longleftrightarrow> (\<exists>w t. s = w @ t \<and> list_all (\<lambda>x. x \<noteq> CHR '':'') w \<and>
     (t = [] \<or> \<not> member_of letters (hd t)) \<and> take 2 t \<noteq> '':/'')"

lemma no_protocol: "no_scheme s \<Longrightarrow> leaves (Then (Plus letters) (exactly ''://'')) s = {}"
proof -
  assume "no_scheme s"
  then obtain w t where s: "s = w @ t" "list_all (\<lambda>x. x \<noteq> CHR '':'') w" "t = [] \<or> \<not> member_of letters (hd t)" "take 2 t \<noteq> '':/''"
    by (auto simp: no_scheme_def)
  have "leaves (exactly ''://'') (drop n s) = {}" if "n \<le> length (takeWhile (member_of letters) s)" for n
  proof -
    have "length (takeWhile (member_of letters) s) \<le> length w"
    proof (cases "list_all (member_of letters) w")
      case True
      then show ?thesis by (simp add: s(1) take_stop s(3))
    next
      case False
      then show ?thesis by (auto simp: s(1) takeWhile_append list_all_iff length_takeWhile_le)
    qed
    with that have d: "drop n s = drop n w @ t" by (simp add: s(1))
    show ?thesis
    proof (cases "drop n w")
      case Nil
      then show ?thesis using s(4) unfolding d by (auto split: list.splits)
    next
      case (Cons x xs)
      then have "x \<in> set w" by (metis in_set_dropD list.set_intros(1))
      then show ?thesis using s(2) Cons unfolding d by (auto simp: list_all_iff)
    qed
  qed
  then show ?thesis by (simp only: leaves.simps(3,7)) auto
qed

lemma first_try: "x = Some m \<Longrightarrow> (case x of None \<Rightarrow> y | Some m \<Rightarrow> Some m) = Some m"
  by simp

text \<open>The sub-matches, stage by stage from behind.\<close>

definition port_subs :: "nat option \<Rightarrow> sub_matches \<Rightarrow> sub_matches" where
  "port_subs n e = (case n of None \<Rightarrow> e | Some n \<Rightarrow> e(9 \<mapsto> show_nat n, 8 \<mapsto> '':'' @ show_nat n))"

definition user_subs :: "(string \<times> string option) option \<Rightarrow> sub_matches \<Rightarrow> sub_matches" where
  "user_subs c e = (case c of None \<Rightarrow> e | Some (u, None) \<Rightarrow> e(4 \<mapsto> u, 3 \<mapsto> u @ ''@'')
     | Some (u, Some w) \<Rightarrow> e(4 \<mapsto> u, 6 \<mapsto> w, 5 \<mapsto> '':'' @ w, 3 \<mapsto> u @ '':'' @ w @ ''@''))"

abbreviation at_end :: "string \<Rightarrow> sub_matches \<Rightarrow> sub_matches option" where
  "at_end \<equiv> \<lambda>t e. if t = [] then Some e else None"

lemma path_stage: "rmatch (Group 10 (Star Dot)) p e at_end = Some (e(10 \<mapsto> p))"
proof -
  have "takeWhile (member_of Dot) p = p" by (simp add: takeWhile_eq_all_conv)
  then show ?thesis by simp (rule longest_first, simp_all)
qed

lemma port_stage:
  assumes "good_path p"
  shows "rmatch (Then (Maybe port_re) (Group 10 (Star Dot))) (port_text n @ p) e at_end = Some ((port_subs n e)(10 \<mapsto> p))"
proof (cases n)
  case None
  then show ?thesis
    using assms path_stage [of p e] by (auto simp: port_text_def port_re_def port_subs_def good_path_cases)
next
  case (Some m)
  have "p = [] \<or> \<not> member_of digits (hd p)" using assms by (auto simp: good_path_cases digits_def)
  then have "rmatch (Plus digits) (show_nat m @ p) e
      (\<lambda>t e'. rmatch (Group 10 (Star Dot)) t (e'(9 \<mapsto> take (length (show_nat m @ p) - length t) (show_nat m @ p),
         8 \<mapsto> take (Suc (length (show_nat m @ p)) - length t) (CHR '':'' # show_nat m @ p))) at_end)
    = Some (e(9 \<mapsto> show_nat m, 8 \<mapsto> '':'' @ show_nat m, 10 \<mapsto> p))"
    by (intro plus_takes show_nat_in_digits) (simp_all only: path_stage, simp_all)
  then show ?thesis
    by (simp add: Some port_text_def port_re_def port_subs_def del: rmatch.simps(3,4))
qed

definition behind_user_re :: regex where
  "behind_user_re = Then (Group 7 (Plus (Except '':/''))) (Then (Maybe port_re) (Group 10 (Star Dot)))"

lemma host_stage:
  assumes "avoids '':/@'' h" "good_path p"
  shows "rmatch behind_user_re (h @ port_text n @ p) e at_end = Some ((port_subs n (e(7 \<mapsto> h)))(10 \<mapsto> p))"
proof -
  let ?t = "port_text n @ p"
  have "behind_host ?t" using assms(2) by (auto simp: behind_host_def)
  then have stop: "?t = [] \<or> \<not> member_of (Except '':/'') (hd ?t)" using behind_host_stops [of ?t] by auto
  have h: "avoids '':/'' h" using assms(1) by (rule avoids_fewer) simp
  have "rmatch (Plus (Except '':/'')) (h @ ?t) e
      (\<lambda>t e'. rmatch (Then (Maybe port_re) (Group 10 (Star Dot))) t (e'(7 \<mapsto> take (length (h @ ?t) - length t) (h @ ?t))) at_end)
    = Some ((port_subs n (e(7 \<mapsto> h)))(10 \<mapsto> p))"
    using h stop avoids_all [OF h] by (intro plus_takes) (simp_all only: port_stage [OF assms(2)], auto simp: avoids_def)
  then show ?thesis unfolding behind_user_re_def rmatch.simps(6,7) .
qed

lemma user_stage:
  assumes "avoids '':/@'' h" "good_path p"
    and "case c of None \<Rightarrow> True | Some (u, None) \<Rightarrow> avoids '':/@'' u | Some (u, Some w) \<Rightarrow> avoids '':/@'' u \<and> avoids ''/@'' w"
  shows "rmatch (Then (Maybe credentials_re) behind_user_re) (user_text c @ h @ port_text n @ p) e at_end
    = Some ((port_subs n ((user_subs c e)(7 \<mapsto> h)))(10 \<mapsto> p))"
proof (cases c)
  case None
  have "behind_host (port_text n @ p)" using assms(2) by (auto simp: behind_host_def)
  from no_credentials [OF assms(1) this] have "leaves credentials_re (h @ port_text n @ p) = {}"
    by (simp add: credentials_re_def)
  then have "rmatch credentials_re (h @ port_text n @ p) e (\<lambda>t e'. rmatch behind_user_re t e' at_end) = None"
    by (intro rmatch_None) simp
  then show ?thesis using None host_stage [OF assms(1,2)] by (simp add: user_text_def user_subs_def)
next
  case (Some up)
  obtain u w where up: "up = (u, w)" by (cases up)
  let ?t = "h @ port_text n @ p"
  have u: "u \<noteq> []" "list_all (member_of (Except '':/@'')) u"
    using assms(3) avoids_all [of "'':/@''" u] by (auto simp: Some up avoids_def split: option.splits)
  show ?thesis
  proof (cases w)
    case None
    have "rmatch (Plus (Except '':/@'')) (u @ CHR ''@'' # ?t) e
        (\<lambda>t e'. rmatch (Then (Maybe (Group 5 (Then (Literal (CHR '':'')) (Group 6 (Plus (Except ''/@'')))))) (Literal (CHR ''@'')))
           t (e'(4 \<mapsto> take (length (u @ CHR ''@'' # ?t) - length t) (u @ CHR ''@'' # ?t)))
           (\<lambda>t' e'. rmatch behind_user_re t' (e'(3 \<mapsto> take (length (u @ CHR ''@'' # ?t) - length t') (u @ CHR ''@'' # ?t))) at_end))
      = Some ((port_subs n ((user_subs c e)(7 \<mapsto> h)))(10 \<mapsto> p))"
      using u by (intro plus_takes) (simp_all add: host_stage [OF assms(1,2)] Some up None user_subs_def)
    then show ?thesis by (simp add: credentials_re_def user_text_def Some up None del: rmatch.simps(3))
  next
    case w: (Some v)
    let ?s = "CHR '':'' # v @ CHR ''@'' # ?t"
    have v: "v \<noteq> []" "list_all (member_of (Except ''/@'')) v"
      using assms(3) avoids_all [of "''/@''" v] by (auto simp: Some up w avoids_def)
    have "rmatch (Plus (Except '':/@'')) (u @ ?s) e
        (\<lambda>t e'. rmatch (Then (Maybe (Group 5 (Then (Literal (CHR '':'')) (Group 6 (Plus (Except ''/@'')))))) (Literal (CHR ''@'')))
           t (e'(4 \<mapsto> take (length (u @ ?s) - length t) (u @ ?s)))
           (\<lambda>t' e'. rmatch behind_user_re t' (e'(3 \<mapsto> take (length (u @ ?s) - length t') (u @ ?s))) at_end))
      = Some ((port_subs n ((user_subs c e)(7 \<mapsto> h)))(10 \<mapsto> p))"
    proof (rule plus_takes)
      show "rmatch (Then (Maybe (Group 5 (Then (Literal (CHR '':'')) (Group 6 (Plus (Except ''/@'')))))) (Literal (CHR ''@'')))
           ?s (e(4 \<mapsto> take (length (u @ ?s) - length ?s) (u @ ?s)))
           (\<lambda>t' e'. rmatch behind_user_re t' (e'(3 \<mapsto> take (length (u @ ?s) - length t') (u @ ?s))) at_end)
        = Some ((port_subs n ((user_subs c e)(7 \<mapsto> h)))(10 \<mapsto> p))"
        unfolding rmatch.simps(5,6,7)
        by (rule first_try, simp only: rmatch.simps(2) list.case, subst if_P, rule refl, rule plus_takes)
          (use v in \<open>simp_all add: host_stage [OF assms(1,2)] Some up w user_subs_def\<close>)
    qed (use u in simp_all)
    then show ?thesis by (simp add: credentials_re_def user_text_def Some up w del: rmatch.simps(3))
  qed
qed

lemma with_protocol:
  assumes "rmatch r s (e(2 \<mapsto> p, 1 \<mapsto> p @ ''://'')) k = Some m" "list_all (member_of letters) p" "p \<noteq> []"
  shows "rmatch (Then (Maybe protocol_re) r) (p @ CHR '':'' # CHR ''/'' # CHR ''/'' # s) e k = Some m"
proof -
  let ?s = "p @ CHR '':'' # CHR ''/'' # CHR ''/'' # s"
  have "rmatch (Plus letters) ?s e (\<lambda>t e'. rmatch (exactly ''://'') t (e'(2 \<mapsto> take (length ?s - length t) ?s))
      (\<lambda>t' e'. rmatch r t' (e'(1 \<mapsto> take (length ?s - length t') ?s)) k)) = Some m"
    using assms by (intro plus_takes) (simp_all add: letters_def)
  then show ?thesis by (simp add: protocol_re_def del: rmatch.simps(3))
qed

lemma without_protocol:
  assumes "rmatch r s e k = Some m" "no_scheme s"
  shows "rmatch (Then (Maybe protocol_re) r) s e k = Some m"
proof -
  have "leaves protocol_re s = {}" using no_protocol [OF assms(2)] by (simp add: protocol_re_def)
  then have "rmatch protocol_re s e (\<lambda>t e'. rmatch r t e' k) = None" by (intro rmatch_None) simp
  then show ?thesis using assms(1) by simp
qed

lemma no_schemeI: "list_all (\<lambda>x. x \<noteq> CHR '':'') w \<Longrightarrow> t = [] \<or> \<not> member_of letters (hd t) \<Longrightarrow> take 2 t \<noteq> '':/'' \<Longrightarrow> no_scheme (w @ t)"
  by (auto simp: no_scheme_def)

lemma no_scheme_host:
  assumes "avoids '':/@'' h" "behind_host t"
  shows "no_scheme (h @ t)"
proof (rule no_schemeI)
  obtain n p where t: "t = port_text n @ p" "good_path p" using assms(2) by (auto simp: behind_host_def)
  show "list_all (\<lambda>x. x \<noteq> CHR '':'') h" using assms(1) by (auto simp: avoids_def list_all_iff)
  show "t = [] \<or> \<not> member_of letters (hd t)" using behind_host_stops [OF assms(2)] by (auto simp: letters_def)
  have "take 1 (show_nat m @ p) \<noteq> ''/''" for m using show_nat_avoids [of m] by (cases "show_nat m") (auto simp: avoids_def)
  then show "take 2 t \<noteq> '':/''"
    using t by (cases n) (auto simp: port_text_def good_path_cases numeral_2_eq_2)
qed

lemma no_scheme_user:
  assumes "avoids '':/@'' u" "w = None \<or> (\<exists>v. w = Some v \<and> avoids ''/@'' v)"
  shows "no_scheme (user_text (Some (u, w)) @ s)"
proof -
  have u: "list_all (\<lambda>x. x \<noteq> CHR '':'') u" using assms(1) by (auto simp: avoids_def list_all_iff)
  show ?thesis
  proof (cases w)
    case None
    have "no_scheme (u @ (CHR ''@'' # s))" using u by (intro no_schemeI) (auto simp: letters_def)
    then show ?thesis by (simp add: user_text_def None)
  next
    case (Some v)
    then obtain x xs where v: "v = x # xs" "x \<noteq> CHR ''/''" using assms(2) by (cases v) (auto simp: avoids_def)
    have "no_scheme (u @ (CHR '':'' # v @ CHR ''@'' # s))" using u v by (intro no_schemeI) (auto simp: letters_def)
    then show ?thesis by (simp add: user_text_def Some)
  qed
qed

definition scheme_subs :: "string option \<Rightarrow> sub_matches" where
  "scheme_subs c = (case c of None \<Rightarrow> Map.empty | Some p \<Rightarrow> Map.empty(2 \<mapsto> p, 1 \<mapsto> p @ ''://''))"

lemma url_match:
  assumes "good_url p"
  shows "regex_match url_re (url_text p)
    = Some ((port_subs (port_number p) ((user_subs (user p) (scheme_subs (scheme p)))(7 \<mapsto> host_name p)))(10 \<mapsto> path p))"
proof -
  let ?t = "user_text (user p) @ host_name p @ port_text (port_number p) @ path p"
  have path: "good_path (path p)" and host: "avoids '':/@'' (host_name p)" using assms by (auto simp: good_url_def good_path_def)
  have user: "case user p of None \<Rightarrow> True | Some (u, None) \<Rightarrow> avoids '':/@'' u
      | Some (u, Some w) \<Rightarrow> avoids '':/@'' u \<and> avoids ''/@'' w" using assms by (simp add: good_url_def)
  note stage = user_stage [OF host path user, of "port_number p"]
  show ?thesis
  proof (cases "scheme p")
    case None
    have "no_scheme ?t"
    proof (cases "user p")
      case None
      have "behind_host (port_text (port_number p) @ path p)" using path by (auto simp: behind_host_def)
      with no_scheme_host [OF host] None show ?thesis by (simp add: user_text_def)
    next
      case (Some c)
      with user show ?thesis by (cases c) (auto intro!: no_scheme_user split: option.splits)
    qed
    from without_protocol [OF stage this] None show ?thesis
      by (simp only: regex_match_def url_re_def behind_user_re_def rmatch.simps(1,7) url_text_def scheme_subs_def option.case append_Nil)
  next
    case (Some c)
    then have c: "c = ''http'' \<or> c = ''https''" using assms by (simp add: good_url_def)
    then have "list_all (member_of letters) c" "c \<noteq> []" by (auto simp: letters_def)
    from with_protocol [OF stage this] Some show ?thesis
      by (simp add: regex_match_def url_re_def behind_user_re_def url_text_def scheme_subs_def del: rmatch.simps(2-6))
  qed
qed

section \<open>The host of a URL\<close>

lemma plus_ex:
  assumes "list_all (member_of c) w" "w \<noteq> []" "t = [] \<or> \<not> member_of c (hd t)" "\<exists>m. k t e = Some m \<and> P m"
  shows "\<exists>m. rmatch (Plus c) (w @ t) e k = Some m \<and> P m"
  using assms plus_takes by blast

lemma first_try_ex: "\<exists>m. x = Some m \<and> P m \<Longrightarrow> \<exists>m. (case x of None \<Rightarrow> y | Some m \<Rightarrow> Some m) = Some m \<and> P m"
  by auto

definition host_end_re :: regex where
  "host_end_re = Then (Group 4 (Then (Plus (Except '':/'')) (Maybe (Group 5 (Then (Literal (CHR '':'')) (Plus digits)))))) (Star Dot)"

definition user_re :: regex where
  "user_re = Group 2 (Then (Plus (Except '':/@''))
     (Then (Maybe (Group 3 (Then (Literal (CHR '':'')) (Plus (Except ''/@''))))) (Literal (CHR ''@''))))"

lemma star_end: "rmatch (Star Dot) p e at_end = Some e"
proof -
  have "takeWhile (member_of Dot) p = p" by (simp add: takeWhile_eq_all_conv)
  then show ?thesis by simp (rule longest_first, simp_all)
qed

lemma host_end_stage:
  assumes "avoids '':/@'' h" "good_path p"
  shows "\<exists>m. rmatch host_end_re (h @ port_text n @ p) e at_end = Some m \<and> m 4 = Some (h @ port_text n)"
proof -
  let ?t = "port_text n @ p"
  have "behind_host ?t" using assms(2) by (auto simp: behind_host_def)
  then have stop: "?t = [] \<or> \<not> member_of (Except '':/'') (hd ?t)" using behind_host_stops [of ?t] by auto
  have h: "avoids '':/'' h" using assms(1) by (rule avoids_fewer) simp
  show ?thesis
    unfolding host_end_re_def rmatch.simps(6,7)
  proof (rule plus_ex)
    show "\<exists>m. rmatch (Maybe (Group 5 (Then (Literal (CHR '':'')) (Plus digits)))) ?t e
        (\<lambda>t e'. rmatch (Star Dot) t (e'(4 \<mapsto> take (length (h @ ?t) - length t) (h @ ?t))) at_end) = Some m \<and> m 4 = Some (h @ port_text n)"
    proof (cases n)
      case None
      then show ?thesis
        using assms(2) star_end [of p] by (auto simp: port_text_def good_path_cases simp del: rmatch.simps(4))
    next
      case (Some a)
      show ?thesis unfolding Some port_text_def option.case append_Cons append_Nil rmatch.simps(5,6,7)
        by (rule first_try_ex, simp only: rmatch.simps(2) list.case, subst if_P, rule refl, rule plus_ex)
          (use assms(2) in \<open>auto simp only: show_nat_in_digits good_path_cases show_nat_nonempty star_end, auto simp: digits_def\<close>)
    qed
  qed (use h stop avoids_all [OF h] in \<open>auto simp: avoids_def\<close>)
qed

lemma user_host_stage:
  assumes "avoids '':/@'' h" "good_path p"
    and "case c of None \<Rightarrow> True | Some (u, None) \<Rightarrow> avoids '':/@'' u | Some (u, Some w) \<Rightarrow> avoids '':/@'' u \<and> avoids ''/@'' w"
  shows "\<exists>m. rmatch (Then (Maybe user_re) host_end_re) (user_text c @ h @ port_text n @ p) e at_end = Some m \<and> m 4 = Some (h @ port_text n)"
proof (cases c)
  case None
  have "behind_host (port_text n @ p)" using assms(2) by (auto simp: behind_host_def)
  from no_credentials [OF assms(1) this] have "leaves user_re (h @ port_text n @ p) = {}"
    by (simp add: user_re_def)
  then have "rmatch user_re (h @ port_text n @ p) e (\<lambda>t e'. rmatch host_end_re t e' at_end) = None"
    by (intro rmatch_None) simp
  then show ?thesis using None host_end_stage [OF assms(1,2)] by (simp add: user_text_def)
next
  case (Some up)
  obtain u w where up: "up = (u, w)" by (cases up)
  let ?t = "h @ port_text n @ p"
  have u: "u \<noteq> []" "list_all (member_of (Except '':/@'')) u"
    using assms(3) avoids_all [of "'':/@''" u] by (auto simp: Some up avoids_def split: option.splits)
  show ?thesis
  proof (cases w)
    case None
    have t: "user_text c @ ?t = u @ CHR ''@'' # ?t" by (simp add: user_text_def Some up None)
    show ?thesis unfolding t user_re_def rmatch.simps(5,6,7)
      by (rule first_try_ex, rule plus_ex) (use u host_end_stage [OF assms(1,2)] in simp_all)
  next
    case w: (Some v)
    let ?s = "CHR '':'' # v @ CHR ''@'' # ?t"
    have v: "v \<noteq> []" "list_all (member_of (Except ''/@'')) v"
      using assms(3) avoids_all [of "''/@''" v] by (auto simp: Some up w avoids_def)
    have t: "user_text c @ ?t = u @ ?s" by (simp add: user_text_def Some up w)
    show ?thesis unfolding t user_re_def rmatch.simps(5,6,7)
      by (rule first_try_ex, rule plus_ex, use u in simp, use u in simp, simp,
          rule first_try_ex, simp only: rmatch.simps(2) list.case, subst if_P, rule refl, rule plus_ex)
        (use v host_end_stage [OF assms(1,2)] in simp_all)
  qed
qed

lemma with_protocol_ex:
  assumes "\<And>e. \<exists>m. rmatch r s e k = Some m \<and> P m" "list_all (member_of letters) c" "c \<noteq> []"
  shows "\<exists>m. rmatch (Then (Maybe (Group 1 (Then (Plus letters) (exactly ''://'')))) r) (c @ CHR '':'' # CHR ''/'' # CHR ''/'' # s) e k = Some m \<and> P m"
  unfolding rmatch.simps(5-7)
  by (rule first_try_ex, rule plus_ex) (use assms in \<open>simp_all add: letters_def\<close>)

lemma host_match:
  assumes "good_url p"
  shows "\<exists>m. regex_match host_re (url_text p) = Some m \<and> m 4 = Some (host_name p @ port_text (port_number p))"
proof -
  let ?t = "user_text (user p) @ host_name p @ port_text (port_number p) @ path p"
  let ?r = "Group 1 (Then (Plus letters) (exactly ''://''))"
  have path: "good_path (path p)" and host: "avoids '':/@'' (host_name p)" using assms by (auto simp: good_url_def good_path_def)
  have user: "case user p of None \<Rightarrow> True | Some (u, None) \<Rightarrow> avoids '':/@'' u
      | Some (u, Some w) \<Rightarrow> avoids '':/@'' u \<and> avoids ''/@'' w" using assms by (simp add: good_url_def)
  note stage = user_host_stage [OF host path user, of "port_number p"]
  have re: "host_re = Then Bol (Then (Maybe ?r) (Then (Maybe user_re) host_end_re))"
    by (simp add: host_re_def user_re_def host_end_re_def)
  show ?thesis
  proof (cases "scheme p")
    case None
    have "no_scheme ?t"
      using no_scheme_host [OF host, of "port_text (port_number p) @ path p"] path user
      by (cases "user p") (auto simp: user_text_def [of None] behind_host_def intro!: no_scheme_user split: option.splits)
    then have "leaves ?r ?t = {}" using no_protocol by simp
    then have "rmatch ?r ?t Map.empty (\<lambda>t e'. rmatch (Then (Maybe user_re) host_end_re) t e' at_end) = None"
      by (intro rmatch_None) simp
    then have "regex_match host_re (url_text p) = rmatch (Then (Maybe user_re) host_end_re) ?t Map.empty at_end"
      by (simp only: re regex_match_def rmatch.simps(1,5,7) url_text_def None option.case append_Nil)
    then show ?thesis using stage by simp
  next
    case (Some c)
    then have c: "list_all (member_of letters) c" "c \<noteq> []" using assms by (auto simp: good_url_def letters_def)
    have t: "url_text p = c @ CHR '':'' # CHR ''/'' # CHR ''/'' # ?t" by (simp add: url_text_def Some)
    show ?thesis unfolding re regex_match_def t rmatch.simps(1) rmatch.simps(7) [of Bol]
      by (rule with_protocol_ex [OF _ c]) (rule stage)
  qed
qed

section \<open>Correctness\<close>

lemma parseURL_parts:
  assumes "perl_regex re_match" "decimal_casts L" "good_url p"
  defines "protocol \<equiv> case scheme p of None \<Rightarrow> ''http'' | Some s \<Rightarrow> s"
  shows "parseURL re_match L (url_text p) = Inr (protocol, host_name p,
      (case port_number p of Some n \<Rightarrow> word_of_nat n | None \<Rightarrow> if protocol = ''http'' then 80 else 443),
      (if path p = [] then ''/'' else path p), (case user p of None \<Rightarrow> [] | Some (u, w) \<Rightarrow> u),
      (case user p of Some (u, Some w) \<Rightarrow> w | _ \<Rightarrow> []))"
proof -
  have re: "re_match r s = regex_match r s" for r s using assms(1) by (simp add: perl_regex_def)
  have "cast_uint16 L (show_nat n) = Some n" if "port_number p = Some n" for n
    using assms(3) that by (intro decimal_castsD(4) [OF assms(2)]) (simp add: good_url_def)
  moreover have "case scheme p of None \<Rightarrow> True | Some s \<Rightarrow> s = ''http'' \<or> s = ''https''" using assms(3) by (simp add: good_url_def)
  ultimately show ?thesis
    by (auto simp: protocol_def parseURL_def re url_match [OF assms(3)] port_subs_def user_subs_def scheme_subs_def sub_text_def
        split: option.splits)
qed

text \<open>
  C29: with Perl's matching and decimal casts, \<open>parseURL\<close> takes every URL of the usual form (\<open>http\<close> or \<open>https\<close> or
  no protocol, perhaps a user with or without a password, a host, perhaps a port below 65536, and a path that
  starts with a slash) into its parts, with the protocol \<open>http\<close>, the port of the protocol and the path \<open>/\<close> where they
  are not given; \<open>extractHost\<close> gives the host with its port as they are written in it.
\<close>

theorem parseURL_takes_urls_apart:
  assumes "perl_regex re_match" "decimal_casts L" "good_url p"
  shows "(let protocol = (case scheme p of None \<Rightarrow> ''http'' | Some s \<Rightarrow> s) in
      parseURL re_match L (url_text p) = Inr (protocol, host_name p,
        (case port_number p of Some n \<Rightarrow> word_of_nat n | None \<Rightarrow> if protocol = ''http'' then 80 else 443),
        (if path p = [] then ''/'' else path p),
        (case user p of None \<Rightarrow> [] | Some (u, w) \<Rightarrow> u),
        (case user p of Some (u, Some w) \<Rightarrow> w | _ \<Rightarrow> [])))
    \<and> extractHost re_match (url_text p) = host_name p @ port_text (port_number p)"
proof -
  obtain m where "regex_match host_re (url_text p) = Some m" "m 4 = Some (host_name p @ port_text (port_number p))"
    using host_match [OF assms(3)] by blast
  moreover have "re_match r s = regex_match r s" for r s using assms(1) by (simp add: perl_regex_def)
  ultimately show ?thesis using parseURL_parts [OF assms] by (simp add: extractHost_def sub_text_def)
qed

definition sample_url :: url_parts where
  "sample_url = \<lparr>scheme = Some ''https'', user = Some (''me'', Some ''pw:1''), host_name = ''example.com'', port_number = Some 8080,
     path = ''/a?b@c:d''\<rparr>"

lemma show_8080: "show_nat 8080 = ''8080''"
  by (simp add: show_nat.simps)

theorem parseURL_takes_urls_apart_witness:
  "parseURL regex_match boost_ref ''https://me:pw:1@example.com:8080/a?b@c:d''
    = Inr (''https'', ''example.com'', 8080, ''/a?b@c:d'', ''me'', ''pw:1'')"
proof -
  have "perl_regex regex_match" "good_url sample_url"
    by (simp_all add: perl_regex_def good_url_def sample_url_def avoids_def)
  moreover have "url_text sample_url = ''https://me:pw:1@example.com:8080/a?b@c:d''"
    by (simp add: sample_url_def url_text_def user_text_def port_text_def show_8080)
  ultimately show ?thesis
    using parseURL_takes_urls_apart [of regex_match boost_ref sample_url] by (simp add: sample_url_def Let_def)
qed

text \<open>What follows the host without a slash is taken for a part of its name; without a host, the protocol is taken for it.\<close>

lemma misread_urls:
  "parseURL regex_match boost_ref ''http://h?q'' = Inr (''http'', ''h?q'', 80, ''/'', [], [])"
  "parseURL regex_match boost_ref ''http:///x'' = Inr (''http'', ''http'', 80, '':///x'', [], [])"
  by code_simp+

text \<open>Another protocol and the empty text are refused.\<close>

lemma refused_urls:
  "parseURL regex_match boost_ref ''ftp://h/'' = Inl (runtime_error ''Unknown protocol'')"
  "parseURL regex_match boost_ref [] = Inl (runtime_error ''Invalid URL'')"
  by code_simp+

end
