(* ===== verification/DamonRequest.thy ===== *)
theory DamonRequest
  imports ParseUrl Base64 HTTPDataHandler
begin

text \<open>
  The requests of the HTTP client: \<^verbatim>\<open>lib/Damon/Request.h\<close>, the second half of \<^verbatim>\<open>Request.cpp\<close> (the text that is sent) and
  \<^verbatim>\<open>Details/Header.cpp\<close>. What is sent is compared with what Spin's server makes of it.
\<close>

section \<open>Requests\<close>

text \<open>The enumerators, and any other value of the enumeration's type. The names of the methods are those of the server.\<close>

datatype client_method = Method http_method | NoMethod nat

datatype authorization_method = No_authorization | Basic

record damon_request =
  durl :: string
  dmethod :: client_method
  dauth :: authorization_method
  dheaders :: "header list"
  dbody :: string

definition DamonRequest :: "string \<Rightarrow> client_method \<Rightarrow> authorization_method \<Rightarrow> damon_request" where
  "DamonRequest u m a = \<lparr>durl = u, dmethod = m, dauth = a, dheaders = [], dbody = []\<rparr>"

definition damon_addHeader :: "string \<Rightarrow> string \<Rightarrow> damon_request \<Rightarrow> damon_request" where
  "damon_addHeader n v r = r\<lparr>dheaders := dheaders r @ [Header n v]\<rparr>"

definition damon_setBody :: "string \<Rightarrow> damon_request \<Rightarrow> damon_request" where
  "damon_setBody b r = r\<lparr>dbody := b\<rparr>"

section \<open>Serialisation\<close>

text \<open>\<open>None\<close> is an encoding that does not end.\<close>

definition createBasicAuthorizationHeader :: "string \<Rightarrow> string \<Rightarrow> header option" where
  "createBasicAuthorizationHeader username password =
     map_option (\<lambda>x. Header ''Authorization'' (''Basic '' @ x)) (base64encode (username @ '':'' @ password))"

fun method_text :: "client_method \<Rightarrow> exn + string" where
  "method_text (Method Options) = Inr ''OPTIONS ''"
| "method_text (Method Get) = Inr ''GET ''"
| "method_text (Method Head) = Inr ''HEAD ''"
| "method_text (Method Post) = Inr ''POST ''"
| "method_text (Method Put) = Inr ''PUT ''"
| "method_text (Method Delete) = Inr ''DELETE ''"
| "method_text (Method Trace) = Inr ''TRACE ''"
| "method_text (Method Connect) = Inr ''CONNECT ''"
| "method_text (NoMethod n) = Inl (runtime_error ''Unknown method'')"

text \<open>The header fields that are added to the copy of the request.\<close>

definition add_host :: "(regex \<Rightarrow> string \<Rightarrow> sub_matches option) \<Rightarrow> string \<Rightarrow> header list \<Rightarrow> header list" where
  "add_host re_match u hs = (if find_header ''Host'' hs = None then hs @ [Header ''Host'' (extractHost re_match u)] else hs)"

definition add_length :: "boost_lib \<Rightarrow> string \<Rightarrow> header list \<Rightarrow> header list" where
  "add_length L b hs = (if find_header ''Content-Length'' hs = None
     then hs @ [Header ''Content-Length'' (cast_string L (length b))] else hs)"

definition add_authorization :: "authorization_method \<Rightarrow> string \<Rightarrow> string \<Rightarrow> header list \<Rightarrow> header list option" where
  "add_authorization a username password hs = (if a = Basic \<and> username \<noteq> []
     then map_option (\<lambda>h. hs @ [h]) (createBasicAuthorizationHeader username password) else Some hs)"

definition damon_serialize ::
  "(regex \<Rightarrow> string \<Rightarrow> sub_matches option) \<Rightarrow> boost_lib \<Rightarrow> damon_request \<Rightarrow> (exn + string) option" where
  "damon_serialize re_match L r = (case parseURL re_match L (durl r) of
      Inl e \<Rightarrow> Some (Inl e)
    | Inr (protocol, server, port, resource, username, password) \<Rightarrow>
        (case method_text (dmethod r) of
           Inl e \<Rightarrow> Some (Inl e)
         | Inr m \<Rightarrow>
             map_option (\<lambda>hs. Inr (foldl (append_header L) (m @ resource @ '' HTTP/1.1'' @ CRLF) hs @ CRLF @ dbody r))
               (add_authorization (dauth r) username password (add_length L (dbody r) (add_host re_match (durl r) (dheaders r))))))"

section \<open>What the server makes of it\<close>

text \<open>The fields a request is sent with, for a request to the URL with the parts \<open>p\<close>.\<close>

definition user_name :: "url_parts \<Rightarrow> string" where
  "user_name p = (case user p of None \<Rightarrow> [] | Some (u, w) \<Rightarrow> u)"

definition pass_word :: "url_parts \<Rightarrow> string" where
  "pass_word p = (case user p of Some (u, Some w) \<Rightarrow> w | _ \<Rightarrow> [])"

definition sent_headers :: "url_parts \<Rightarrow> damon_request \<Rightarrow> header list" where
  "sent_headers p r = dheaders r
     @ (if find_header ''Host'' (dheaders r) = None then [Header ''Host'' (host_name p @ port_text (port_number p))] else [])
     @ (if find_header ''Content-Length'' (dheaders r) = None then [Header ''Content-Length'' (show_nat (length (dbody r)))] else [])
     @ (if dauth r = Basic \<and> user p \<noteq> None
        then [Header ''Authorization'' (''Basic '' @ encoding (user_name p @ '':'' @ pass_word p))] else [])"

fun method_name :: "client_method \<Rightarrow> string" where
  "method_name m = (case method_text m of Inl e \<Rightarrow> [] | Inr t \<Rightarrow> butlast t)"

definition sent_request :: "nat \<Rightarrow> url_parts \<Rightarrow> damon_request \<Rightarrow> request" where
  "sent_request c p r = \<lparr>connection = c, verb = method_name (dmethod r), url = (if path p = [] then ''/'' else path p),
     protocol_and_version = ''HTTP/1.1'', header_fields = sent_headers p r, body = dbody r\<rparr>"

definition client_request :: "boost_lib \<Rightarrow> url_parts \<Rightarrow> damon_request \<Rightarrow> bool" where
  "client_request L p r \<longleftrightarrow> good_url p \<and> durl r = url_text p \<and> no_space (host_name p) \<and> no_space (path p) \<and>
     padded_size (length (user_name p) + 1 + length (pass_word p)) + 4 < 2 ^ 32 \<and>
     dmethod r \<in> range Method \<and> list_all good_header (dheaders r) \<and> clean_start (dbody r) \<and> length (dbody r) < 2 ^ 64 \<and>
     (case find_header ''Content-Length'' (dheaders r) of None \<Rightarrow> True
      | Some h \<Rightarrow> cast_size_t L (hvalue h) = Some (length (dbody r)))"

lemma find_header_append: "find_header n (xs @ ys) = (case find_header n xs of None \<Rightarrow> find_header n ys | Some h \<Rightarrow> Some h)"
  by (induction xs) simp_all

lemma symbol_no_space: "n < 64 \<Longrightarrow> \<not> isIgnorableWhiteSpace (symbol n)"
proof -
  have "list_all (\<lambda>x. \<not> isIgnorableWhiteSpace x) base64_characters" "length base64_characters = 64"
    by (simp_all add: base64_characters_def isIgnorableWhiteSpace_def)
  then show "n < 64 \<Longrightarrow> ?thesis" by (simp add: symbol_def list_all_length)
qed

lemma padding_no_space: "\<not> isIgnorableWhiteSpace (CHR ''='')"
  by (simp add: isIgnorableWhiteSpace_def)

lemma encoding_no_space: "no_space (encoding s)"
proof (induction s rule: encoding.induct)
  case (4 x y z s)
  then show ?case using groups_back by (simp add: no_space_def symbol_no_space)
qed (simp_all add: no_space_def symbol_no_space groups_back padding_no_space)

lemma good_field: "n \<noteq> [] \<Longrightarrow> CHR '':'' \<notin> set n \<Longrightarrow> no_space n \<Longrightarrow> trimmed v \<Longrightarrow> one_line v \<Longrightarrow> good_header (Header n v)"
  using no_space_trimmed [of n] by (simp add: good_header_def)

lemma authorization_field: "good_header (Header ''Authorization'' (''Basic '' @ encoding (x # s)))"
proof (rule good_field)
  have "encoding (x # s) \<noteq> []" by (cases "x # s" rule: encoding.cases) auto
  moreover have "trimmed (encoding (x # s))" "one_line (encoding (x # s))" using no_space_trimmed [OF encoding_no_space] by blast+
  ultimately show "trimmed (''Basic '' @ encoding (x # s))" "one_line (''Basic '' @ encoding (x # s))"
    by (auto simp: trimmed_def one_line_def isIgnorableWhiteSpace_def isNewLine_def)
qed (simp_all add: no_space_def isIgnorableWhiteSpace_def)

lemma sent_headers_good:
  assumes "client_request L p r"
  shows "\<forall>h \<in> set (sent_headers p r). good_header h"
proof -
  have host: "host_name p \<noteq> []" "no_space (host_name p)" using assms by (auto simp: client_request_def good_url_def avoids_def)
  have "no_space (port_text (port_number p))"
    using no_space_show_nat by (auto simp: port_text_def no_space_def isIgnorableWhiteSpace_def split: option.splits)
  with host(2) have "no_space (host_name p @ port_text (port_number p))" by (simp add: no_space_append)
  then have "good_header (Header ''Host'' (host_name p @ port_text (port_number p)))"
    by (intro good_field) (simp_all add: no_space_trimmed, simp add: no_space_def isIgnorableWhiteSpace_def)
  moreover have "good_header (Header ''Content-Length'' (show_nat (length (dbody r))))"
    using no_space_trimmed [OF no_space_show_nat [of "length (dbody r)"]]
    by (intro good_field) (simp_all, simp add: no_space_def isIgnorableWhiteSpace_def)
  moreover have "good_header (Header ''Authorization'' (''Basic '' @ encoding (user_name p @ '':'' @ pass_word p)))"
    using authorization_field [of "hd (user_name p @ '':'' @ pass_word p)" "tl (user_name p @ '':'' @ pass_word p)"]
    by (cases "user_name p") simp_all
  ultimately show ?thesis using assms by (auto simp: sent_headers_def client_request_def list_all_iff)
qed

lemma method_names: "m \<in> range Method \<Longrightarrow> method_text m = Inr (method_name m @ [SP]) \<and> method_name m \<in> dom supported_methods"
proof -
  assume "m \<in> range Method"
  then obtain x where m: "m = Method x" by blast
  show ?thesis unfolding m by (cases x) (simp_all add: supported_methods_def)
qed

lemma sent_request_good:
  assumes "decimal_casts L" "client_request L p r"
  shows "good_request L (sent_request c p r)"
proof -
  have "find_header ''Content-Length'' (sent_headers p r) = (case find_header ''Content-Length'' (dheaders r) of
      None \<Rightarrow> Some (Header ''Content-Length'' (show_nat (length (dbody r)))) | Some h \<Rightarrow> Some h)"
    by (auto simp: sent_headers_def find_header_append split: option.splits)
  then have "good_body L (sent_request c p r)"
    using assms by (auto simp: good_body_def sent_request_def client_request_def decimal_castsD split: option.splits)
  moreover have "good_start_line (sent_request c p r)"
    using assms(2) method_names [of "dmethod r"]
    by (auto simp: good_start_line_def sent_request_def client_request_def no_space_def list_all_iff isIgnorableWhiteSpace_def
        simp del: method_name.simps)
  ultimately show ?thesis using sent_headers_good [OF assms(2)] by (simp add: good_request_def sent_request_def)
qed

lemma damon_serialize_wire:
  assumes "perl_regex re_match" "decimal_casts L" "positional_format L" "client_request L p r"
  shows "damon_serialize re_match L r = Some (Inr (request_wire (sent_request c p r)))"
proof -
  have good: "good_url p" "durl r = url_text p" "dmethod r \<in> range Method"
    "padded_size (length (user_name p) + 1 + length (pass_word p)) + 4 < 2 ^ 32"
    using assms(4) by (simp_all add: client_request_def)
  have re: "re_match x s = regex_match x s" for x s using assms(1) by (simp add: perl_regex_def)
  obtain m where "regex_match host_re (url_text p) = Some m" "m 4 = Some (host_name p @ port_text (port_number p))"
    using host_match [OF good(1)] by blast
  then have host: "extractHost re_match (durl r) = host_name p @ port_text (port_number p)"
    by (simp add: extractHost_def re good(2) sub_text_def)
  obtain protocol server port where url: "parseURL re_match L (durl r)
      = Inr (protocol, server, port, (if path p = [] then ''/'' else path p), user_name p, pass_word p)"
    using parseURL_parts [OF assms(1,2) good(1)] unfolding good(2) user_name_def pass_word_def by blast
  have "base64encode (user_name p @ '':'' @ pass_word p) = Some (encoding (user_name p @ '':'' @ pass_word p))"
    using good(4) by (intro base64encode_padded) simp
  moreover have "user_name p \<noteq> [] \<longleftrightarrow> user p \<noteq> None"
    using good(1) by (auto simp: user_name_def good_url_def avoids_def split: option.splits)
  ultimately have hs: "add_authorization (dauth r) (user_name p) (pass_word p)
      (add_length L (dbody r) (add_host re_match (durl r) (dheaders r))) = Some (sent_headers p r)"
    using assms(2) by (auto simp: add_authorization_def add_length_def add_host_def sent_headers_def host
        createBasicAuthorizationHeader_def find_header_append decimal_castsD split: option.splits)
  show ?thesis
    using method_names [OF good(3)] fold_append_header [OF assms(3)]
    by (simp add: damon_serialize_def url hs request_wire_def start_line_def sent_request_def header_block_def
        del: method_name.simps)
qed

text \<open>
  C13: let a request of Damon have one of the methods, a URL of the usual form without white space in its host and path
  (a blank in the path is sent as it is, and the server takes what follows it for the protocol), header fields of one line,
  with the right length if one of them gives it, and a body that does not start with white space (which the server loses). Then what Damon
  serialises is delivered by Spin's server as it was meant: with the method, the path of the URL,
  HTTP/1.1, the given fields and behind them the host, the length of the body and, where the user is to be authorised,
  the credentials in base64 (unless the fields already have a host or a length), and the body.
\<close>

theorem client_requests_reach_the_server:
  assumes "perl_regex re_match" "decimal_casts L" "positional_format L" "client_request L p r"
  shows "\<exists>w. damon_serialize re_match L r = Some (Inr w) \<and> serve L c None w = (Done, None, [sent_request c p r])"
  using damon_serialize_wire [OF assms, of c] serve_requests [of "[sent_request c p r]" L c] sent_request_good [OF assms(2,4), of c]
  by (simp add: sent_request_def)

definition sample_request :: damon_request where
  "sample_request = (damon_setBody ''x=1'' (damon_addHeader ''Accept'' ''text/html'' (DamonRequest (url_text sample_url) (Method Post) Basic)))"

lemma show_3: "show_nat (Suc (Suc (Suc 0))) = ''3''"
  by code_simp

theorem client_requests_reach_the_server_witness:
  "\<exists>w. damon_serialize regex_match boost_ref sample_request = Some (Inr w)
     \<and> serve boost_ref 7 None w = (Done, None, [\<lparr>connection = 7, verb = ''POST'', url = ''/a?b@c:d'', protocol_and_version = ''HTTP/1.1'',
        header_fields = [Header ''Accept'' ''text/html'', Header ''Host'' ''example.com:8080'', Header ''Content-Length'' ''3'',
          Header ''Authorization'' (''Basic '' @ encoding ''me:pw:1'')], body = ''x=1''\<rparr>])"
proof -
  have "perl_regex regex_match" by (simp add: perl_regex_def)
  moreover have "client_request boost_ref sample_url sample_request"
    by (simp add: client_request_def good_url_def sample_url_def avoids_def sample_request_def damon_setBody_def damon_addHeader_def
        DamonRequest_def no_space_def isIgnorableWhiteSpace_def user_name_def pass_word_def padded_size_def good_header_def trimmed_def
        one_line_def isNewLine_def clean_start_def)
  ultimately show ?thesis
    using client_requests_reach_the_server [of regex_match boost_ref sample_url sample_request 7]
    by (simp add: sent_request_def sample_request_def sample_url_def damon_setBody_def damon_addHeader_def DamonRequest_def
        sent_headers_def user_name_def pass_word_def port_text_def show_8080 show_3 del: encoding.simps)
qed

end
