(* ===== verification/DamonResponse.thy ===== *)
theory DamonResponse
  imports HTTPDataHandler
begin

text \<open>
  The responses of the HTTP client: \<^verbatim>\<open>lib/Damon/Response.h\<close> and \<open>getResponse\<close> of \<^verbatim>\<open>Request.cpp\<close>. Responses are those of
  Spin (the fields are the same). What is left over is kept in an attribute of the connection; the function goes back
  to its start as long as the header fields are not complete, so it may not end.
\<close>

section \<open>State\<close>

text \<open>
  What \<open>getResponse\<close> stores in the attribute: a tuple of four (the response so far, the bytes not yet used, and two flags),
  or, for an incomplete body, a tuple of three, which the cast to a tuple of four refuses.
\<close>

datatype damon_attribute = Tuple4 "response option" string bool bool | Tuple3 response string bool

definition add_response_header :: "header \<Rightarrow> response \<Rightarrow> response" where
  "add_response_header h r = r\<lparr>rheader_fields := rheader_fields r @ [h]\<rparr>"

interpretation response_message: header_message add_response_header rheader_fields
  by unfold_locales (simp add: add_response_header_def)

section \<open>Reading\<close>

text \<open>The branch that reads from the connection and puts what it had before in front; the attribute is empty.\<close>

definition read_more :: "'s openssl \<Rightarrow> connection \<Rightarrow> string \<Rightarrow> 's \<Rightarrow> ((exn + string) \<times> 's) option" where
  "read_more lib c tmp_buffer s = (case connection_read lib c [] s of
      None \<Rightarrow> None
    | Some (Inl e, s') \<Rightarrow> Some (Inl e, s')
    | Some (Inr (buffer, bytes, reason), s') \<Rightarrow>
        if reason \<noteq> 0 \<and> reason \<noteq> 1 \<and> reason \<noteq> 2 then Some (Inl (runtime_error ''Unexpected connection state''), s')
        else (case resize (unat bytes) buffer of
            Inl e \<Rightarrow> Some (Inl e, s')
          | Inr buffer \<Rightarrow> Some (Inr (tmp_buffer @ buffer), s')))"

definition poll_or_read :: "'s openssl \<Rightarrow> connection \<Rightarrow> bool \<Rightarrow> bool \<Rightarrow> string \<Rightarrow> 's \<Rightarrow> ((exn + string) \<times> 's) option" where
  "poll_or_read lib c retrying eob buffer s =
     (if retrying \<or> eob \<or> buffer = [] then read_more lib c buffer s
      else case connection_poll lib c s of
          Inl e \<Rightarrow> Some (Inl e, s)
        | Inr ready \<Rightarrow> if ready then read_more lib c buffer s else Some (Inr buffer, s))"

definition extract_response :: "boost_lib \<Rightarrow> string \<Rightarrow> exn + response option \<times> nat" where
  "extract_response L b = extractResponseHeader L (\<lambda>p code. Response p (int code)) b 0 (length b)"

text \<open>
  The first loop. Its first round takes the attribute, if there is one; a round without attribute reads and extracts the
  status line, and ends the loop (with a response, or by the \<open>break\<close>). The result has the response, the buffer, the
  iterator and \<open>end_of_headers_found\<close>.
\<close>

type_synonym acquired = "response option \<times> string \<times> nat \<times> bool"

definition parse_round :: "boost_lib \<Rightarrow> 's openssl \<Rightarrow> connection \<Rightarrow> bool \<Rightarrow> bool \<Rightarrow> string \<Rightarrow> bool \<Rightarrow> 's \<Rightarrow> ((exn + acquired) \<times> 's) option" where
  "parse_round L lib c retrying eob buffer eoh s = (case poll_or_read lib c retrying eob buffer s of
      None \<Rightarrow> None
    | Some (Inl e, s') \<Rightarrow> Some (Inl e, s')
    | Some (Inr buffer, s') \<Rightarrow>
        (case extract_response L buffer of
           Inl e \<Rightarrow> Some (Inl e, s')
         | Inr (response, wh) \<Rightarrow> Some (Inr (response, buffer, wh, eoh), s')))"

definition acquire_response ::
  "boost_lib \<Rightarrow> 's openssl \<Rightarrow> connection \<Rightarrow> bool \<Rightarrow> damon_attribute option \<Rightarrow> 's
     \<Rightarrow> ((exn + acquired) \<times> damon_attribute option \<times> 's) option" where
  "acquire_response L lib c retrying attr s = (case attr of
      None \<Rightarrow> map_option (\<lambda>(r, s'). (r, None, s')) (parse_round L lib c retrying False [] False s)
    | Some (Tuple3 r t eoh) \<Rightarrow> Some (Inl bad_any_cast, attr, s)
    | Some (Tuple4 response temp_buffer eoh eob) \<Rightarrow>
        if response \<noteq> None \<or> temp_buffer = [] then Some (Inr (response, temp_buffer, 0, eoh), None, s)
        else map_option (\<lambda>(r, s'). (r, None, s')) (parse_round L lib c retrying eob temp_buffer eoh s))"

section \<open>Header fields and body\<close>

text \<open>The second loop, with \<open>end_of_buffer_found\<close> in its result.\<close>

function response_headers :: "string \<Rightarrow> nat \<Rightarrow> bool \<Rightarrow> response \<Rightarrow> exn + response \<times> nat \<times> bool \<times> bool" where
  "response_headers b wh eoh r =
     (let whence = advanceThroughIgnorableWhiteSpace b wh (length b) in
      if moreHeaders b wh whence then
        (let wh' = whence; whence' = findHeaderEnd b wh' (length b) in
         if wh' \<noteq> whence' then
           (case splitHeader b wh' whence' of
              Inl e \<Rightarrow> Inl e
            | Inr (n, v) \<Rightarrow>
                if \<not> eoh \<and> whence' \<noteq> length b
                then response_headers b whence' eoh (add_response_header (Header n v) r)
                else Inr (add_response_header (Header n v) r, whence', eoh, False))
         else Inr (r, wh', eoh, True))
      else Inr (r, whence, True, False))"
  by pat_completeness auto
termination
proof (relation "measure (\<lambda>(b, wh, eoh, r). length b - wh)", goal_cases)
  case (2 b wh eoh r whence wh' whence')
  show ?case
  proof (cases "wh \<le> length b")
    case True
    with 2 show ?thesis
      using scan_bounds(1,2) [of wh "length b" b] findHeaderEnd_bounds [of wh' b] by auto
  next
    case False
    then have "whence = wh"
      using 2 by (subst (asm) advanceThroughIgnorableWhiteSpace.simps) simp
    with False 2 findHeaderEnd_beyond [of b wh] show ?thesis by auto
  qed
qed simp

declare response_headers.simps [simp del]

text \<open>It is the loop of the server.\<close>

lemma response_headers_loop:
  "header_loop add_response_header b wh eoh r = (case response_headers b wh eoh r of
     Inl e \<Rightarrow> Inl e | Inr (r', wh', eoh', eob) \<Rightarrow> Inr (r', wh', eoh'))"
proof (induction b wh eoh r rule: response_headers.induct)
  case (1 b wh eoh r)
  then show ?case
    by (subst header_loop.simps, subst response_headers.simps) (simp add: Let_def split: sum.splits)
qed

text \<open>How a pass ends: with an exception, a response, the use of a null pointer, or by going back.\<close>

datatype response_end = Throws exn | Returns response | NullResponse | Retry

definition leave_rest :: "string \<Rightarrow> nat \<Rightarrow> bool \<Rightarrow> damon_attribute option" where
  "leave_rest b wh eob = (if wh < length b then Some (Tuple4 None (drop wh b) False eob) else None)"

definition response_body :: "boost_lib \<Rightarrow> response \<Rightarrow> string \<Rightarrow> nat \<Rightarrow> bool \<Rightarrow> response_end \<times> damon_attribute option" where
  "response_body L r b wh eob = (case find_header ''Content-Length'' (rheader_fields r) of
      Some h \<Rightarrow>
        (case cast_size_t L (hvalue h) of
           None \<Rightarrow> (Throws bad_lexical_cast, None)
         | Some body_size \<Rightarrow>
             if length b - wh < body_size then (Returns r, Some (Tuple3 r (drop wh b) True))
             else (Returns (r\<lparr>rbody := rbody r @ seg b wh (wh + body_size)\<rparr>), leave_rest b (wh + body_size) eob))
    | None \<Rightarrow> (Returns r, leave_rest b wh eob))"

definition response_pass ::
  "boost_lib \<Rightarrow> 's openssl \<Rightarrow> connection \<Rightarrow> bool \<Rightarrow> damon_attribute option \<Rightarrow> 's
     \<Rightarrow> (response_end \<times> damon_attribute option \<times> 's) option" where
  "response_pass L lib c retrying attr s = (case acquire_response L lib c retrying attr s of
      None \<Rightarrow> None
    | Some (Inl e, attr', s') \<Rightarrow> Some (Throws e, attr', s')
    | Some (Inr (None, b, wh, eoh), attr', s') \<Rightarrow>
        if eoh then Some (NullResponse, attr', s')
        else Some (Retry, Some (Tuple4 None (drop wh b) eoh False), s')
    | Some (Inr (Some r, b, wh, eoh), attr', s') \<Rightarrow>
        (case response_headers b wh eoh r of
           Inl e \<Rightarrow> Some (Throws e, attr', s')
         | Inr (r, wh, eoh, eob) \<Rightarrow>
             if eoh then (case response_body L r b wh eob of (x, a) \<Rightarrow> Some (x, a, s'))
             else Some (Retry, Some (Tuple4 (Some r) (drop wh b) eoh eob), s')))"

text \<open>\<open>goto retry\<close>. \<open>None\<close> is a call that does not return.\<close>

partial_function (option) response_retry ::
  "boost_lib \<Rightarrow> 's openssl \<Rightarrow> connection \<Rightarrow> bool \<Rightarrow> damon_attribute option \<Rightarrow> 's
     \<Rightarrow> (response_end \<times> damon_attribute option \<times> 's) option" where
  "response_retry L lib c retrying attr s = (case response_pass L lib c retrying attr s of
      None \<Rightarrow> None
    | Some (x, attr', s') \<Rightarrow> if x = Retry then response_retry L lib c True attr' s' else Some (x, attr', s'))"

definition getResponse ::
  "boost_lib \<Rightarrow> 's openssl \<Rightarrow> connection \<Rightarrow> damon_attribute option \<Rightarrow> 's
     \<Rightarrow> (response_end \<times> damon_attribute option \<times> 's) option" where
  "getResponse L lib c attr s = response_retry L lib c False attr s"

text \<open>
  The end of \<open>send\<close> for several requests: a call for each of them. \<open>Inl\<close> is a call that ended without a response.
\<close>

fun receive_responses ::
  "boost_lib \<Rightarrow> 's openssl \<Rightarrow> connection \<Rightarrow> nat \<Rightarrow> damon_attribute option \<Rightarrow> 's
     \<Rightarrow> ((response_end + response list) \<times> damon_attribute option \<times> 's) option" where
  "receive_responses L lib c 0 attr s = Some (Inr [], attr, s)"
| "receive_responses L lib c (Suc n) attr s = (case getResponse L lib c attr s of
     None \<Rightarrow> None
   | Some (Returns r, attr', s') \<Rightarrow>
       (case receive_responses L lib c n attr' s' of
          None \<Rightarrow> None
        | Some (Inl x, attr'', s'') \<Rightarrow> Some (Inl x, attr'', s'')
        | Some (Inr rs, attr'', s'') \<Rightarrow> Some (Inr (r # rs), attr'', s''))
   | Some (x, attr', s') \<Rightarrow> Some (Inl x, attr', s'))"

section \<open>The attribute is well formed\<close>

text \<open>
  What \<open>getResponse\<close> may find in the attribute: never the mark that the header fields are complete, and no response that has
  a body already.
\<close>

definition attribute_ok :: "damon_attribute option \<Rightarrow> bool" where
  "attribute_ok a \<longleftrightarrow> (case a of Some (Tuple4 x t eoh eob) \<Rightarrow> \<not> eoh \<and> (\<forall>r. x = Some r \<longrightarrow> rbody r = []) | _ \<Rightarrow> True)"

lemma attribute_ok_simps [simp]:
  "attribute_ok None" "attribute_ok (Some (Tuple3 r t e))"
  "attribute_ok (Some (Tuple4 x t eoh eob)) \<longleftrightarrow> \<not> eoh \<and> (\<forall>r. x = Some r \<longrightarrow> rbody r = [])"
  by (simp_all add: attribute_ok_def)

lemma extract_response_body: "extract_response L b = Inr (Some r, n) \<Longrightarrow> rbody r = []"
  unfolding extract_response_def extractResponseHeader_def
  by (auto simp: Let_def Response_def split: if_splits option.splits)

text \<open>The same for the client: its two assertions hold as well.\<close>

lemma extract_response_incomplete: "extract_response L b = Inr (None, wh) \<Longrightarrow> wh = 0"
  unfolding extract_response_def extractResponseHeader_def by (auto simp: Let_def split: if_splits option.splits)

lemma acquire_response_ok:
  assumes "attribute_ok a" "acquire_response L lib c retrying a s = Some (q, a', s')"
  shows "attribute_ok a'" "q = Inr (x, b, wh, eoh) \<Longrightarrow> \<not> eoh \<and> (\<forall>r. x = Some r \<longrightarrow> rbody r = [])"
  using assms
  by (auto simp: acquire_response_def parse_round_def extract_response_body
      split: option.splits damon_attribute.splits if_splits sum.splits prod.splits)

lemma response_headers_keep_body: "response_headers b wh eoh r = Inr (r', wh', eoh', eob) \<Longrightarrow> rbody r' = rbody r"
proof (induction b wh eoh r rule: response_headers.induct)
  case (1 b wh eoh r)
  define whence where "whence = advanceThroughIgnorableWhiteSpace b wh (length b)"
  define whence' where "whence' = findHeaderEnd b whence (length b)"
  from 1(2) show ?case
    using 1(1) [OF whence_def _ refl whence'_def]
    by (subst (asm) response_headers.simps)
      (fastforce simp: Let_def add_response_header_def whence_def [symmetric] whence'_def [symmetric]
        split: if_splits sum.splits prod.splits)
qed

lemma response_pass_ok:
  assumes "attribute_ok a" "response_pass L lib c retrying a s = Some (y, a', s')"
  shows "attribute_ok a' \<and> y \<noteq> NullResponse"
proof -
  obtain q a2 s2 where q: "acquire_response L lib c retrying a s = Some (q, a2, s2)"
    using assms(2) by (auto simp: response_pass_def split: option.splits prod.splits)
  note ok = acquire_response_ok [OF assms(1) q]
  show ?thesis
  proof (cases q)
    case (Inl e)
    then show ?thesis using assms(2) q ok(1) by (auto simp: response_pass_def)
  next
    case (Inr z)
    obtain x b wh eoh where z: "z = (x, b, wh, eoh)" by (cases z) auto
    with Inr ok(2) have o: "\<not> eoh" "\<And>r. x = Some r \<Longrightarrow> rbody r = []" by auto
    show ?thesis
    proof (cases x)
      case None
      then show ?thesis using assms(2) q Inr z o by (auto simp: response_pass_def)
    next
      case (Some r)
      then show ?thesis
        using assms(2) q Inr z o ok(1) response_headers_keep_body [of b wh eoh r]
        by (auto simp: response_pass_def response_body_def leave_rest_def split: sum.splits if_splits prod.splits option.splits)
    qed
  qed
qed

lemma getResponse_ok:
  assumes "attribute_ok a" "getResponse L lib c a s = Some (y, a', s')"
  shows "attribute_ok a' \<and> y \<noteq> NullResponse \<and> y \<noteq> Retry"
proof -
  have "attribute_ok a \<longrightarrow> (case (y, a', s') of (y, a', s') \<Rightarrow> attribute_ok a' \<and> y \<noteq> NullResponse \<and> y \<noteq> Retry)"
  proof (rule response_retry.raw_induct [OF _ assms(2) [unfolded getResponse_def], where P = "\<lambda>L lib c retrying attr s z.
      attribute_ok attr \<longrightarrow> (case z of (y, a', s') \<Rightarrow> attribute_ok a' \<and> y \<noteq> NullResponse \<and> y \<noteq> Retry)"], goal_cases)
    case (1 again L lib c retrying attr s z)
    show ?case
    proof
      assume a: "attribute_ok attr"
      obtain x a2 s2 where x: "response_pass L lib c retrying attr s = Some (x, a2, s2)"
        using 1(2) by (auto split: option.splits)
      note ok = response_pass_ok [OF a x]
      show "case z of (y, a', s') \<Rightarrow> attribute_ok a' \<and> y \<noteq> NullResponse \<and> y \<noteq> Retry"
        using 1(1) [of L lib c True a2 s2 z] 1(2) x ok by (auto split: if_splits)
    qed
  qed
  with assms(1) show ?thesis by simp
qed

lemma receive_responses_ok:
  "attribute_ok a \<Longrightarrow> receive_responses L lib c n a s = Some (y, a', s') \<Longrightarrow>
    attribute_ok a' \<and> y \<noteq> Inl NullResponse \<and> y \<noteq> Inl Retry"
proof (induction n arbitrary: a s y a' s')
  case (Suc n)
  obtain x a2 s2 where x: "getResponse L lib c a s = Some (x, a2, s2)" using Suc.prems(2) by (auto split: option.splits)
  note ok = getResponse_ok [OF Suc.prems(1) x]
  show ?case
  proof (cases x)
    case (Returns r)
    obtain q a3 s3 where q: "receive_responses L lib c n a2 s2 = Some (q, a3, s3)"
      using Suc.prems(2) x Returns by (auto split: option.splits)
    show ?thesis using Suc.IH [OF _ q] Suc.prems(2) x Returns q ok by (auto split: sum.splits)
  qed (use Suc.prems(2) x ok in auto)
qed auto

section \<open>The responses a server sends\<close>

definition status_line :: "response \<Rightarrow> string" where
  "status_line r = rprotocol_and_version r @ [SP] @ show_int (status_code r) @ [SP] @ reason_string r"

definition good_status :: "response \<Rightarrow> bool" where
  "good_status r \<longleftrightarrow> (rprotocol_and_version r = ''HTTP/1.0'' \<or> rprotocol_and_version r = ''HTTP/1.1'')
     \<and> 0 \<le> status_code r \<and> status_code r < 2 ^ 32
     \<and> reason_string r \<noteq> [] \<and> \<not> isIgnorableWhiteSpace (hd (reason_string r)) \<and> one_line (reason_string r)"

definition wire_headers :: "response \<Rightarrow> header list" where
  "wire_headers r = with_content_length (rheader_fields r) (rbody r)"

definition good_response :: "boost_lib \<Rightarrow> response \<Rightarrow> bool" where
  "good_response L r \<longleftrightarrow> good_status r \<and> (\<forall>h \<in> set (rheader_fields r). good_header h) \<and> clean_start (rbody r)
     \<and> length (rbody r) < 2 ^ 64
     \<and> (case find_header ''Content-Length'' (rheader_fields r) of None \<Rightarrow> True
        | Some h \<Rightarrow> cast_size_t L (hvalue h) = Some (length (rbody r)))"

text \<open>The response as the client sees it: with the length that the server has added.\<close>

definition as_received :: "response \<Rightarrow> response" where
  "as_received r = r\<lparr>rheader_fields := wire_headers r\<rparr>"

lemma wire_headers_good:
  assumes "decimal_casts L" "good_response L r"
  shows "\<forall>h \<in> set (wire_headers r). good_header h"
    and "\<exists>h. find_header ''Content-Length'' (wire_headers r) = Some h \<and> cast_size_t L (hvalue h) = Some (length (rbody r))"
proof -
  have "trimmed (show_nat n) \<and> one_line (show_nat n)" for n by (rule no_space_trimmed [OF no_space_show_nat])
  then have "good_header (Header ''Content-Length'' (show_nat (length (rbody r))))"
    by (simp add: good_header_def trimmed_def one_line_def isNewLine_def isIgnorableWhiteSpace_def)
  then show "\<forall>h \<in> set (wire_headers r). good_header h"
    using assms(2) by (auto simp: wire_headers_def with_content_length_def good_response_def)
  have append: "find_header n (hs @ [h]) = Some h" if "find_header n hs = None" "hname h = n" for n hs h
    using that by (induction hs) (auto split: if_splits)
  show "\<exists>h. find_header ''Content-Length'' (wire_headers r) = Some h \<and> cast_size_t L (hvalue h) = Some (length (rbody r))"
  proof (cases "find_header ''Content-Length'' (rheader_fields r)")
    case None
    with append [OF this, of "Header ''Content-Length'' (show_nat (length (rbody r)))"] assms show ?thesis
      by (simp add: wire_headers_def with_content_length_def decimal_castsD good_response_def)
  next
    case (Some h)
    with assms(2) show ?thesis by (simp add: wire_headers_def with_content_length_def good_response_def)
  qed
qed

lemma serialized:
  assumes "positional_format L" "decimal_casts L"
  shows "serialize L r = status_line r @ CRLF @ header_block (wire_headers r) @ rbody r"
  using serialize_wire [OF assms, of r] by (simp add: status_line_def wire_headers_def)

lemma extract_status_line:
  assumes "decimal_casts L" "good_status r" and b: "b = status_line r @ rest" and rest: "rest \<noteq> []" "isNewLine (hd rest)"
  shows "extract_response L b = Inr (Some (Response (rprotocol_and_version r) (status_code r) (reason_string r)), length (status_line r))"
proof -
  let ?p = "rprotocol_and_version r" and ?c = "show_int (status_code r)" and ?m = "reason_string r"
  have p: "?p \<noteq> []" "\<forall>c \<in> set ?p. \<not> isIgnorableWhiteSpace c" using assms(2) protocol_text [of ?p] by (auto simp: good_status_def)
  have c_eq: "?c = show_nat (nat (status_code r))" using assms(2) by (simp add: show_int_def good_status_def)
  have c: "?c \<noteq> []" "\<forall>c \<in> set ?c. \<not> isIgnorableWhiteSpace c"
    using show_nat_digits [of "nat (status_code r)"] unfolding c_eq
    by (auto simp: list_all_iff isIgnorableWhiteSpace_def dest!: digit_not_special)
  have m: "?m \<noteq> []" "\<not> isIgnorableWhiteSpace (hd ?m)" "one_line ?m" using assms(2) by (auto simp: good_status_def)
  have b0: "b = [] @ ?p @ ([SP] @ ?c @ [SP] @ ?m @ rest)" by (simp add: b status_line_def)
  have b1: "b = ?p @ [SP] @ ?c @ ([SP] @ ?m @ rest)" by (simp add: b status_line_def)
  have b2: "b = (?p @ [SP] @ ?c) @ [SP] @ (?m @ rest)" by (simp add: b status_line_def)
  have b3: "b = (?p @ [SP] @ ?c @ [SP]) @ ?m @ rest" by (simp add: b status_line_def)
  have "advanceThroughIgnorableWhiteSpace b 0 (length b) = 0"
    using advance_through_ws_skip [of "[]" b b "[]"] p by (simp add: b status_line_def)
  moreover have "advanceUntilIgnorableWhiteSpace b 0 (length b) = length ?p"
    using advance_until_ws_skip [OF p(2) _ b0] by simp
  moreover have "seg b 0 (length ?p) = ?p" by (simp add: b1 seg_def)
  moreover note t1 = next_token [OF b1 c]
  moreover have "advanceThroughIgnorableWhiteSpace b (length (?p @ [SP] @ ?c)) (length b) = length (?p @ [SP] @ ?c @ [SP])"
    using advance_through_ws_skip [of "[SP]" "?m @ rest" b "?p @ [SP] @ ?c"] m b2 by simp
  moreover have "advanceUntilEndOfLine b (length (?p @ [SP] @ ?c @ [SP])) (length b) = length (status_line r)"
    using advance_until_eol_skip [OF _ _ b3] m(3) rest by (simp add: one_line_def status_line_def)
  moreover have "seg b (length (?p @ [SP] @ ?c @ [SP])) (length (status_line r)) = ?m"
    by (simp add: b3 seg_def status_line_def)
  moreover have "length b \<noteq> length ?p" "length b \<noteq> length (?p @ [SP] @ ?c)" "length b \<noteq> length (status_line r)"
    using rest by (simp_all add: b3 status_line_def)
  moreover have "cast_uint L ?c = Some (nat (status_code r))"
    unfolding c_eq using assms(2) by (intro decimal_castsD(3) [OF assms(1)]) (simp add: good_status_def nat_less_iff)
  ultimately show ?thesis
    using assms(2) by (simp add: extract_response_def extractResponseHeader_def Let_def good_status_def
        del: length_append append.simps append_assoc)
qed

lemma fold_add_response_header:
  "fold add_response_header hs m = m\<lparr>rheader_fields := rheader_fields m @ hs\<rparr>"
  by (induction hs arbitrary: m) (simp_all add: add_response_header_def)

lemma response_headers_eob: "response_headers b wh eoh r = Inr (r', wh', True, eob) \<Longrightarrow> \<not> eoh \<Longrightarrow> \<not> eob"
proof (induction b wh eoh r rule: response_headers.induct)
  case (1 b wh eoh r)
  define whence where "whence = advanceThroughIgnorableWhiteSpace b wh (length b)"
  define whence' where "whence' = findHeaderEnd b whence (length b)"
  from 1(2,3) show ?case
    using 1(1) [OF whence_def _ refl whence'_def]
    by (subst (asm) response_headers.simps)
      (fastforce simp: Let_def whence_def [symmetric] whence'_def [symmetric] split: if_splits sum.splits prod.splits)
qed

lemma response_headers_block:
  assumes "header_loop add_response_header b wh False r = Inr (r', wh', True)"
  shows "response_headers b wh False r = Inr (r', wh', True, False)"
  using assms response_headers_eob [of b wh False r r' wh'] unfolding response_headers_loop
  by (auto split: sum.splits)

text \<open>The status line and the header fields of a response that the buffer starts with.\<close>

lemma reads_head:
  assumes "decimal_casts L" "good_status r" "\<forall>h \<in> set hs. good_header h" "clean_start rest"
    and b: "b = status_line r @ CRLF @ header_block hs @ rest"
  shows "extract_response L b = Inr (Some (Response (rprotocol_and_version r) (status_code r) (reason_string r)), length (status_line r))"
    and "response_headers b (length (status_line r)) False (Response (rprotocol_and_version r) (status_code r) (reason_string r))
      = Inr (r\<lparr>rheader_fields := hs, rbody := []\<rparr>, length (status_line r @ CRLF @ header_block hs), True, False)"
proof -
  show "extract_response L b = Inr (Some (Response (rprotocol_and_version r) (status_code r) (reason_string r)), length (status_line r))"
    using assms(1,2) b by (rule extract_status_line) (simp_all add: isNewLine_def)
  have "header_loop add_response_header b (length (status_line r)) False (Response (rprotocol_and_version r) (status_code r) (reason_string r))
      = Inr (fold add_response_header hs (Response (rprotocol_and_version r) (status_code r) (reason_string r)),
          length (status_line r @ CRLF @ header_block hs), True)"
    using assms(3,4) b by (intro header_loop_block) (auto simp: isIgnorableWhiteSpace_def)
  from response_headers_block [OF this]
  show "response_headers b (length (status_line r)) False (Response (rprotocol_and_version r) (status_code r) (reason_string r))
      = Inr (r\<lparr>rheader_fields := hs, rbody := []\<rparr>, length (status_line r @ CRLF @ header_block hs), True, False)"
    by (simp add: fold_add_response_header Response_def)
qed

section \<open>Responses in order\<close>

text \<open>
  A connection whose BIO hands out the pending bytes, reports none waiting when there are none, and has no retry flags
  set behind a read that took bytes.
\<close>

definition response_source :: "'s openssl \<Rightarrow> bio \<Rightarrow> bool \<Rightarrow> ('s \<Rightarrow> string) \<Rightarrow> bool" where
  "response_source lib b open_end pending \<longleftrightarrow> drains lib b open_end pending
     \<and> (\<forall>s. pending s = [] \<longrightarrow> \<not> bio_poll lib b s)
     \<and> (\<forall>s. after_data lib b pending s \<longrightarrow> \<not> bio_should_read lib b s \<and> \<not> bio_should_write lib b s)"

lemma read_more_takes:
  assumes "response_source lib b open_end pending" "cbio c = Some b"
    and "length (pending s) mod 4096 \<noteq> 0" "length (pending s) < 2 ^ 63"
  obtains s' where "read_more lib c t s = Some (Inr (t @ pending s), s')" "pending s' = []"
proof -
  have drains: "drains lib b open_end pending"
    and quiet: "after_data lib b pending x \<Longrightarrow> \<not> bio_should_read lib b x \<and> \<not> bio_should_write lib b x" for x
    using assms(1) by (simp_all add: response_source_def)
  obtain s' reason where s': "pending s' = []" "connection_read lib c [] s
      = Some (Inr (pending s @ replicate (4096 - length (pending s) mod 4096) NUL, word_of_nat (length (pending s)), reason), s')"
    "reason = retry_reason lib b s'" "after_data lib b pending s'"
    by (rule connection_read_drains [OF drains assms(2,3)])
  have "unat (word_of_nat (length (pending s)) :: 64 word) = length (pending s)" using assms(4) by (simp add: unat_of_nat)
  then have "read_more lib c t s = Some (Inr (t @ pending s), s')"
    using s'(2) quiet [OF s'(4)] assms(4) by (simp add: read_more_def s'(3) retry_reason_def resize_def)
  with s'(1) show ?thesis by (rule that [rotated])
qed

lemma status_start: "good_status r \<Longrightarrow> clean_start (status_line r @ t) \<and> status_line r \<noteq> []"
  by (auto simp: good_status_def status_line_def clean_start_def isIgnorableWhiteSpace_def)

lemma parse_round_read:
  assumes "response_source lib b open_end pending" "cbio c = Some b" "length (pending s) mod 4096 \<noteq> 0" "length (pending s) < 2 ^ 63"
    and "extract_response L (pending s) = Inr (x, wh)"
  obtains s' where "acquire_response L lib c retrying None s = Some (Inr (x, pending s, wh, False), None, s')" "pending s' = []"
proof -
  obtain s' where s': "read_more lib c [] s = Some (Inr ([] @ pending s), s')" "pending s' = []"
    by (rule read_more_takes [OF assms(1-4)])
  then show ?thesis using assms(5) by (intro that [of s']) (simp_all add: acquire_response_def parse_round_def poll_or_read_def)
qed

lemma parse_round_kept:
  assumes "response_source lib b open_end pending" "cbio c = Some b" "pending s = []" "t \<noteq> []" "extract_response L t = Inr (x, wh)"
  shows "acquire_response L lib c False (Some (Tuple4 None t False False)) s = Some (Inr (x, t, wh, False), None, s)"
  using assms by (simp add: acquire_response_def parse_round_def poll_or_read_def connection_poll_def response_source_def)

lemma pass_response:
  assumes "decimal_casts L" "good_response L r" "clean_start rest"
    and "acquire_response L lib c retrying attr s = Some (Inr (Some (Response (rprotocol_and_version r) (status_code r) (reason_string r)),
        status_line r @ CRLF @ header_block (wire_headers r) @ rbody r @ rest, length (status_line r), False), None, s')"
  shows "response_retry L lib c retrying attr s
    = Some (Returns (as_received r), if rest = [] then None else Some (Tuple4 None rest False False), s')"
proof -
  let ?b = "status_line r @ CRLF @ header_block (wire_headers r) @ rbody r @ rest"
  let ?w = "length (status_line r @ CRLF @ header_block (wire_headers r))"
  have "clean_start (rbody r @ rest)" using assms(2,3) by (intro clean_start_append) (simp_all add: good_response_def)
  then have h: "response_headers ?b (length (status_line r)) False (Response (rprotocol_and_version r) (status_code r) (reason_string r))
      = Inr (r\<lparr>rheader_fields := wire_headers r, rbody := []\<rparr>, ?w, True, False)"
    using wire_headers_good(1) [OF assms(1,2)] assms(2) by (intro reads_head(2) [OF assms(1)]) (simp_all add: good_response_def)
  obtain f where f: "find_header ''Content-Length'' (wire_headers r) = Some f" "cast_size_t L (hvalue f) = Some (length (rbody r))"
    using wire_headers_good(2) [OF assms(1,2)] by blast
  have b: "?b = (status_line r @ CRLF @ header_block (wire_headers r)) @ rbody r @ rest" by simp
  have "length ?b - ?w = length (rbody r) + length rest" "seg ?b ?w (?w + length (rbody r)) = rbody r"
    "drop (?w + length (rbody r)) ?b = rest" "?w + length (rbody r) < length ?b \<longleftrightarrow> rest \<noteq> []"
    unfolding b seg_def by simp_all
  then have "response_body L (r\<lparr>rheader_fields := wire_headers r, rbody := []\<rparr>) ?b ?w False
      = (Returns (as_received r), if rest = [] then None else Some (Tuple4 None rest False False))"
    using f by (simp add: response_body_def leave_rest_def as_received_def del: length_append append_assoc)
  then show ?thesis
    using h by (subst response_retry.simps) (simp add: response_pass_def assms(4) del: length_append append_assoc)
qed

lemma receive_kept:
  assumes laws: "decimal_casts L" "positional_format L" and source: "response_source lib b open_end pending" "cbio c = Some b"
    and "\<forall>r \<in> set rs. good_response L r" "pending s = []"
  shows "receive_responses L lib c (length rs)
      (if rs = [] then None else Some (Tuple4 None (concat (map (serialize L) rs)) False False)) s = Some (Inr (map as_received rs), None, s)"
  using assms(5)
proof (induction rs)
  case (Cons r rs)
  let ?rest = "concat (map (serialize L) rs)"
  have r: "good_response L r" "good_status r" using Cons.prems by (simp_all add: good_response_def)
  have rest: "clean_start ?rest" "?rest = [] \<longleftrightarrow> rs = []"
    using Cons.prems status_start by (cases rs; auto simp: serialized [OF laws(2,1)] good_response_def)+
  have "clean_start (rbody r @ ?rest)" using rest(1) r(1) by (intro clean_start_append) (simp_all add: good_response_def)
  then have x: "extract_response L (serialize L r @ ?rest)
      = Inr (Some (Response (rprotocol_and_version r) (status_code r) (reason_string r)), length (status_line r))"
    using wire_headers_good(1) [OF laws(1) r(1)] r(2)
    by (intro reads_head(1) [OF laws(1), where hs = "wire_headers r" and rest = "rbody r @ ?rest"]) (simp_all add: serialized [OF laws(2,1)])
  have ne: "serialize L r @ ?rest \<noteq> []" using status_start [OF r(2)] by (simp add: serialized [OF laws(2,1)])
  have "getResponse L lib c (Some (Tuple4 None (serialize L r @ ?rest) False False)) s
      = Some (Returns (as_received r), if ?rest = [] then None else Some (Tuple4 None ?rest False False), s)"
    unfolding getResponse_def
    using parse_round_kept [OF source assms(6) ne x] by (intro pass_response [OF laws(1) r(1) rest(1)]) (simp add: serialized [OF laws(2,1)])
  then show ?case using Cons.IH Cons.prems rest(2) by simp
qed simp

text \<open>
  When the responses a server has serialised, one behind the other, are pending on a connection, as many calls of
  \<open>getResponse\<close> as there are responses return them in order, each with its status, reason, header fields (with the
  length that the server adds) and body, and leave nothing over.
\<close>

lemma receive_pending:
  assumes "decimal_casts L" "positional_format L" "response_source lib b open_end pending" "cbio c = Some b"
    and "\<forall>r \<in> set rs. good_response L r" "rs \<noteq> []" "pending s = concat (map (serialize L) rs)"
    and "length (pending s) mod 4096 \<noteq> 0" "length (pending s) < 2 ^ 63"
  shows "\<exists>s'. receive_responses L lib c (length rs) None s = Some (Inr (map as_received rs), None, s') \<and> pending s' = []"
proof (cases rs)
  case (Cons r rs')
  let ?rest = "concat (map (serialize L) rs')"
  have r: "good_response L r" "good_status r" using assms(5) Cons by (simp_all add: good_response_def)
  have rest: "clean_start ?rest" "?rest = [] \<longleftrightarrow> rs' = []"
    using assms(5) Cons status_start by (cases rs'; auto simp: serialized [OF assms(2,1)] good_response_def)+
  have p: "pending s = status_line r @ CRLF @ header_block (wire_headers r) @ rbody r @ ?rest"
    using assms(7) Cons by (simp add: serialized [OF assms(2,1)])
  have "clean_start (rbody r @ ?rest)" using rest(1) r(1) by (intro clean_start_append) (simp_all add: good_response_def)
  then have x: "extract_response L (pending s)
      = Inr (Some (Response (rprotocol_and_version r) (status_code r) (reason_string r)), length (status_line r))"
    using wire_headers_good(1) [OF assms(1) r(1)] r(2) p by (intro reads_head(1) [OF assms(1)])
  obtain s' where s': "acquire_response L lib c False None s
      = Some (Inr (Some (Response (rprotocol_and_version r) (status_code r) (reason_string r)), pending s, length (status_line r), False), None, s')"
      "pending s' = []"
    by (rule parse_round_read [OF assms(3,4,8,9) x])
  have "getResponse L lib c None s = Some (Returns (as_received r), if ?rest = [] then None else Some (Tuple4 None ?rest False False), s')"
    unfolding getResponse_def using s'(1) by (intro pass_response [OF assms(1) r(1) rest(1)]) (simp only: p)
  moreover have "receive_responses L lib c (length rs') (if rs' = [] then None else Some (Tuple4 None ?rest False False)) s'
      = Some (Inr (map as_received rs'), None, s')"
    using assms(5) Cons s'(2) by (intro receive_kept [OF assms(1-4)]) simp_all
  ultimately show ?thesis using Cons rest(2) s'(2) by simp
qed (use assms(6) in simp)

section \<open>Responses in pieces\<close>

text \<open>What is kept of header fields that are not complete: nothing, or the beginning of some fields.\<close>

definition unfinished :: "string \<Rightarrow> bool" where
  "unfinished t \<longleftrightarrow> t = [] \<or> (\<exists>missing hs. t @ missing = header_lines hs \<and> (\<forall>h \<in> set hs. good_header h))"

lemma header_loop_nothing: "header_loop add [] 0 False m = Inr (m, 0, False)"
proof -
  have "advanceThroughIgnorableWhiteSpace [] 0 0 = 0" by (subst advanceThroughIgnorableWhiteSpace.simps) simp
  moreover have "moreHeaders [] 0 0" using moreHeaders_eq [of 0 "[]" 0] by simp
  moreover have "findHeaderEnd [] 0 0 = 0" using findHeaderEnd_beyond [of "[]" 0] by simp
  ultimately show ?thesis by (subst header_loop.simps) simp
qed

lemma unfinished_loop:
  assumes "unfinished t"
  obtains r' part where "header_loop add_response_header t 0 False r = Inr (r', length t - length part, False)"
    "drop (length t - length part) t = part" "unfinished part"
proof (cases "t = []")
  case True
  then show ?thesis by (intro that [of r "[]"]) (simp_all add: header_loop_nothing unfinished_def)
next
  case False
  with assms obtain missing hs where t: "t @ missing = header_lines hs" "\<forall>h \<in> set hs. good_header h" by (auto simp: unfinished_def)
  obtain taken left part where part: "hs = taken @ left" "t = header_lines taken @ part" "part @ missing = header_lines left"
    "header_loop add_response_header t (length ([] :: string)) False r = Inr (fold add_response_header taken r, length t - length part, False)"
    by (rule header_loop_partial [of t "[]" "[]" t missing hs add_response_header r]) (use False t in auto)
  have "unfinished part" unfolding unfinished_def using part(1,3) t(2) by (intro disjI2 exI [of _ missing] exI [of _ left]) simp
  with part(2,4) show ?thesis by (intro that [of "fold add_response_header taken r" part]) simp_all
qed

lemma unfinished_pass:
  assumes "unfinished t"
  obtains r' part eob' where "response_pass L lib c True (Some (Tuple4 (Some r) t False eob)) s
    = Some (Retry, Some (Tuple4 (Some r') part False eob'), s)" "unfinished part"
proof -
  obtain r' part where h: "header_loop add_response_header t 0 False r = Inr (r', length t - length part, False)"
    "drop (length t - length part) t = part" "unfinished part"
    by (rule unfinished_loop [OF assms])
  then obtain eob' where "response_headers t 0 False r = Inr (r', length t - length part, False, eob')"
    unfolding response_headers_loop by (auto split: sum.splits)
  then show ?thesis using h by (intro that [of r' part eob']) (simp_all add: response_pass_def acquire_response_def)
qed

lemma unfinished_never_returns: "unfinished t \<Longrightarrow> response_retry L lib c True (Some (Tuple4 (Some r) t False eob)) s = None"
proof (rule ccontr)
  assume "unfinished t" "response_retry L lib c True (Some (Tuple4 (Some r) t False eob)) s \<noteq> None"
  then obtain y where y: "response_retry L lib c True (Some (Tuple4 (Some r) t False eob)) s = Some y" by blast
  have "\<not> (True \<and> (\<exists>r' t' eob'. Some (Tuple4 (Some r) t False eob) = Some (Tuple4 (Some r') t' False eob') \<and> unfinished t'))"
  proof (rule response_retry.raw_induct [OF _ y, where P = "\<lambda>L lib c retrying attr s y.
      \<not> (retrying \<and> (\<exists>r t eob. attr = Some (Tuple4 (Some r) t False eob) \<and> unfinished t))"], rule notI, goal_cases)
    case (1 again L lib c retrying attr s y)
    then obtain r t eob where a: "retrying" "attr = Some (Tuple4 (Some r) t False eob)" "unfinished t" by blast
    obtain r' part eob' where "response_pass L lib c True (Some (Tuple4 (Some r) t False eob)) s
        = Some (Retry, Some (Tuple4 (Some r') part False eob'), s)" "unfinished part"
      by (rule unfinished_pass [OF a(3)])
    then show False using 1(1) [of L lib c True "Some (Tuple4 (Some r') part False eob')" s y] 1(2) a by auto
  qed
  with \<open>unfinished t\<close> show False by blast
qed


text \<open>
  The reason of a read that has to be tried again has the bit for "retry" and the bit for "read"; \<open>getResponse\<close> knows the bits only
  one by one. On a BIO that asks for a read behind the last bytes, it throws, and the bytes are lost.
\<close>

lemma read_retry_is_unexpected:
  assumes "drains lib b open_end pending" "cbio c = Some b" "length (pending s) mod 4096 \<noteq> 0"
    and "\<And>s. after_data lib b pending s \<Longrightarrow> bio_should_read lib b s"
  shows "\<exists>s'. getResponse L lib c None s = Some (Throws (runtime_error ''Unexpected connection state''), None, s') \<and> pending s' = []"
proof -
  obtain s' reason where s': "pending s' = []" "connection_read lib c [] s
      = Some (Inr (pending s @ replicate (4096 - length (pending s) mod 4096) NUL, word_of_nat (length (pending s)), reason), s')"
    "reason = retry_reason lib b s'" "after_data lib b pending s'"
    by (rule connection_read_drains [OF assms(1-3)])
  have "reason \<noteq> 0 \<and> reason \<noteq> 1 \<and> reason \<noteq> 2" using assms(4) [OF s'(4)] by (simp add: s'(3) retry_reason_def)
  then show ?thesis
    unfolding getResponse_def using s'(1,2)
    by (subst response_retry.simps) (simp add: response_pass_def acquire_response_def parse_round_def poll_or_read_def read_more_def)
qed

lemma memory_source: "response_source (memory_ssl False) (ConnectionBIO 5) False (\<lambda>s. s)"
  using memory_drains [of False]
  by (simp add: response_source_def bio_poll_def bio_should_read_def bio_should_write_def memory_ssl_def)

definition sample_response :: response where
  "sample_response = setBody ''hi'' (addHeader ''Server'' ''Spin'' (Response ''HTTP/1.1'' 200 ''OK''))"

lemma sample_laws: "good_response boost_ref sample_response" "cbio memory_connection = Some (ConnectionBIO 5)"
  by (simp_all add: good_response_def good_status_def sample_response_def setBody_def addHeader_def Response_def good_header_def
      trimmed_def one_line_def clean_start_def isNewLine_def isIgnorableWhiteSpace_def memory_connection_def)

lemma show_200: "show_int 200 = ''200''" "show_nat (Suc (Suc 0)) = ''2''"
  by code_simp+




end
