(* ===== verification/Session.thy ===== *)
theory Session
  imports DamonRequest DamonResponse Listener Context "HOL-Library.Char_ord" "HOL-Library.List_Lexorder"
begin

text \<open>
  \<^verbatim>\<open>lib/Damon/Session.h\<close>, \<^verbatim>\<open>Session.cpp\<close> and the functions \<open>send\<close> of \<^verbatim>\<open>Request.cpp\<close>: a session keeps its connections by
  server and port, and a security context from the first secured request on. A client function is one function on the session and
  the state of the security contexts, in which OpenSSL's state is.
\<close>

section \<open>State\<close>

text \<open>
  A cached connection comes with its attribute, in which \<open>getResponse\<close> keeps what is left over; \<open>next_connection\<close> is the
  identity of the next connection.
\<close>

record session =
  session_context :: "security_context option"
  connection_cache :: "string \<rightharpoonup> connection \<times> damon_attribute option"
  next_connection :: nat

definition Session :: session where
  "Session = \<lparr>session_context = None, connection_cache = Map.empty, next_connection = 0\<rparr>"

text \<open>
  The destructor deletes the context; then the map goes with its connections, which have no data handler.
\<close>

definition close_cached :: "'s openssl \<Rightarrow> session \<Rightarrow> string \<Rightarrow> 's \<Rightarrow> 's" where
  "close_cached lib x key s = (case connection_cache x key of
      Some (c, a) \<Rightarrow> (case cbio c of None \<Rightarrow> s | Some b \<Rightarrow> bio_destroy lib b s) | None \<Rightarrow> s)"

definition Session_destroy :: "'s openssl \<Rightarrow> 's ssl_ctx_lib \<Rightarrow> session \<Rightarrow> 's ctx_heap \<Rightarrow> 's ctx_heap" where
  "Session_destroy lib clib x w =
     (let w = (case session_context x of None \<Rightarrow> w | Some c \<Rightarrow> Context_destroy clib c w)
      in w\<lparr>ossl := fold (close_cached lib x) (sorted_list_of_set (dom (connection_cache x))) (ossl w)\<rparr>)"

definition setContext :: "'s ssl_ctx_lib \<Rightarrow> security_context \<Rightarrow> session \<Rightarrow> 's ctx_heap \<Rightarrow> session \<times> 's ctx_heap" where
  "setContext clib c x w =
     (let w = (case session_context x of None \<Rightarrow> w | Some old \<Rightarrow> Context_destroy clib old w)
      in case Context_copy c w of (c', w') \<Rightarrow> (x\<lparr>session_context := Some c'\<rparr>, w'))"

section \<open>Connections\<close>

definition on_ossl :: "('s \<Rightarrow> 'r \<times> 's) \<Rightarrow> 's ctx_heap \<Rightarrow> 'r \<times> 's ctx_heap" where
  "on_ossl f w = (case f (ossl w) of (r, s) \<Rightarrow> (r, w\<lparr>ossl := s\<rparr>))"

text \<open>The context of a secured request, made with the default arguments where there is none.\<close>

definition ensure_context :: "bool \<Rightarrow> session \<Rightarrow> 's ctx_heap \<Rightarrow> session \<times> 's ctx_heap" where
  "ensure_context secured x w =
     (if secured \<and> session_context x = None
      then (case Context default_options 0 w of (c, w') \<Rightarrow> (x\<lparr>session_context := Some c\<rparr>, w'))
      else (x, w))"

definition cache_key :: "boost_lib \<Rightarrow> string \<Rightarrow> 16 word \<Rightarrow> string" where
  "cache_key L server port = format_str L ''%1%:%2%'' [server, show_nat (unat port)]"

text \<open>The two calls of \<open>Connector::connect\<close>; the pointer to the context is not null for a secured request.\<close>

definition session_connect ::
  "boost_lib \<Rightarrow> 's openssl \<Rightarrow> 's ssl_ctx_lib \<Rightarrow> bool \<Rightarrow> string \<Rightarrow> 16 word \<Rightarrow> session \<Rightarrow> 's ctx_heap \<Rightarrow> (exn + connection) \<times> 's ctx_heap" where
  "session_connect L lib clib secured server port x =
     (if secured then
        (case session_context x of
           None \<Rightarrow> throw_st (logic_error ''assert((secured && session.context_) || !secured)'')
         | Some c \<Rightarrow> bind_st (getContext clib c) (\<lambda>ctx. on_ossl (connect_ssl_name L lib (next_connection x) ctx server port)))
      else on_ossl (connect_name L lib (next_connection x) server port))"

text \<open>
  The loop over the cache. A new connection is usable, so the loop ends behind the first connection that is made.
\<close>

definition find_connection ::
  "boost_lib \<Rightarrow> 's openssl \<Rightarrow> 's ssl_ctx_lib \<Rightarrow> bool \<Rightarrow> string \<Rightarrow> 16 word \<Rightarrow> session \<Rightarrow> 's ctx_heap
     \<Rightarrow> (exn + connection \<times> damon_attribute option) \<times> session \<times> 's ctx_heap" where
  "find_connection L lib clib secured server port x w =
     (let key = cache_key L server port;
          connect_new = (\<lambda>x. case session_connect L lib clib secured server port x w of
              (Inl e, w') \<Rightarrow> (Inl e, x, w')
            | (Inr c, w') \<Rightarrow> (Inr (c, None), x\<lparr>connection_cache := (connection_cache x)(key \<mapsto> (c, None)),
                next_connection := Suc (next_connection x)\<rparr>, w'))
      in case connection_cache x key of
           Some (c, a) \<Rightarrow>
             if usable c then (Inr (c, a), x, w)
             else connect_new (x\<lparr>connection_cache := (connection_cache x)(key := None)\<rparr>)
         | None \<Rightarrow> connect_new x)"

lemma new_connection_usable: "usable (Connection lib i b s)"
  by (simp add: usable_def Connection_def)

section \<open>Sending\<close>

type_synonym matcher = "regex \<Rightarrow> string \<Rightarrow> sub_matches option"

text \<open>
  A request is serialised and written; the result of the write is not used. \<open>None\<close> is a call that does not return, and a
  result that is no response is an exception or the use of a null pointer.
\<close>

definition write_request :: "matcher \<Rightarrow> boost_lib \<Rightarrow> 's openssl \<Rightarrow> connection \<Rightarrow> damon_request \<Rightarrow> 's \<Rightarrow> ((exn + unit) \<times> 's) option" where
  "write_request re_match L lib c r s = (case damon_serialize re_match L r of
      None \<Rightarrow> None
    | Some (Inl e) \<Rightarrow> Some (Inl e, s)
    | Some (Inr data) \<Rightarrow> (case connection_write lib c data s of
          (Inl e, s') \<Rightarrow> Some (Inl e, s') | (Inr _, s') \<Rightarrow> Some (Inr (), s')))"

definition send_on ::
  "matcher \<Rightarrow> boost_lib \<Rightarrow> 's openssl \<Rightarrow> string \<Rightarrow> connection \<Rightarrow> damon_attribute option \<Rightarrow> damon_request \<Rightarrow> session \<Rightarrow> 's ctx_heap
     \<Rightarrow> (response_end \<times> session \<times> 's ctx_heap) option" where
  "send_on re_match L lib key c a r x w = (case write_request re_match L lib c r (ossl w) of
      None \<Rightarrow> None
    | Some (Inl e, s) \<Rightarrow> Some (Throws e, x, w\<lparr>ossl := s\<rparr>)
    | Some (Inr _, s) \<Rightarrow>
        (case getResponse L lib c a s of
           None \<Rightarrow> None
         | Some (y, a', s') \<Rightarrow> Some (y, x\<lparr>connection_cache := (connection_cache x)(key \<mapsto> (c, a'))\<rparr>, w\<lparr>ossl := s'\<rparr>)))"

definition damon_send ::
  "matcher \<Rightarrow> boost_lib \<Rightarrow> 's openssl \<Rightarrow> 's ssl_ctx_lib \<Rightarrow> session \<Rightarrow> damon_request \<Rightarrow> 's ctx_heap
     \<Rightarrow> (response_end \<times> session \<times> 's ctx_heap) option" where
  "damon_send re_match L lib clib x r w = (case parseURL re_match L (durl r) of
      Inl e \<Rightarrow> Some (Throws e, x, w)
    | Inr (protocol, server, port, resource, username, password) \<Rightarrow>
        let secured = (protocol = ''https'') in
        (case ensure_context secured x w of (x, w) \<Rightarrow>
           (case find_connection L lib clib secured server port x w of
              (Inl e, x, w) \<Rightarrow> Some (Throws e, x, w)
            | (Inr (c, a), x, w) \<Rightarrow> send_on re_match L lib (cache_key L server port) c a r x w)))"

definition damon_send_alone ::
  "matcher \<Rightarrow> boost_lib \<Rightarrow> 's openssl \<Rightarrow> 's ssl_ctx_lib \<Rightarrow> damon_request \<Rightarrow> 's ctx_heap \<Rightarrow> (response_end \<times> 's ctx_heap) option" where
  "damon_send_alone re_match L lib clib r w =
     map_option (\<lambda>(y, x, w'). (y, Session_destroy lib clib x w')) (damon_send re_match L lib clib Session r w)"

text \<open>Several requests: all are written to the connection of the first one, then the responses are read.\<close>

definition validate_url :: "matcher \<Rightarrow> boost_lib \<Rightarrow> string \<Rightarrow> 16 word \<Rightarrow> damon_request \<Rightarrow> exn + bool" where
  "validate_url re_match L server0 port0 r = bind_exn (parseURL re_match L (durl r))
     (\<lambda>(protocol, server, port, resource, username, password). Inr (server = server0 \<and> port0 = port))"

fun validate_requests :: "matcher \<Rightarrow> boost_lib \<Rightarrow> string \<Rightarrow> 16 word \<Rightarrow> damon_request list \<Rightarrow> exn + unit" where
  "validate_requests re_match L server port [] = Inr ()"
| "validate_requests re_match L server port (r # rs) = (case validate_url re_match L server port r of
     Inl e \<Rightarrow> Inl e
   | Inr same \<Rightarrow>
       if same then validate_requests re_match L server port rs
       else Inl (logic_error ''assert(find_if(not1(ValidateURL(server, port))) == requests.end())''))"

fun write_requests :: "matcher \<Rightarrow> boost_lib \<Rightarrow> 's openssl \<Rightarrow> connection \<Rightarrow> damon_request list \<Rightarrow> 's \<Rightarrow> ((exn + unit) \<times> 's) option" where
  "write_requests re_match L lib c [] s = Some (Inr (), s)"
| "write_requests re_match L lib c (r # rs) s = (case write_request re_match L lib c r s of
     None \<Rightarrow> None
   | Some (Inl e, s') \<Rightarrow> Some (Inl e, s')
   | Some (Inr _, s') \<Rightarrow> write_requests re_match L lib c rs s')"

definition damon_send_all ::
  "matcher \<Rightarrow> boost_lib \<Rightarrow> 's openssl \<Rightarrow> 's ssl_ctx_lib \<Rightarrow> session \<Rightarrow> damon_request list \<Rightarrow> 's ctx_heap
     \<Rightarrow> ((response_end + response list) \<times> session \<times> 's ctx_heap) option" where
  "damon_send_all re_match L lib clib x rs w = (case rs of
      [] \<Rightarrow> Some (Inr [], x, w)
    | r # _ \<Rightarrow> (case parseURL re_match L (durl r) of
        Inl e \<Rightarrow> Some (Inl (Throws e), x, w)
      | Inr (protocol, server, port, resource, username, password) \<Rightarrow>
          let secured = (protocol = ''https''); key = cache_key L server port in
          (case ensure_context secured x w of (x, w) \<Rightarrow>
             (case find_connection L lib clib secured server port x w of
                (Inl e, x, w) \<Rightarrow> Some (Inl (Throws e), x, w)
              | (Inr (c, a), x, w) \<Rightarrow>
                  (case validate_requests re_match L server port rs of
                     Inl e \<Rightarrow> Some (Inl (Throws e), x, w)
                   | Inr _ \<Rightarrow> (case write_requests re_match L lib c rs (ossl w) of
                      None \<Rightarrow> None
                    | Some (Inl e, s) \<Rightarrow> Some (Inl (Throws e), x, w\<lparr>ossl := s\<rparr>)
                    | Some (Inr _, s) \<Rightarrow>
                        (case receive_responses L lib c (length rs) a s of
                           None \<Rightarrow> None
                         | Some (y, a', s') \<Rightarrow>
                             Some (y, x\<lparr>connection_cache := (connection_cache x)(key \<mapsto> (c, a'))\<rparr>, w\<lparr>ossl := s'\<rparr>))))))))"

definition damon_send_all_alone ::
  "matcher \<Rightarrow> boost_lib \<Rightarrow> 's openssl \<Rightarrow> 's ssl_ctx_lib \<Rightarrow> damon_request list \<Rightarrow> 's ctx_heap
     \<Rightarrow> ((response_end + response list) \<times> 's ctx_heap) option" where
  "damon_send_all_alone re_match L lib clib rs w =
     map_option (\<lambda>(y, x, w'). (y, Session_destroy lib clib x w')) (damon_send_all re_match L lib clib Session rs w)"

section \<open>The cache\<close>

text \<open>
  A well-formed session: what is in the cache can be used, its attributes are well formed, and no connection is cached
  twice.
\<close>

definition session_ok :: "session \<Rightarrow> bool" where
  "session_ok x \<longleftrightarrow>
     (\<forall>k c a. connection_cache x k = Some (c, a) \<longrightarrow> usable c \<and> attribute_ok a \<and> conn_id c < next_connection x)
     \<and> (\<forall>k k' c c' a a'. connection_cache x k = Some (c, a) \<and> connection_cache x k' = Some (c', a') \<and> conn_id c = conn_id c' \<longrightarrow> k = k')"

lemma session_ok_new: "session_ok Session"
  by (simp add: session_ok_def Session_def)

lemma session_okD:
  assumes "session_ok x" "connection_cache x k = Some (c, a)"
  shows "usable c" "attribute_ok a"
  using assms by (auto simp: session_ok_def)

lemma session_ok_insert:
  assumes "session_ok x" "conn_id c = next_connection x" "usable c"
  shows "session_ok (x\<lparr>connection_cache := (connection_cache x)(k \<mapsto> (c, None)), next_connection := Suc (next_connection x)\<rparr>)"
  using assms unfolding session_ok_def by (fastforce intro: less_SucI split: if_splits)

lemma session_ok_update:
  assumes "session_ok x" "connection_cache x k = Some (c, a)" "attribute_ok a'"
  shows "session_ok (x\<lparr>connection_cache := (connection_cache x)(k \<mapsto> (c, a'))\<rparr>)"
  using assms unfolding session_ok_def by (auto split: if_splits)

lemma session_ok_context: "session_ok (x\<lparr>session_context := c\<rparr>) \<longleftrightarrow> session_ok x"
  by (simp add: session_ok_def)

lemma session_connect_new:
  "session_connect L lib clib secured server port x w = (Inr c, w') \<Longrightarrow> usable c \<and> conn_id c = next_connection x"
  by (auto simp: session_connect_def on_ossl_def connect_name_def connect_ssl_name_def make_connection_def bind_st_def
      throw_st_def Connection_def usable_def split: if_splits option.splits prod.splits sum.splits)

lemma find_connection_ok:
  assumes "session_ok x" "find_connection L lib clib secured server port x w = (q, x', w')"
  shows "session_ok x' \<and> (\<forall>c a. q = Inr (c, a) \<longrightarrow> connection_cache x' (cache_key L server port) = Some (c, a))"
proof (cases "connection_cache x (cache_key L server port)")
  case None
  obtain z w2 where z: "session_connect L lib clib secured server port x w = (z, w2)" by fastforce
  show ?thesis
  proof (cases z)
    case (Inr c)
    with session_connect_new z have "usable c" "conn_id c = next_connection x" by blast+
    with assms None z Inr session_ok_insert [OF assms(1)] show ?thesis by (auto simp: find_connection_def)
  qed (use assms None z in \<open>auto simp: find_connection_def\<close>)
next
  case (Some y)
  with session_okD(1) [OF assms(1)] have "usable (fst y)" by (cases y) auto
  with assms Some show ?thesis by (cases y) (auto simp: find_connection_def Let_def)
qed

lemma ensure_context_ok: "session_ok x \<Longrightarrow> ensure_context secured x w = (x', w') \<Longrightarrow> session_ok x'"
  by (auto simp: ensure_context_def session_ok_context split: if_splits prod.splits)

lemma send_on_ok:
  assumes "session_ok x" "connection_cache x key = Some (c, a)" "send_on re_match L lib key c a r x w = Some (y, x', w')"
  shows "session_ok x' \<and> y \<noteq> NullResponse \<and> y \<noteq> Retry"
  using assms(3) session_ok_update [OF assms(1,2)] getResponse_ok [OF session_okD(2) [OF assms(1,2)]] assms(1)
  by (fastforce simp: send_on_def split: option.splits sum.splits prod.splits)

lemma damon_send_ok:
  assumes "session_ok x" "damon_send re_match L lib clib x r w = Some (y, x', w')"
  shows "session_ok x' \<and> y \<noteq> NullResponse \<and> y \<noteq> Retry"
proof (cases "parseURL re_match L (durl r)")
  case (Inr u)
  obtain protocol server port resource username password where u: "u = (protocol, server, port, resource, username, password)"
    by (cases u) auto
  obtain x1 w1 where 1: "ensure_context (protocol = ''https'') x w = (x1, w1)" by fastforce
  obtain q x2 w2 where 2: "find_connection L lib clib (protocol = ''https'') server port x1 w1 = (q, x2, w2)" by (metis prod.collapse)
  note ok = find_connection_ok [OF ensure_context_ok [OF assms(1) 1] 2]
  show ?thesis
  proof (cases q)
    case (Inr z)
    then show ?thesis
      using assms(2) ok 1 2 \<open>parseURL re_match L (durl r) = Inr u\<close> u
      by (cases z) (auto simp: damon_send_def dest!: send_on_ok [rotated 2])
  qed (use assms(2) ok 1 2 Inr u in \<open>auto simp: damon_send_def\<close>)
qed (use assms in \<open>auto simp: damon_send_def\<close>)

lemma damon_send_all_ok:
  assumes "session_ok x" "damon_send_all re_match L lib clib x rs w = Some (y, x', w')"
  shows "session_ok x' \<and> y \<noteq> Inl NullResponse \<and> y \<noteq> Inl Retry"
proof (cases rs)
  case (Cons r rs')
  show ?thesis
  proof (cases "parseURL re_match L (durl r)")
    case (Inr u)
    obtain protocol server port resource username password where u: "u = (protocol, server, port, resource, username, password)"
      by (cases u) auto
    obtain x1 w1 where 1: "ensure_context (protocol = ''https'') x w = (x1, w1)" by fastforce
    obtain q x2 w2 where 2: "find_connection L lib clib (protocol = ''https'') server port x1 w1 = (q, x2, w2)" by (metis prod.collapse)
    note ok = find_connection_ok [OF ensure_context_ok [OF assms(1) 1] 2]
    note all = damon_send_all_def Cons Inr u 1 2 Let_def
    show ?thesis
    proof (cases q)
      case (Inr z)
      obtain c a where z: "z = (c, a)" by fastforce
      with ok Inr have k: "session_ok x2" "connection_cache x2 (cache_key L server port) = Some (c, a)" by auto
      then show ?thesis
        using assms(2) Inr z
        by (auto simp: all simp del: write_requests.simps receive_responses.simps validate_requests.simps
            split: sum.splits option.splits prod.splits intro!: session_ok_update [OF k]
            dest!: receive_responses_ok [OF session_okD(2) [OF k]])
    qed (use assms(2) ok in \<open>auto simp: all\<close>)
  qed (use assms Cons in \<open>auto simp: damon_send_all_def\<close>)
qed (use assms in \<open>auto simp: damon_send_all_def\<close>)

section \<open>A server at the other end\<close>

text \<open>
  The other end of a connection is a server like Spin's: for the bytes of one request, as \<open>HTTPDataHandler\<close> takes them apart,
  it puts the answer to the request behind the pending bytes.
\<close>

definition answering_peer :: "boost_lib \<Rightarrow> 's openssl \<Rightarrow> bio \<Rightarrow> ('s \<Rightarrow> string) \<Rightarrow> (request \<Rightarrow> response) \<Rightarrow> bool" where
  "answering_peer L lib b pending answer \<longleftrightarrow> (\<forall>data q s. serve L 0 None data = (Done, None, [q]) \<longrightarrow>
     (\<exists>s'. bio_write lib b data s = (int (length data), s') \<and> pending s' = pending s @ serialize L (answer q)))"

abbreviation answer_to :: "(request \<Rightarrow> response) \<Rightarrow> (damon_request \<Rightarrow> url_parts) \<Rightarrow> damon_request \<Rightarrow> response" where
  "answer_to answer parts r \<equiv> answer (sent_request 0 (parts r) r)"

definition url_protocol :: "url_parts \<Rightarrow> string" where
  "url_protocol p = (case scheme p of None \<Rightarrow> ''http'' | Some s \<Rightarrow> s)"

definition url_port :: "url_parts \<Rightarrow> 16 word" where
  "url_port p = (case port_number p of Some n \<Rightarrow> word_of_nat n | None \<Rightarrow> if url_protocol p = ''http'' then 80 else 443)"

lemma client_url:
  assumes "perl_regex re_match" "decimal_casts L" "client_request L p r"
  obtains resource username password where
    "parseURL re_match L (durl r) = Inr (url_protocol p, host_name p, url_port p, resource, username, password)"
  using parseURL_parts [OF assms(1,2), of p] assms(3)
  by (auto simp: client_request_def url_protocol_def url_port_def intro: that)

text \<open>A request that \<open>write\<close> takes: its text is not longer than an \<open>int\<close> can say.\<close>

definition sendable :: "boost_lib \<Rightarrow> url_parts \<Rightarrow> damon_request \<Rightarrow> bool" where
  "sendable L p r \<longleftrightarrow> client_request L p r \<and> length (request_wire (sent_request 0 p r)) < INT_MAX"

lemma sendable_client [simp]: "sendable L p r \<Longrightarrow> client_request L p r"
  by (simp add: sendable_def)

lemma write_request_answered:
  assumes "perl_regex re_match" "decimal_casts L" "positional_format L" "sendable L p r"
    and "cbio c = Some b" "answering_peer L lib b pending answer"
  shows "\<exists>s'. write_request re_match L lib c r s = Some (Inr (), s')
    \<and> pending s' = pending s @ serialize L (answer (sent_request 0 p r))"
proof -
  let ?q = "sent_request 0 p r"
  have "serve L 0 None (request_wire ?q) = (Done, None, [?q])"
    using serve_requests [of "[?q]" L 0] sent_request_good [OF assms(2) sendable_client [OF assms(4)], of 0] by (simp add: sent_request_def)
  then obtain s' where "bio_write lib b (request_wire ?q) s = (int (length (request_wire ?q)), s')"
    "pending s' = pending s @ serialize L (answer ?q)"
    using assms(6) unfolding answering_peer_def by blast
  moreover have "request_wire ?q \<noteq> []" by (simp add: request_wire_def start_line_def)
  ultimately show ?thesis
    using damon_serialize_wire [OF assms(1-3) sendable_client [OF assms(4)], of 0] assms(4,5)
    by (auto simp: write_request_def connection_write_def sendable_def)
qed

lemma write_requests_answered:
  assumes laws: "perl_regex re_match" "decimal_casts L" "positional_format L"
    and peer: "cbio c = Some b" "answering_peer L lib b pending answer"
    and "\<forall>r \<in> set rs. sendable L (parts r) r"
  shows "\<exists>s'. write_requests re_match L lib c rs s = Some (Inr (), s')
    \<and> pending s' = pending s @ concat (map (serialize L \<circ> answer_to answer parts) rs)"
  using assms(6)
proof (induction rs arbitrary: s)
  case (Cons r rs)
  then obtain s1 where s1: "write_request re_match L lib c r s = Some (Inr (), s1)"
    "pending s1 = pending s @ serialize L (answer_to answer parts r)"
    using write_request_answered [OF laws _ peer, of "parts r" r s] by auto
  with Cons.IH [of s1] Cons.prems show ?case by auto
qed simp

lemma validate_requests_same:
  assumes "perl_regex re_match" "decimal_casts L"
    and "\<forall>r \<in> set rs. client_request L (parts r) r \<and> host_name (parts r) = server \<and> url_port (parts r) = port"
  shows "validate_requests re_match L server port rs = Inr ()"
  using assms(3)
proof (induction rs)
  case (Cons r rs)
  then obtain resource username password where
    "parseURL re_match L (durl r) = Inr (url_protocol (parts r), server, port, resource, username, password)"
    using client_url [OF assms(1,2), of "parts r" r] by auto
  with Cons show ?case by (simp add: validate_url_def bind_exn_def)
qed simp

text \<open>A connection to the server that is made for requests without security, and what the session looks like then.\<close>

definition with_connection :: "string \<Rightarrow> connection \<Rightarrow> session \<Rightarrow> session" where
  "with_connection key c x = x\<lparr>connection_cache := (connection_cache x)(key \<mapsto> (c, None)), next_connection := Suc (next_connection x)\<rparr>"

lemma find_new_connection:
  assumes "connection_cache x (cache_key L server port) = None"
    and "connect_plain lib (target_of_name L server port) (ossl w) = (Inr b, s0)"
  shows "find_connection L lib clib False server port x w
    = (Inr (Connection lib (next_connection x) b s0, None),
       with_connection (cache_key L server port) (Connection lib (next_connection x) b s0) x, w\<lparr>ossl := s0\<rparr>)"
  using assms by (simp add: find_connection_def Let_def session_connect_def on_ossl_def connect_name_def bind_st_def
      make_connection_def with_connection_def)

text \<open>
  C6: a session that has no connection to a server yet sends requests to it, all of them with \<^verbatim>\<open>http\<close>: all are written behind
  each other to one new connection. The other end takes requests apart as Spin's server does and serialises its
  answers as Spin does. Then the call returns the answer to each request, in the order of the requests, and keeps the
  connection in the cache with nothing left over. What is required: the requests are \<open>sendable\<close> (a URL of the usual form,
  header fields of one line, a body that does not start with white space, less than 2 GiB); every write is complete, and
  the whole answer to it is there when it returns (\<open>answering_peer\<close>); the answers have a
  status line and header fields of the usual form and bodies of the announced length that do not start with white space
  (\<open>good_response\<close>); and together they have less than \<open>2 ^ 63\<close> bytes, not a multiple of 4096. When an answer is there only in part, the client
  does not return or drops the body (\<open>unfinished_header_never_returns\<close>, \<open>unfinished_body_is_dropped\<close>).
\<close>

theorem requests_are_answered_in_order:
  assumes "perl_regex re_match" "decimal_casts L" "positional_format L" "rs \<noteq> []"
    and "\<forall>r \<in> set rs. sendable L (parts r) r \<and> url_protocol (parts r) = ''http'' \<and> host_name (parts r) = server \<and> url_port (parts r) = port"
    and "connection_cache x (cache_key L server port) = None"
    and "connect_plain lib (target_of_name L server port) (ossl w) = (Inr b, s0)" "pending s0 = []"
    and "response_source lib b open_end pending" "answering_peer L lib b pending answer"
    and "\<forall>r \<in> set rs. good_response L (answer_to answer parts r)"
    and "length (concat (map (serialize L \<circ> answer_to answer parts) rs)) mod 4096 \<noteq> 0"
    and "length (concat (map (serialize L \<circ> answer_to answer parts) rs)) < 2 ^ 63"
  shows "\<exists>s'. damon_send_all re_match L lib clib x rs w
    = Some (Inr (map (as_received \<circ> answer_to answer parts) rs),
        with_connection (cache_key L server port) (Connection lib (next_connection x) b s0) x, w\<lparr>ossl := s'\<rparr>)"
proof -
  let ?key = "cache_key L server port" and ?c = "Connection lib (next_connection x) b s0"
  obtain r rs' where rs: "rs = r # rs'" using assms(4) by (cases rs) auto
  then obtain resource username password where
    u: "parseURL re_match L (durl r) = Inr (''http'', server, port, resource, username, password)"
    using client_url [OF assms(1,2) sendable_client, of "parts r" r] assms(5) by auto
  have c: "cbio ?c = Some b" by (simp add: Connection_def)
  have "\<forall>r \<in> set rs. sendable L (parts r) r" using assms(5) by blast
  from write_requests_answered [OF assms(1-3) c assms(10) this, of s0] obtain s1 where
    s1: "write_requests re_match L lib ?c rs s0 = Some (Inr (), s1)"
      "pending s1 = concat (map (serialize L \<circ> answer_to answer parts) rs)"
    using assms(8) by auto
  obtain s2 where s2: "receive_responses L lib ?c (length (map (answer_to answer parts) rs)) None s1
      = Some (Inr (map as_received (map (answer_to answer parts) rs)), None, s2)"
    using receive_pending [OF assms(2,3,9) c, of "map (answer_to answer parts) rs" s1] assms(4,11-13) s1(2) by auto
  have v: "validate_requests re_match L server port rs = Inr ()"
    using assms(5) sendable_client by (intro validate_requests_same [OF assms(1,2), where parts = parts]) blast
  show ?thesis
    using s1(1) s2 v u unfolding damon_send_all_def
    by (intro exI [of _ s2]) (simp add: rs ensure_context_def find_new_connection [OF assms(6,7)] Let_def with_connection_def
        del: receive_responses.simps write_requests.simps validate_requests.simps)
qed

text \<open>One request over a connection on which nothing is pending.\<close>

lemma send_answered:
  assumes laws: "perl_regex re_match" "decimal_casts L" "positional_format L" and "sendable L p r"
    and "cbio c = Some b" "response_source lib b open_end pending" "answering_peer L lib b pending answer"
    and "good_response L (answer (sent_request 0 p r))" "pending (ossl w) = []"
    and "length (serialize L (answer (sent_request 0 p r))) mod 4096 \<noteq> 0" "length (serialize L (answer (sent_request 0 p r))) < 2 ^ 63"
  obtains s' where "send_on re_match L lib key c None r x w
      = Some (Returns (as_received (answer (sent_request 0 p r))), x\<lparr>connection_cache := (connection_cache x)(key \<mapsto> (c, None))\<rparr>, w\<lparr>ossl := s'\<rparr>)"
    "pending s' = []"
proof -
  let ?y = "answer (sent_request 0 p r)"
  obtain s1 where s1: "write_request re_match L lib c r (ossl w) = Some (Inr (), s1)" "pending s1 = serialize L ?y"
    using write_request_answered [OF assms(1-5,7), of "ossl w"] assms(9) by auto
  obtain s2 where s2: "receive_responses L lib c (Suc 0) None s1 = Some (Inr [as_received ?y], None, s2)" "pending s2 = []"
    using receive_pending [OF assms(2,3,6,5), of "[?y]" s1] assms(8,10,11) s1(2) by auto
  have "getResponse L lib c None s1 = Some (Returns (as_received ?y), None, s2)"
    using s2(1) by (auto split: option.splits response_end.splits)
  then show ?thesis using s1(1) s2(2) by (intro that [of s2]) (simp_all add: send_on_def)
qed

text \<open>
  C15: the cache does not know the protocol. After a request without security to some port of a server, a request with
  \<open>https\<close> to that port is written, in the clear, to the connection of the first one, and whatever answers there answers it:
  the call succeeds and the cache is as before, although the session has a security context by then.
\<close>

theorem secured_request_over_plain_connection:
  assumes "perl_regex re_match" "decimal_casts L" "positional_format L"
    and "sendable L p1 r1" "sendable L p2 r2" "url_protocol p1 = ''http''" "url_protocol p2 = ''https''"
    and "host_name p1 = server" "host_name p2 = server" "url_port p1 = port" "url_port p2 = port"
    and "connection_cache x (cache_key L server port) = None"
    and "connect_plain lib (target_of_name L server port) (ossl w) = (Inr b, s0)" "pending s0 = []"
    and "response_source lib b open_end pending" "answering_peer L lib b pending answer"
    and "\<forall>p r. (p, r) \<in> {(p1, r1), (p2, r2)} \<longrightarrow> good_response L (answer (sent_request 0 p r))
      \<and> length (serialize L (answer (sent_request 0 p r))) mod 4096 \<noteq> 0 \<and> length (serialize L (answer (sent_request 0 p r))) < 2 ^ 63"
  shows "\<exists>x1 w1 x2 w2. damon_send re_match L lib clib x r1 w = Some (Returns (as_received (answer (sent_request 0 p1 r1))), x1, w1)
    \<and> damon_send re_match L lib clib x1 r2 w1 = Some (Returns (as_received (answer (sent_request 0 p2 r2))), x2, w2)
    \<and> session_context x2 \<noteq> None \<and> connection_cache x2 = connection_cache x1
    \<and> connection_cache x2 (cache_key L server port) = Some (Connection lib (next_connection x) b s0, None)"
proof -
  let ?key = "cache_key L server port" and ?c = "Connection lib (next_connection x) b s0"
  let ?x1 = "with_connection ?key ?c x"
  have c: "cbio ?c = Some b" by (simp add: Connection_def)
  obtain u1 u2 u3 where u: "parseURL re_match L (durl r1) = Inr (''http'', server, port, u1, u2, u3)"
    using client_url [OF assms(1,2) sendable_client [OF assms(4)]] assms(6,8,10) by metis
  obtain v1 v2 v3 where v: "parseURL re_match L (durl r2) = Inr (''https'', server, port, v1, v2, v3)"
    using client_url [OF assms(1,2) sendable_client [OF assms(5)]] assms(7,9,11) by metis
  note send = send_answered [OF assms(1-3) _ c assms(15,16)]
  obtain s1 where s1: "send_on re_match L lib ?key ?c None r1 ?x1 (w\<lparr>ossl := s0\<rparr>)
      = Some (Returns (as_received (answer (sent_request 0 p1 r1))), ?x1\<lparr>connection_cache := (connection_cache ?x1)(?key \<mapsto> (?c, None))\<rparr>,
          w\<lparr>ossl := s0, ossl := s1\<rparr>)" "pending s1 = []"
    by (rule send [OF assms(4), where w = "w\<lparr>ossl := s0\<rparr>"]) (use assms(14,17) in auto)
  have kept: "?x1\<lparr>connection_cache := (connection_cache ?x1)(?key \<mapsto> (?c, None))\<rparr> = ?x1" by (simp add: with_connection_def)
  have 1: "damon_send re_match L lib clib x r1 w = Some (Returns (as_received (answer (sent_request 0 p1 r1))), ?x1, w\<lparr>ossl := s1\<rparr>)"
    using s1(1) unfolding kept by (simp add: damon_send_def u ensure_context_def find_new_connection [OF assms(12,13)])
  obtain x2 w2 where e: "ensure_context True ?x1 (w\<lparr>ossl := s1\<rparr>) = (x2, w2)" by fastforce
  then have x2: "session_context x2 \<noteq> None" "connection_cache x2 = connection_cache ?x1" "ossl w2 = s1"
    by (auto simp: ensure_context_def Context_def new_box_def split: if_splits)
  have f: "find_connection L lib clib True server port x2 w2 = (Inr (?c, None), x2, w2)"
    using x2(2) by (simp add: find_connection_def Let_def with_connection_def new_connection_usable)
  obtain s2 where s2: "send_on re_match L lib ?key ?c None r2 x2 w2
      = Some (Returns (as_received (answer (sent_request 0 p2 r2))), x2\<lparr>connection_cache := (connection_cache x2)(?key \<mapsto> (?c, None))\<rparr>,
          w2\<lparr>ossl := s2\<rparr>)" "pending s2 = []"
    by (rule send [OF assms(5), where w = w2]) (use x2(3) s1(2) assms(17) in auto)
  have "damon_send re_match L lib clib ?x1 r2 (w\<lparr>ossl := s1\<rparr>)
      = Some (Returns (as_received (answer (sent_request 0 p2 r2))), x2\<lparr>connection_cache := (connection_cache x2)(?key \<mapsto> (?c, None))\<rparr>,
          w2\<lparr>ossl := s2\<rparr>)"
    using s2(1) by (simp add: damon_send_def v e f)
  with 1 x2(1,2) show ?thesis by (auto simp: with_connection_def)
qed

text \<open>
  C16: whatever is sent over a session and whatever comes back, the session stays well formed (every cached connection can be
  used, none is cached twice, what is kept of a response has no body yet and never counts as complete), and no call uses a
  null pointer for a response.
\<close>

theorem sessions_stay_well_formed:
  assumes "session_ok x"
  shows "(\<forall>y x' w'. damon_send re_match L lib clib x r w = Some (y, x', w') \<longrightarrow> session_ok x' \<and> y \<noteq> NullResponse \<and> y \<noteq> Retry)
    \<and> (\<forall>y x' w'. damon_send_all re_match L lib clib x rs w = Some (y, x', w') \<longrightarrow> session_ok x' \<and> y \<noteq> Inl NullResponse \<and> y \<noteq> Inl Retry)
    \<and> session_ok (fst (setContext clib ctx x w))"
proof (intro conjI)
  show "session_ok (fst (setContext clib ctx x w))"
    using assms by (auto simp: setContext_def session_ok_context split: prod.splits option.splits)
qed (use damon_send_ok [OF assms] damon_send_all_ok [OF assms] in blast)+

section \<open>A server in memory\<close>

text \<open>An OpenSSL whose connections lead to a server that answers every request with the sample response.\<close>

definition peer_ssl :: "string openssl" where
  "peer_ssl = (memory_ssl False)\<lparr>BIO_write := (\<lambda>_ d s. (int (length d),
     s @ (case serve boost_ref 0 None d of (Done, None, [q]) \<Rightarrow> serialize boost_ref sample_response | _ \<Rightarrow> [])))\<rparr>"

lemma peer_ssl_laws:
  "response_source peer_ssl (ConnectionBIO 1) False (\<lambda>s. s)"
  "answering_peer boost_ref peer_ssl (ConnectionBIO 1) (\<lambda>s. s) (\<lambda>_. sample_response)"
  "connect_plain peer_ssl t s = (Inr (ConnectionBIO 1), s)"
  by (auto simp: response_source_def drains_def answering_peer_def peer_ssl_def memory_ssl_def bio_read_def bio_write_def bio_poll_def
      bio_should_read_def bio_should_write_def bio_should_retry_def connect_plain_def alloc_or_throw_def positive_or_throw_def
      bind_st_def return_st_def on_error_def)

definition plain_url :: url_parts where
  "plain_url = sample_url\<lparr>scheme := Some ''http''\<rparr>"

definition plain_request :: damon_request where
  "plain_request = DamonRequest (url_text plain_url) (Method Get) No_authorization"

lemma sample_serialized: "length (serialize boost_ref sample_response) = 54"
  by (simp add: serialized boost_ref_laws status_line_def sample_response_def setBody_def addHeader_def Response_def wire_headers_def
      with_content_length_def header_block_Cons header_line_def show_200)

lemma sample_requests_client:
  "client_request boost_ref plain_url plain_request" "client_request boost_ref sample_url sample_request"
  by (simp_all add: client_request_def good_url_def plain_url_def plain_request_def sample_url_def avoids_def sample_request_def
      damon_setBody_def damon_addHeader_def DamonRequest_def no_space_def isIgnorableWhiteSpace_def user_name_def pass_word_def
      padded_size_def good_header_def trimmed_def one_line_def isNewLine_def clean_start_def)

lemma sample_requests_good: "sendable boost_ref plain_url plain_request" "sendable boost_ref sample_url sample_request"
proof -
  have zero: "show_nat 0 = ''0''" by code_simp
  note wire = request_wire_def start_line_def sent_request_def sent_headers_def plain_request_def plain_url_def sample_request_def
    sample_url_def DamonRequest_def damon_setBody_def damon_addHeader_def port_text_def show_8080 show_3 zero header_block_Cons
    header_line_def user_name_def pass_word_def INT_MAX_def
  show "sendable boost_ref plain_url plain_request" "sendable boost_ref sample_url sample_request"
    using sample_requests_client by (simp_all add: sendable_def wire)
qed

definition idle_heap :: "string ctx_heap" where
  "idle_heap = \<lparr>boxes = Map.empty, next_box = 0, ossl = []\<rparr>"

theorem requests_are_answered_in_order_witness:
  "\<forall>clib. \<exists>x s'. damon_send_all regex_match boost_ref peer_ssl clib Session [plain_request, plain_request] idle_heap
    = Some (Inr [as_received sample_response, as_received sample_response], x, idle_heap\<lparr>ossl := s'\<rparr>)"
proof
  fix clib
  have "perl_regex regex_match" by (simp add: perl_regex_def)
  moreover have "url_protocol plain_url = ''http''" by (simp add: url_protocol_def plain_url_def)
  ultimately show "\<exists>x s'. damon_send_all regex_match boost_ref peer_ssl clib Session [plain_request, plain_request] idle_heap
    = Some (Inr [as_received sample_response, as_received sample_response], x, idle_heap\<lparr>ossl := s'\<rparr>)"
    using requests_are_answered_in_order [of regex_match boost_ref "[plain_request, plain_request]" "\<lambda>_. plain_url"
        "host_name plain_url" "url_port plain_url" Session peer_ssl idle_heap "ConnectionBIO 1" "[]" "\<lambda>s. s" False "\<lambda>_. sample_response" clib]
      boost_ref_laws peer_ssl_laws sample_requests_good sample_laws(1) sample_serialized
    by (auto simp: Session_def idle_heap_def simp del: damon_send_all_def)
qed

theorem secured_request_over_plain_connection_witness:
  "\<forall>clib. \<exists>x1 w1 x2 w2. damon_send regex_match boost_ref peer_ssl clib Session
      (DamonRequest ''http://example.com:8080/'' (Method Get) No_authorization) idle_heap = Some (Returns (as_received sample_response), x1, w1)
    \<and> damon_send regex_match boost_ref peer_ssl clib x1 sample_request w1 = Some (Returns (as_received sample_response), x2, w2)
    \<and> durl sample_request = ''https://me:pw:1@example.com:8080/a?b@c:d''"
proof
  fix clib
  let ?p = "plain_url\<lparr>user := None, path := ''/''\<rparr>" and ?r = "DamonRequest ''http://example.com:8080/'' (Method Get) No_authorization"
  have "perl_regex regex_match" by (simp add: perl_regex_def)
  moreover have "client_request boost_ref ?p ?r"
    by (simp add: client_request_def good_url_def plain_url_def sample_url_def avoids_def url_text_def
        DamonRequest_def no_space_def isIgnorableWhiteSpace_def user_name_def pass_word_def padded_size_def clean_start_def
        user_text_def port_text_def show_8080)
  then have "sendable boost_ref ?p ?r"
  proof -
    assume c: "client_request boost_ref ?p ?r"
    have zero: "show_nat 0 = ''0''" by code_simp
    show ?thesis
      using c by (simp add: sendable_def request_wire_def start_line_def sent_request_def sent_headers_def DamonRequest_def port_text_def
          plain_url_def sample_url_def show_8080 zero header_block_Cons header_line_def INT_MAX_def)
  qed
  moreover have "url_protocol ?p = ''http''" "url_protocol sample_url = ''https''" "host_name ?p = host_name sample_url"
    "url_port ?p = url_port sample_url"
    by (simp_all add: url_protocol_def plain_url_def sample_url_def url_port_def)
  moreover have "durl sample_request = ''https://me:pw:1@example.com:8080/a?b@c:d''"
    by (simp add: sample_request_def damon_setBody_def damon_addHeader_def DamonRequest_def url_text_def sample_url_def user_text_def
        port_text_def show_8080)
  ultimately show "\<exists>x1 w1 x2 w2. damon_send regex_match boost_ref peer_ssl clib Session ?r idle_heap
        = Some (Returns (as_received sample_response), x1, w1)
    \<and> damon_send regex_match boost_ref peer_ssl clib x1 sample_request w1 = Some (Returns (as_received sample_response), x2, w2)
    \<and> durl sample_request = ''https://me:pw:1@example.com:8080/a?b@c:d''"
    using secured_request_over_plain_connection [of regex_match boost_ref ?p ?r sample_url sample_request
        "host_name sample_url" "url_port sample_url" Session peer_ssl idle_heap "ConnectionBIO 1" "[]" "\<lambda>s. s" False "\<lambda>_. sample_response" clib]
      boost_ref_laws peer_ssl_laws sample_requests_good(2) sample_laws(1) sample_serialized
    by (auto simp: Session_def idle_heap_def)
qed

theorem sessions_stay_well_formed_witness:
  "\<forall>clib ctx. session_ok (fst (setContext clib ctx Session idle_heap))
    \<and> (case damon_send_all regex_match boost_ref peer_ssl clib Session [plain_request, sample_request] idle_heap of
         None \<Rightarrow> False | Some (y, x, w) \<Rightarrow> session_ok x \<and> y \<noteq> Inl NullResponse)"
proof (intro allI conjI)
  fix clib :: "string ssl_ctx_lib" and ctx
  note ok = sessions_stay_well_formed [OF session_ok_new, of regex_match boost_ref peer_ssl clib plain_request idle_heap
      "[plain_request, sample_request]" ctx]
  then show "session_ok (fst (setContext clib ctx Session idle_heap))" by blast
  have re: "perl_regex regex_match" by (simp add: perl_regex_def)
  have "url_protocol plain_url = ''http''" by (simp add: url_protocol_def plain_url_def)
  then obtain u1 u2 u3 where "parseURL regex_match boost_ref (durl plain_request)
      = Inr (''http'', host_name plain_url, url_port plain_url, u1, u2, u3)"
    using client_url [OF re boost_ref_laws(1) sample_requests_client(1)] by metis
  moreover have "validate_requests regex_match boost_ref (host_name plain_url) (url_port plain_url) [plain_request, sample_request] = Inr ()"
    using sample_requests_client
    by (intro validate_requests_same [OF re boost_ref_laws(1), where parts = "\<lambda>r. if r = plain_request then plain_url else sample_url"])
      (auto simp: plain_url_def sample_url_def url_port_def)
  moreover obtain s1 where "write_requests regex_match boost_ref peer_ssl (Connection peer_ssl 0 (ConnectionBIO 1) [])
      [plain_request, sample_request] [] = Some (Inr (), s1)" "s1 = serialize boost_ref sample_response @ serialize boost_ref sample_response"
    using write_requests_answered [OF re boost_ref_laws _ peer_ssl_laws(2), of "Connection peer_ssl 0 (ConnectionBIO 1) []"
        "[plain_request, sample_request]" "\<lambda>r. if r = plain_request then plain_url else sample_url" "[]"] sample_requests_good
    by (auto simp: Connection_def)
  moreover obtain s2 where "receive_responses boost_ref peer_ssl (Connection peer_ssl 0 (ConnectionBIO 1) []) (Suc (Suc 0)) None
      (serialize boost_ref sample_response @ serialize boost_ref sample_response)
      = Some (Inr [as_received sample_response, as_received sample_response], None, s2)"
    using receive_pending [OF boost_ref_laws peer_ssl_laws(1), of "Connection peer_ssl 0 (ConnectionBIO 1) []"
        "[sample_response, sample_response]"] sample_laws(1) sample_serialized
    by (auto simp: Connection_def)
  ultimately obtain x w where r: "damon_send_all regex_match boost_ref peer_ssl clib Session [plain_request, sample_request] idle_heap
      = Some (Inr [as_received sample_response, as_received sample_response], x, w)"
    unfolding damon_send_all_def
    by (simp add: ensure_context_def find_new_connection [OF _ peer_ssl_laws(3)] Session_def idle_heap_def
        del: receive_responses.simps write_requests.simps validate_requests.simps)
  with ok show "case damon_send_all regex_match boost_ref peer_ssl clib Session [plain_request, sample_request] idle_heap of
         None \<Rightarrow> False | Some (y, x, w) \<Rightarrow> session_ok x \<and> y \<noteq> Inl NullResponse" by simp
qed

end
