(* ===== verification/Pipe.thy ===== *)
theory Pipe
  imports Exceptions ConnectionHandler
begin

text \<open>
  \<^verbatim>\<open>lib/Spin/Private/Pipe.cpp\<close>: the pipe that wakes the thread of the connection handler, a pair of connected sockets. The
  socket functions of the operating system are a record over an abstract state.
\<close>

section \<open>The socket functions\<close>

datatype pipe_option = RcvBuf | SndBuf | KeepAlive

text \<open>
  \<open>ps_bind\<close> binds to a free port of 127.0.0.1; \<open>ps_getsockname\<close> gives its result, the address and the size of the address,
  16 being \<open>sizeof(sockaddr_in)\<close>.
\<close>

record 's pipe_system =
  ps_socket :: "'s \<Rightarrow> int \<times> 's"
  ps_bind :: "int \<Rightarrow> 's \<Rightarrow> int \<times> 's"
  ps_listen :: "int \<Rightarrow> nat \<Rightarrow> 's \<Rightarrow> int \<times> 's"
  ps_getsockname :: "int \<Rightarrow> 's \<Rightarrow> (int \<times> nat \<times> nat) \<times> 's"
  ps_connect :: "int \<Rightarrow> nat \<Rightarrow> 's \<Rightarrow> int \<times> 's"
  ps_accept :: "int \<Rightarrow> 's \<Rightarrow> int \<times> 's"
  ps_setsockopt :: "int \<Rightarrow> pipe_option \<Rightarrow> int \<Rightarrow> 's \<Rightarrow> int \<times> 's"
  ps_close :: "int \<Rightarrow> 's \<Rightarrow> 's"
  ps_recv :: "int \<Rightarrow> nat \<Rightarrow> 's \<Rightarrow> (int \<times> string) \<times> 's"
  ps_send :: "int \<Rightarrow> string \<Rightarrow> 's \<Rightarrow> int \<times> 's"
  ps_errno :: "'s \<Rightarrow> errno"

section \<open>The pipe\<close>

record pipe_fds =
  read_fd :: int
  write_fd :: int

text \<open>A call, and the exception when its result is not what it has to be.\<close>

definition call_or_throw :: "('s \<Rightarrow> 'r \<times> 's) \<Rightarrow> ('r \<Rightarrow> bool) \<Rightarrow> ('s \<Rightarrow> exn) \<Rightarrow> 's \<Rightarrow> (exn + 'r) \<times> 's" where
  "call_or_throw call ok e s = (case call s of (r, s') \<Rightarrow> if ok r then (Inr r, s') else (Inl (e s'), s'))"

definition new_socket :: "'s pipe_system \<Rightarrow> 's \<Rightarrow> (exn + int) \<times> 's" where
  "new_socket sys = call_or_throw (ps_socket sys) (\<lambda>f. f \<noteq> -1) (\<lambda>_. bad_alloc)"

text \<open>From \<open>bind\<close> to \<open>accept\<close>.\<close>

definition connect_pair :: "'s pipe_system \<Rightarrow> int \<Rightarrow> int \<Rightarrow> 's \<Rightarrow> (exn + int) \<times> 's" where
  "connect_pair sys f0 f1 =
     bind_st (call_or_throw (ps_bind sys f0) (\<lambda>r. r = 0) (\<lambda>s. BindFailure (ps_errno sys s))) (\<lambda>_.
     bind_st (call_or_throw (ps_listen sys f0 1) (\<lambda>r. r = 0) (\<lambda>s. ListenFailure (ps_errno sys s))) (\<lambda>_.
     bind_st (call_or_throw (ps_getsockname sys f0) (\<lambda>(r, a, n). r = 0 \<and> n = 16)
       (\<lambda>s. SocketError ''Failed to obtain address to connect to'' ''getsockname'' (ps_errno sys s))) (\<lambda>(r, a, n).
     bind_st (call_or_throw (ps_connect sys f1 a) (\<lambda>r. r = 0)
       (\<lambda>s. SocketError ''Failed to connect to listening socket'' ''connect'' (ps_errno sys s))) (\<lambda>_.
     call_or_throw (ps_accept sys f0) (\<lambda>r. r \<noteq> -1)
       (\<lambda>s. SocketError ''Failed to accept connection'' ''accept'' (ps_errno sys s))))))"

definition option_calls :: "pipe_fds \<Rightarrow> (int \<times> pipe_option \<times> int) list" where
  "option_calls p = [(read_fd p, RcvBuf, 0), (read_fd p, SndBuf, 0), (write_fd p, RcvBuf, 0), (write_fd p, SndBuf, 0),
     (read_fd p, KeepAlive, 1), (write_fd p, KeepAlive, 1)]"

fun set_options :: "'s pipe_system \<Rightarrow> (int \<times> pipe_option \<times> int) list \<Rightarrow> 's \<Rightarrow> (exn + unit) \<times> 's" where
  "set_options sys [] = return_st ()"
| "set_options sys ((f, x, v) # xs) =
     bind_st (call_or_throw (ps_setsockopt sys f x v) (\<lambda>r. r \<noteq> -1)
       (\<lambda>s. SocketError ''Failed to set socket option'' ''setsockopt'' (ps_errno sys s))) (\<lambda>_. set_options sys xs)"

text \<open>
  The constructor. The guards hold copies of the descriptors as they were when the guards were made, and run in reverse order.
\<close>

definition Pipe :: "'s pipe_system \<Rightarrow> 's \<Rightarrow> (exn + pipe_fds) \<times> 's" where
  "Pipe sys =
     bind_st (new_socket sys) (\<lambda>f0. on_error
       (bind_st (new_socket sys) (\<lambda>f1. on_error
         (bind_st (connect_pair sys f0 f1) (\<lambda>reader s.
           let p = \<lparr>read_fd = reader, write_fd = f1\<rparr> in
           bind_st (set_options sys (option_calls p)) (\<lambda>_. return_st p) (ps_close sys f0 s)))
         (ps_close sys f1)))
       (ps_close sys f0))"

definition pipe_destroy :: "'s pipe_system \<Rightarrow> pipe_fds \<Rightarrow> 's \<Rightarrow> 's" where
  "pipe_destroy sys p s = ps_close sys (read_fd p) (ps_close sys (write_fd p) s)"

text \<open>The number of bytes is an \<open>int\<close> that becomes a \<open>std::size_t\<close>; the bytes are in the buffer of the caller.\<close>

definition pipe_read :: "'s pipe_system \<Rightarrow> pipe_fds \<Rightarrow> nat \<Rightarrow> 's \<Rightarrow> (exn + 64 word \<times> string) \<times> 's" where
  "pipe_read sys p count s = (case ps_recv sys (read_fd p) count s of ((bytes_received, d), s') \<Rightarrow>
     if bytes_received = -1 then (Inl (SocketError ''Reception from pipe failed'' ''recv'' (ps_errno sys s')), s')
     else (Inr (word_of_int bytes_received, d), s'))"

text \<open>Every round sends from the start of the buffer. \<open>None\<close> is a call that does not return.\<close>

partial_function (option) pipe_write :: "'s pipe_system \<Rightarrow> pipe_fds \<Rightarrow> string \<Rightarrow> 64 word \<Rightarrow> 's \<Rightarrow> ((exn + unit) \<times> 's) option" where
  "pipe_write sys p buffer count s = (case ps_send sys (write_fd p) (take (unat count) buffer) s of (bytes_sent, s') \<Rightarrow>
     if bytes_sent = -1 then Some (Inl (SocketError ''Send failed'' ''send'' (ps_errno sys s')), s')
     else let count = count - word_of_int bytes_sent in
       if count \<noteq> 0 then pipe_write sys p buffer count s' else Some (Inr (), s'))"

section \<open>Descriptors\<close>

text \<open>
  \<open>fds s\<close> is the set of open descriptors. Documented behaviour: \<open>socket\<close> and \<open>accept\<close> open a new one or return -1, \<open>close\<close>
  closes, the other calls leave them alone.
\<close>

definition opens_one :: "('s \<Rightarrow> int set) \<Rightarrow> ('s \<Rightarrow> int \<times> 's) \<Rightarrow> bool" where
  "opens_one fds call \<longleftrightarrow> (\<forall>s. case call s of (f, s') \<Rightarrow>
     if f = -1 then fds s' = fds s else f \<notin> fds s \<and> fds s' = insert f (fds s))"

definition descriptor_laws :: "'s pipe_system \<Rightarrow> ('s \<Rightarrow> int set) \<Rightarrow> bool" where
  "descriptor_laws sys fds \<longleftrightarrow> opens_one fds (ps_socket sys) \<and> (\<forall>f. opens_one fds (ps_accept sys f))
     \<and> (\<forall>f s. fds (ps_close sys f s) = fds s - {f})
     \<and> (\<forall>f s. fds (snd (ps_bind sys f s)) = fds s) \<and> (\<forall>f n s. fds (snd (ps_listen sys f n s)) = fds s)
     \<and> (\<forall>f s. fds (snd (ps_getsockname sys f s)) = fds s) \<and> (\<forall>f a s. fds (snd (ps_connect sys f a s)) = fds s)
     \<and> (\<forall>f x v s. fds (snd (ps_setsockopt sys f x v s)) = fds s)"

lemma descriptor_lawsD:
  assumes "descriptor_laws sys fds"
  shows "opens_one fds (ps_socket sys)" "opens_one fds (ps_accept sys f)" "fds (ps_close sys f s) = fds s - {f}"
    "fds (snd (ps_bind sys f s)) = fds s" "fds (snd (ps_listen sys f n s)) = fds s" "fds (snd (ps_getsockname sys f s)) = fds s"
    "fds (snd (ps_connect sys f a s)) = fds s" "fds (snd (ps_setsockopt sys f x v s)) = fds s"
  using assms by (simp_all add: descriptor_laws_def)

definition option_error :: "exn \<Rightarrow> bool" where
  "option_error e \<longleftrightarrow> (\<exists>i. e = SocketError ''Failed to set socket option'' ''setsockopt'' i)"

lemma option_error_simps [simp]:
  "option_error (SocketError a b i) \<longleftrightarrow> a = ''Failed to set socket option'' \<and> b = ''setsockopt''"
  "\<not> option_error (BindFailure i)" "\<not> option_error (ListenFailure i)" "\<not> option_error bad_alloc"
  by (auto simp: option_error_def)

lemma call_keeps:
  assumes "\<And>s. fds (snd (call s)) = fds s" "call_or_throw call ok e s = (r, s')"
  shows "fds s' = fds s"
  using assms(1) [of s] assms(2) by (auto simp: call_or_throw_def split: prod.splits if_splits)

lemma call_fails: "call_or_throw call ok e s = (Inl x, s') \<Longrightarrow> x = e s'"
  by (simp add: call_or_throw_def split: prod.splits if_splits)

lemma call_opens:
  assumes "opens_one fds call" "call_or_throw call (\<lambda>f. f \<noteq> -1) e s = (r, s')"
  shows "case r of Inl x \<Rightarrow> x = e s' \<and> fds s' = fds s | Inr f \<Rightarrow> f \<notin> fds s \<and> fds s' = insert f (fds s)"
  using assms unfolding opens_one_def call_or_throw_def by (auto dest!: spec [of _ s] split: prod.splits if_splits)

lemma set_options_keep:
  assumes "descriptor_laws sys fds"
  shows "set_options sys xs s = (r, s') \<Longrightarrow> fds s' = fds s \<and> (case r of Inl e \<Rightarrow> option_error e | Inr _ \<Rightarrow> True)"
proof (induction xs arbitrary: s)
  case (Cons x xs)
  obtain f k v where x: "x = (f, k, v)" by (cases x) auto
  obtain r1 s1 where 1: "call_or_throw (ps_setsockopt sys f k v) (\<lambda>r. r \<noteq> -1)
      (\<lambda>s. SocketError ''Failed to set socket option'' ''setsockopt'' (ps_errno sys s)) s = (r1, s1)" by fastforce
  have "fds s1 = fds s" by (rule call_keeps [OF _ 1]) (use assms in \<open>simp add: descriptor_laws_def\<close>)
  moreover have "case r1 of Inl e \<Rightarrow> option_error e | Inr _ \<Rightarrow> True"
    using 1 by (auto simp: call_or_throw_def split: prod.splits if_splits)
  ultimately show ?case using Cons.IH [of s1] Cons.prems 1 by (auto simp: x bind_st_def split: sum.splits)
qed (auto simp: return_st_def)

lemma new_socket_opens:
  assumes "descriptor_laws sys fds" "new_socket sys s = (r, s')"
  shows "case r of Inl x \<Rightarrow> x = bad_alloc \<and> fds s' = fds s | Inr f \<Rightarrow> f \<notin> fds s \<and> fds s' = insert f (fds s)"
  using call_opens [OF descriptor_lawsD(1) [OF assms(1)] assms(2) [unfolded new_socket_def]] .

lemma connect_pair_opens:
  assumes "descriptor_laws sys fds" "connect_pair sys f0 f1 s = (r, s')"
  shows "case r of Inl e \<Rightarrow> \<not> option_error e \<and> fds s' = fds s | Inr f \<Rightarrow> f \<notin> fds s \<and> fds s' = insert f (fds s)"
proof -
  note laws = descriptor_lawsD [OF assms(1)]
  obtain r1 s1 where 1: "call_or_throw (ps_bind sys f0) (\<lambda>r. r = 0) (\<lambda>s. BindFailure (ps_errno sys s)) s = (r1, s1)" by fastforce
  obtain r2 s2 where 2: "call_or_throw (ps_listen sys f0 1) (\<lambda>r. r = 0) (\<lambda>s. ListenFailure (ps_errno sys s)) s1 = (r2, s2)" by fastforce
  obtain r3 s3 where 3: "call_or_throw (ps_getsockname sys f0) (\<lambda>(r, a, n). r = 0 \<and> n = 16)
      (\<lambda>s. SocketError ''Failed to obtain address to connect to'' ''getsockname'' (ps_errno sys s)) s2 = (r3, s3)" by fastforce
  have e1: "\<not> option_error x" if "r1 = Inl x" for x using call_fails [OF 1 [unfolded that]] by simp
  have e2: "\<not> option_error x" if "r2 = Inl x" for x using call_fails [OF 2 [unfolded that]] by simp
  have e3: "\<not> option_error x" if "r3 = Inl x" for x using call_fails [OF 3 [unfolded that]] by simp
  have k: "fds s1 = fds s" "fds s2 = fds s1" "fds s3 = fds s2"
    by (rule call_keeps [OF _ 1], simp add: laws, rule call_keeps [OF _ 2], simp add: laws, rule call_keeps [OF _ 3], simp add: laws)
  show ?thesis
  proof (cases r3)
    case (Inr x)
    obtain r a n where x: "x = (r, a, n)" by (cases x) auto
    obtain r4 s4 where 4: "call_or_throw (ps_connect sys f1 a) (\<lambda>r. r = 0)
        (\<lambda>s. SocketError ''Failed to connect to listening socket'' ''connect'' (ps_errno sys s)) s3 = (r4, s4)" by fastforce
    obtain r5 s5 where 5: "call_or_throw (ps_accept sys f0) (\<lambda>r. r \<noteq> -1)
        (\<lambda>s. SocketError ''Failed to accept connection'' ''accept'' (ps_errno sys s)) s4 = (r5, s5)" by fastforce
    have "\<not> option_error y" if "r4 = Inl y" for y using call_fails [OF 4 [unfolded that]] by simp
    moreover have "fds s4 = fds s3" by (rule call_keeps [OF _ 4]) (simp add: laws)
    moreover have "case r5 of Inl y \<Rightarrow> \<not> option_error y \<and> fds s5 = fds s4 | Inr f \<Rightarrow> f \<notin> fds s4 \<and> fds s5 = insert f (fds s4)"
      using call_opens [OF laws(2) 5] call_fails [of _ _ _ s4 _ s5] 5 by (auto split: sum.splits)
    ultimately show ?thesis
      using assms(2) 1 2 3 4 5 Inr x e1 e2 e3 k by (cases r1; cases r2; cases r4; cases r5) (auto simp: connect_pair_def bind_st_def)
  qed (use assms(2) 1 2 3 e1 e2 e3 k in \<open>cases r1; cases r2; auto simp: connect_pair_def bind_st_def\<close>)
qed

text \<open>
  C26: a pipe that was made owns exactly its two descriptors, both new, and its destructor closes them. When the constructor
  throws because of anything up to \<open>accept\<close>, no descriptor is left open; when it throws because an option of a socket cannot
  be set, the connected socket is left open for good (the guards close the descriptors they have copied).
\<close>

theorem pipe_owns_its_descriptors:
  assumes "descriptor_laws sys fds"
  shows "case Pipe sys s of (r, s') \<Rightarrow> (case r of
      Inr p \<Rightarrow> read_fd p \<noteq> write_fd p \<and> {read_fd p, write_fd p} \<inter> fds s = {} \<and> fds s' = fds s \<union> {read_fd p, write_fd p}
        \<and> fds (pipe_destroy sys p s') = fds s
    | Inl e \<Rightarrow> if option_error e then \<exists>f. f \<notin> fds s \<and> fds s' = insert f (fds s) else fds s' = fds s)"
proof -
  note laws = descriptor_lawsD [OF assms]
  note close = laws(3)
  obtain r0 s0 where 0: "new_socket sys s = (r0, s0)" by fastforce
  note k0 = new_socket_opens [OF assms 0]
  show ?thesis
  proof (cases r0)
    case (Inr f0)
    obtain r1 s1 where 1: "new_socket sys s0 = (r1, s1)" by fastforce
    note k1 = new_socket_opens [OF assms 1]
    show ?thesis
    proof (cases r1)
      case (Inr f1)
      obtain r2 s2 where 2: "connect_pair sys f0 f1 s1 = (r2, s2)" by fastforce
      note k2 = connect_pair_opens [OF assms 2]
      show ?thesis
      proof (cases r2)
        case (Inr f2)
        let ?p = "\<lparr>read_fd = f2, write_fd = f1\<rparr>"
        obtain r3 s3 where 3: "set_options sys (option_calls ?p) (ps_close sys f0 s2) = (r3, s3)" by fastforce
        note k3 = set_options_keep [OF assms 3]
        from k0 k1 k2 \<open>r0 = Inr f0\<close> \<open>r1 = Inr f1\<close> Inr have f: "f0 \<notin> fds s" "f1 \<notin> fds s" "f2 \<notin> fds s" "f0 \<noteq> f1" "f2 \<noteq> f0" "f2 \<noteq> f1"
          "fds (ps_close sys f0 s2) = fds s \<union> {f1, f2}"
          by (auto simp: close)
        show ?thesis
        proof (cases r3)
          case (Inl e)
          have "fds (ps_close sys f0 (ps_close sys f1 s3)) = insert f2 (fds s)" using f k3 by (auto simp: close)
          then show ?thesis
            using 0 1 2 3 f(3) k3 \<open>r0 = Inr f0\<close> \<open>r1 = Inr f1\<close> \<open>r2 = Inr f2\<close> Inl
            by (auto simp: Pipe_def bind_st_def on_error_def)
        next
          case (Inr x)
          have "fds (pipe_destroy sys ?p s3) = fds s" using f k3 by (auto simp: close pipe_destroy_def)
          then show ?thesis
            using 0 1 2 3 f k3 \<open>r0 = Inr f0\<close> \<open>r1 = Inr f1\<close> \<open>r2 = Inr f2\<close> Inr
            by (auto simp: Pipe_def bind_st_def on_error_def return_st_def)
        qed
      qed (use 0 1 2 k0 k1 k2 \<open>r0 = Inr f0\<close> \<open>r1 = Inr f1\<close> in \<open>auto simp: Pipe_def bind_st_def on_error_def close\<close>)
    qed (use 0 1 k0 k1 \<open>r0 = Inr f0\<close> in \<open>auto simp: Pipe_def bind_st_def on_error_def close\<close>)
  qed (use 0 k0 in \<open>auto simp: Pipe_def bind_st_def\<close>)
qed

section \<open>Bytes\<close>

text \<open>
  \<open>unread s\<close> are the bytes that are written and not yet read. Documented behaviour of connected stream sockets: \<open>send\<close>
  takes some of the bytes, from the front, or fails; \<open>recv\<close> hands out bytes in order, or fails.
\<close>

definition stream_laws :: "'s pipe_system \<Rightarrow> pipe_fds \<Rightarrow> ('s \<Rightarrow> string) \<Rightarrow> bool" where
  "stream_laws sys p unread \<longleftrightarrow>
     (\<forall>d s. d \<noteq> [] \<longrightarrow> (case ps_send sys (write_fd p) d s of (n, s') \<Rightarrow>
        n = -1 \<and> unread s' = unread s \<or> 0 < n \<and> n \<le> int (length d) \<and> unread s' = unread s @ take (nat n) d))
     \<and> (\<forall>k s. 0 < k \<and> unread s \<noteq> [] \<longrightarrow> (case ps_recv sys (read_fd p) k s of ((n, d), s') \<Rightarrow>
        n = -1 \<and> unread s' = unread s \<or> n = int (min k (length (unread s))) \<and> d = take k (unread s) \<and> unread s' = drop k (unread s)))"

text \<open>What arrives when the rounds of \<open>write\<close> send \<open>ns\<close> bytes each: every piece is one from the start of the buffer.\<close>

definition pieces :: "string \<Rightarrow> nat list \<Rightarrow> string" where
  "pieces buffer ns = concat (map (\<lambda>n. take n buffer) ns)"

lemma stream_send:
  assumes "stream_laws sys p unread" "d \<noteq> []"
  obtains (fails) s' where "ps_send sys (write_fd p) d s = (-1, s')" "unread s' = unread s"
  | (takes) n s' where "ps_send sys (write_fd p) d s = (int n, s')" "0 < n" "n \<le> length d" "unread s' = unread s @ take n d"
proof (cases "ps_send sys (write_fd p) d s")
  case (Pair n s')
  then have "n = -1 \<and> unread s' = unread s \<or> 0 < n \<and> n \<le> int (length d) \<and> unread s' = unread s @ take (nat n) d"
    using assms unfolding stream_laws_def by (auto dest!: spec [of _ d] spec [of _ s])
  then show ?thesis using Pair fails [of s'] takes [of "nat n" s'] by fastforce
qed

lemma pipe_write_round:
  assumes "stream_laws sys p unread" "buffer \<noteq> []" "length buffer < 2 ^ 64" "0 < k" "k \<le> length buffer"
  obtains (fails) s' x where "pipe_write sys p buffer (word_of_nat k) s = Some (Inl (SocketError ''Send failed'' ''send'' x), s')"
  | (sent) s' where "pipe_write sys p buffer (word_of_nat k) s = Some (Inr (), s')" "unread s' = unread s @ take k buffer"
  | (again) n s' where "pipe_write sys p buffer (word_of_nat k) s = pipe_write sys p buffer (word_of_nat (k - n)) s'"
      "0 < n" "n < k" "unread s' = unread s @ take n buffer"
proof -
  have k: "unat (word_of_nat k :: 64 word) = k" using assms(3-5) by (simp add: unat_of_nat)
  have d: "take k buffer \<noteq> []" using assms(2,4) by simp
  show thesis
  proof (rule stream_send [OF assms(1) d, of s])
    fix s' assume "ps_send sys (write_fd p) (take k buffer) s = (-1, s')"
    then show thesis by (intro fails [of "ps_errno sys s'" s'], subst pipe_write.simps) (simp add: k)
  next
    fix n s' assume n: "ps_send sys (write_fd p) (take k buffer) s = (int n, s')" "0 < n" "n \<le> length (take k buffer)"
      "unread s' = unread s @ take n (take k buffer)"
    then have n': "n \<le> k" "take n (take k buffer) = take n buffer" by (simp_all add: min_absorb1)
    have w: "(word_of_nat k :: 64 word) - word_of_int (int n) = word_of_nat (k - n)" using n'(1) by (simp add: of_nat_diff)
    show thesis
    proof (cases "n = k")
      case True
      then show thesis using n n' w by (intro sent [of s'], subst pipe_write.simps) (simp_all add: k Let_def)
    next
      case False
      have "unat (word_of_nat (k - n) :: 64 word) = k - n" by (subst unat_of_nat) (use assms(3,5) in simp)
      then have "word_of_nat (k - n) \<noteq> (0 :: 64 word)" using False n'(1) by (metis unat_0 diff_is_0_eq le_antisym)
      then show thesis using n n' w False by (intro again [of n s'], subst pipe_write.simps) (simp_all add: k Let_def)
    qed
  qed
qed

text \<open>
  C27: \<open>write\<close> returns, whatever part of the bytes each \<open>send\<close> takes. When it does not throw, it has sent as many bytes as it
  was given, but not always the same: each round sends from the start of the buffer again, so the bytes are right when
  the first \<open>send\<close> takes all of them, as it does with the single byte of a wake-up, and else what follows the first piece is
  another piece from the start.
\<close>

theorem pipe_write_sends:
  assumes "stream_laws sys p unread" "buffer \<noteq> []" "length buffer < 2 ^ 64"
  shows "\<exists>r s'. pipe_write sys p buffer (word_of_nat (length buffer)) s = Some (r, s')
    \<and> (case r of Inl e \<Rightarrow> \<exists>i. e = SocketError ''Send failed'' ''send'' i
       | Inr _ \<Rightarrow> \<exists>ns. sum_list ns = length buffer \<and> 0 \<notin> set ns \<and> unread s' = unread s @ pieces buffer ns)"
proof -
  have "\<exists>r s'. pipe_write sys p buffer (word_of_nat k) s = Some (r, s')
    \<and> (case r of Inl e \<Rightarrow> \<exists>i. e = SocketError ''Send failed'' ''send'' i
       | Inr _ \<Rightarrow> \<exists>ns. sum_list ns = k \<and> 0 \<notin> set ns \<and> unread s' = unread s @ pieces buffer ns)"
    if "0 < k" "k \<le> length buffer" for k
    using that
  proof (induction k arbitrary: s rule: less_induct)
    case (less k)
    show ?case
    proof (rule pipe_write_round [OF assms less.prems, of s])
      fix s' assume "pipe_write sys p buffer (word_of_nat k) s = Some (Inr (), s')" "unread s' = unread s @ take k buffer"
      then show ?thesis using less.prems by (auto simp: pieces_def intro!: exI [of _ "[k]"])
    next
      fix n s' assume n: "pipe_write sys p buffer (word_of_nat k) s = pipe_write sys p buffer (word_of_nat (k - n)) s'"
        "0 < n" "n < k" "unread s' = unread s @ take n buffer"
      then have "k - n < k" "0 < k - n" "k - n \<le> length buffer" using less.prems by simp_all
      from less.IH [OF this, of s'] obtain r s2 where r: "pipe_write sys p buffer (word_of_nat (k - n)) s' = Some (r, s2)"
        "case r of Inl e \<Rightarrow> \<exists>i. e = SocketError ''Send failed'' ''send'' i
         | Inr _ \<Rightarrow> \<exists>ns. sum_list ns = k - n \<and> 0 \<notin> set ns \<and> unread s2 = unread s' @ pieces buffer ns" by blast
      have "\<exists>ns. sum_list ns = k \<and> 0 \<notin> set ns \<and> unread s2 = unread s @ pieces buffer ns" if ok: "r = Inr ()"
      proof -
        obtain ns where "sum_list ns = k - n" "0 \<notin> set ns" "unread s2 = unread s' @ pieces buffer ns" using r(2) ok by auto
        then show ?thesis using n by (intro exI [of _ "n # ns"]) (simp add: pieces_def)
      qed
      then show ?thesis using r unfolding n(1) by (auto split: sum.splits)
    qed auto
  qed
  from this [of "length buffer"] assms(2) show ?thesis by simp
qed

text \<open>
  C9: the pipe is the counter of bytes in the model of the connection handler: as long as the two agree, \<open>notifyThread_\<close>, which
  writes one byte, takes the pipe to the counter behind \<open>notifyThread\<close>, and the read of up to 64 bytes takes it to the counter
  behind \<open>drain\<close>; either leaves it alone when it throws.
\<close>

theorem wake_ups_through_the_pipe:
  assumes "stream_laws sys p unread" "pipe_bytes h = length (unread s)"
  shows "(case pipe_write sys p [NUL] 1 s of None \<Rightarrow> False
      | Some (Inr _, s') \<Rightarrow> pipe_bytes (notifyThread h) = length (unread s') | Some (Inl e, s') \<Rightarrow> pipe_bytes h = length (unread s'))
    \<and> (pipe_bytes h > 0 \<longrightarrow> (case pipe_read sys p 64 s of
        (Inr (n, d), s') \<Rightarrow> 0 < n \<and> drain (pipe_bytes h) = length (unread s') | (Inl e, s') \<Rightarrow> pipe_bytes h = length (unread s')))"
proof
  have one: "take (unat (1 :: 64 word)) [NUL] = [NUL]" by simp
  show "case pipe_write sys p [NUL] 1 s of None \<Rightarrow> False
      | Some (Inr _, s') \<Rightarrow> pipe_bytes (notifyThread h) = length (unread s') | Some (Inl e, s') \<Rightarrow> pipe_bytes h = length (unread s')"
  proof (rule stream_send [OF assms(1), of "[NUL]" s])
    fix s' assume "ps_send sys (write_fd p) [NUL] s = (- 1, s')" "unread s' = unread s"
    then show ?thesis using assms(2) one by (subst pipe_write.simps) simp
  next
    fix n s' assume n: "ps_send sys (write_fd p) [NUL] s = (int n, s')" "0 < n" "n \<le> length [NUL]" "unread s' = unread s @ take n [NUL]"
    then have "n = 1" by simp
    then show ?thesis using n assms(2) one by (subst pipe_write.simps) (simp add: notifyThread_def)
  qed simp
  show "pipe_bytes h > 0 \<longrightarrow> (case pipe_read sys p 64 s of
        (Inr (n, d), s') \<Rightarrow> 0 < n \<and> drain (pipe_bytes h) = length (unread s') | (Inl e, s') \<Rightarrow> pipe_bytes h = length (unread s'))"
  proof
    assume "pipe_bytes h > 0"
    then have ne: "unread s \<noteq> []" using assms(2) by auto
    obtain n d s' where r: "ps_recv sys (read_fd p) 64 s = ((n, d), s')" by (cases "ps_recv sys (read_fd p) 64 s") auto
    then have "n = -1 \<and> unread s' = unread s
        \<or> n = int (min 64 (length (unread s))) \<and> d = take 64 (unread s) \<and> unread s' = drop 64 (unread s)"
      using assms(1) ne unfolding stream_laws_def by (auto dest!: spec [of _ "64 :: nat"] spec [of _ s])
    then show "case pipe_read sys p 64 s of
        (Inr (n, d), s') \<Rightarrow> 0 < n \<and> drain (pipe_bytes h) = length (unread s') | (Inl e, s') \<Rightarrow> pipe_bytes h = length (unread s')"
    proof
      assume n: "n = int (min 64 (length (unread s))) \<and> d = take 64 (unread s) \<and> unread s' = drop 64 (unread s)"
      let ?m = "min 64 (length (unread s))"
      have "unat (word_of_nat ?m :: 64 word) = ?m" by (subst unat_of_nat) simp
      moreover have "0 < ?m" using ne by simp
      ultimately have "(0 :: 64 word) < word_of_nat ?m" by (metis unat_0 word_gt_0 less_irrefl)
      then show ?thesis using r n assms(2) by (simp add: pipe_read_def drain_def)
    qed (use r assms(2) in \<open>simp add: pipe_read_def\<close>)
  qed
qed

section \<open>An operating system for concrete runs\<close>

text \<open>The open descriptors and the bytes in the pipe; options can be set or not, and \<open>send\<close> takes \<open>k\<close> bytes at most.\<close>

definition new_descriptor :: "int list \<Rightarrow> int" where
  "new_descriptor l = Max (insert 0 (set l)) + 1"

definition pipe_ref :: "bool \<Rightarrow> nat \<Rightarrow> (int list \<times> string) pipe_system" where
  "pipe_ref options k = \<lparr>ps_socket = (\<lambda>(l, b). (new_descriptor l, new_descriptor l # l, b)),
     ps_bind = (\<lambda>_ s. (0, s)), ps_listen = (\<lambda>_ _ s. (0, s)), ps_getsockname = (\<lambda>_ s. ((0, 7, 16), s)), ps_connect = (\<lambda>_ _ s. (0, s)),
     ps_accept = (\<lambda>_ (l, b). (new_descriptor l, new_descriptor l # l, b)),
     ps_setsockopt = (\<lambda>_ _ _ s. (if options then 0 else -1, s)), ps_close = (\<lambda>f (l, b). (filter (\<lambda>x. x \<noteq> f) l, b)),
     ps_recv = (\<lambda>_ n (l, b). ((int (min n (length b)), take n b), l, drop n b)),
     ps_send = (\<lambda>_ d (l, b). (int (min k (length d)), l, b @ take (min k (length d)) d)), ps_errno = (\<lambda>_. EINVAL)\<rparr>"

lemma new_descriptor: "new_descriptor l \<notin> set l" "new_descriptor l \<noteq> -1"
proof -
  have "x \<le> Max (insert 0 (set l))" if "x \<in> insert 0 (set l)" for x using that by (intro Max_ge) simp_all
  from this [of "new_descriptor l"] this [of 0] have "new_descriptor l \<notin> set l" "0 < new_descriptor l"
    by (auto simp: new_descriptor_def)
  then show "new_descriptor l \<notin> set l" "new_descriptor l \<noteq> -1" by simp_all
qed

lemma pipe_ref_laws: "descriptor_laws (pipe_ref options k) (\<lambda>s. set (fst s))" "0 < k \<Longrightarrow> stream_laws (pipe_ref options k) p snd"
  using new_descriptor by (auto simp: descriptor_laws_def opens_one_def pipe_ref_def stream_laws_def)

definition example_pipe :: pipe_fds where
  "example_pipe = \<lparr>read_fd = 8, write_fd = 7\<rparr>"

theorem pipe_owns_its_descriptors_witness:
  "Pipe (pipe_ref True 1) ([5], []) = (Inr \<lparr>read_fd = 8, write_fd = 7\<rparr>, [8, 7, 5], [])
    \<and> {8, 7, 5 :: int} = {5} \<union> {8, 7}
    \<and> Pipe (pipe_ref False 1) ([5], []) = (Inl (SocketError ''Failed to set socket option'' ''setsockopt'' EINVAL), [8, 5], [])
    \<and> (\<exists>f. f \<notin> {5} \<and> {8, 5 :: int} = insert f {5})"
proof -
  have n: "new_descriptor [5] = 6" "new_descriptor [6, 5] = 7" "new_descriptor [7, 6, 5] = 8" by (simp_all add: new_descriptor_def)
  have "Pipe (pipe_ref True 1) ([5], []) = (Inr \<lparr>read_fd = 8, write_fd = 7\<rparr>, [8, 7, 5], [])"
    "Pipe (pipe_ref False 1) ([5], []) = (Inl (SocketError ''Failed to set socket option'' ''setsockopt'' EINVAL), [8, 5], [])"
    by (simp_all add: Pipe_def st_defs new_socket_def call_or_throw_def connect_pair_def option_calls_def pipe_ref_def n)
  with pipe_owns_its_descriptors [OF pipe_ref_laws(1) [of True 1], of "([5], [])"]
    pipe_owns_its_descriptors [OF pipe_ref_laws(1) [of False 1], of "([5], [])"] show ?thesis by simp
qed

theorem pipe_write_sends_witness:
  "\<exists>r s' ns. pipe_write (pipe_ref True 1) example_pipe ''ab'' 2 ([], []) = Some (r, s') \<and> r = Inr () \<and> sum_list ns = length ''ab'' \<and> 0 \<notin> set ns
     \<and> snd s' = pieces ''ab'' ns \<and> snd s' = ''aa''"
proof -
  have "pipe_write (pipe_ref True 1) example_pipe ''ab'' 2 ([], []) = Some (Inr (), [], ''aa'')"
    by (subst pipe_write.simps, simp add: pipe_ref_def, subst pipe_write.simps, simp)
  moreover have "stream_laws (pipe_ref True 1) example_pipe snd" by (rule pipe_ref_laws(2)) simp
  ultimately show ?thesis using pipe_write_sends [of "pipe_ref True 1" example_pipe snd "''ab''" "([], [])"] by auto
qed

theorem wake_ups_through_the_pipe_witness:
  "pipe_write (pipe_ref True 1) example_pipe [NUL] 1 ([], [NUL]) = Some (Inr (), [], [NUL, NUL])
    \<and> pipe_bytes (notifyThread (ConnectionHandler\<lparr>pipe_bytes := 1\<rparr>)) = length [NUL, NUL]
    \<and> (case pipe_read (pipe_ref True 1) example_pipe 64 ([], [NUL]) of (Inr (n, d), s') \<Rightarrow> drain 1 = length (snd s') | _ \<Rightarrow> False)"
proof -
  have "pipe_write (pipe_ref True 1) example_pipe [NUL] 1 ([], [NUL]) = Some (Inr (), [], [NUL, NUL])"
    by (subst pipe_write.simps) (simp add: pipe_ref_def)
  moreover have "stream_laws (pipe_ref True 1) example_pipe snd" by (rule pipe_ref_laws(2)) simp
  moreover have "pipe_read (pipe_ref True 1) example_pipe 64 ([], [NUL]) = (Inr (1, [NUL]), [], [])" by (simp add: pipe_read_def pipe_ref_def)
  ultimately show ?thesis
    using wake_ups_through_the_pipe [of "pipe_ref True 1" example_pipe snd "ConnectionHandler\<lparr>pipe_bytes := 1\<rparr>" "([], [NUL])"] by simp
qed

end
