(* ===== verification/ThreadLocal.thy ===== *)
theory ThreadLocal
  imports Exceptions
begin

text \<open>
  \<^verbatim>\<open>lib/Acari/ThreadLocalStorage.cpp\<close>, the POSIX side: keys for values of which every thread has its own. The functions of the
  thread library are a record over an abstract state; a key is a pointer to a \<open>pthread_key_t\<close> on the heap.
\<close>

section \<open>The thread library\<close>

text \<open>
  Threads, keys, pointers and deleters are numbers. \<open>pthread_key_create\<close> gives its result and the key; the result of the
  others is 0 or an error number, 22 being \<open>EINVAL\<close>.
\<close>

record 's pthread =
  pthread_key_create :: "nat \<Rightarrow> 's \<Rightarrow> (int \<times> nat) \<times> 's"
  pthread_key_delete :: "nat \<Rightarrow> 's \<Rightarrow> int \<times> 's"
  pthread_setspecific :: "nat \<Rightarrow> nat \<Rightarrow> nat \<Rightarrow> 's \<Rightarrow> int \<times> 's"
  pthread_getspecific :: "nat \<Rightarrow> nat \<Rightarrow> 's \<Rightarrow> nat option"

record 's tls =
  key_cells :: "nat \<rightharpoonup> nat"
  next_key_cell :: nat
  threads :: 's

section \<open>The operations\<close>

text \<open>The result of \<open>acquireKey\<close> is the address of the cell.\<close>

definition acquireKey :: "'s pthread \<Rightarrow> nat \<Rightarrow> 's tls \<Rightarrow> (exn + nat) \<times> 's tls" where
  "acquireKey pt deleter w = (case pthread_key_create pt deleter (threads w) of ((rv, k), t) \<Rightarrow>
     let a = next_key_cell w; w = w\<lparr>key_cells := (key_cells w)(a \<mapsto> k), next_key_cell := Suc a, threads := t\<rparr> in
     if rv \<noteq> 0 then (Inl bad_alloc, w\<lparr>key_cells := (key_cells w)(a := None)\<rparr>) else (Inr a, w))"

definition releaseKey :: "'s pthread \<Rightarrow> nat \<Rightarrow> 's tls \<Rightarrow> (exn + unit) \<times> 's tls" where
  "releaseKey pt a w = (case key_cells w a of
      None \<Rightarrow> (Inl (logic_error ''dangling key''), w)
    | Some k \<Rightarrow> (case pthread_key_delete pt k (threads w) of (rv, t) \<Rightarrow>
        (if rv = 0 then Inr () else Inl (logic_error ''assert(rv == 0)''), w\<lparr>threads := t\<rparr>)))"

definition setValue :: "'s pthread \<Rightarrow> nat \<Rightarrow> nat \<Rightarrow> nat \<Rightarrow> 's tls \<Rightarrow> (exn + unit) \<times> 's tls" where
  "setValue pt thread a v w = (case key_cells w a of
      None \<Rightarrow> (Inl (logic_error ''dangling key''), w)
    | Some k \<Rightarrow> (case pthread_setspecific pt k thread v (threads w) of (rv, t) \<Rightarrow>
        (if rv = 22 then Inl (logic_error ''Invalid key'') else if rv \<noteq> 0 then Inl bad_alloc else Inr (), w\<lparr>threads := t\<rparr>)))"

definition getValue :: "'s pthread \<Rightarrow> nat \<Rightarrow> nat \<Rightarrow> 's tls \<Rightarrow> nat option" where
  "getValue pt thread a w = (case key_cells w a of None \<Rightarrow> None | Some k \<Rightarrow> pthread_getspecific pt k thread (threads w))"

section \<open>Values\<close>

text \<open>
  Documented behaviour: setting the value of a thread sets that value and no other, or fails and sets none.
\<close>

definition specific_laws :: "'s pthread \<Rightarrow> bool" where
  "specific_laws pt \<longleftrightarrow> (\<forall>k t v s. case pthread_setspecific pt k t v s of (rv, s') \<Rightarrow>
     (\<forall>k' t'. pthread_getspecific pt k' t' s'
        = (if rv = 0 \<and> k' = k \<and> t' = t then Some v else pthread_getspecific pt k' t' s)))"

lemma setValue_getValue:
  assumes "specific_laws pt" "setValue pt t a v w = (r, w')"
  shows "getValue pt t' a w' = (if r = Inr () \<and> t' = t then Some v else getValue pt t' a w)" "key_cells w' = key_cells w"
proof -
  have "getValue pt t' a w' = (if r = Inr () \<and> t' = t then Some v else getValue pt t' a w) \<and> key_cells w' = key_cells w"
  proof (cases "key_cells w a")
    case (Some k)
    obtain rv s' where s: "pthread_setspecific pt k t v (threads w) = (rv, s')" by fastforce
    have g: "pthread_getspecific pt k t' s' = (if rv = 0 \<and> t' = t then Some v else pthread_getspecific pt k t' (threads w))"
      using assms(1) [unfolded specific_laws_def, THEN spec, THEN spec, THEN spec, THEN spec, of k t v "threads w"] s by auto
    show ?thesis using assms(2) Some s g by (auto simp: setValue_def getValue_def split: if_splits)
  qed (use assms(2) in \<open>auto simp: setValue_def getValue_def\<close>)
  then show "getValue pt t' a w' = (if r = Inr () \<and> t' = t then Some v else getValue pt t' a w)" "key_cells w' = key_cells w" by auto
qed

text \<open>A key that is released keeps its cell: nothing deletes it.\<close>

lemma released_key_keeps_its_cell:
  assumes "acquireKey pt d w = (Inr a, w1)" "releaseKey pt a w1 = (r, w2)"
  shows "a \<in> dom (key_cells w2)"
  using assms by (auto simp: acquireKey_def releaseKey_def Let_def split: prod.splits if_splits option.splits)

text \<open>One that could not be created does not.\<close>

lemma failed_key_leaves_no_cell:
  "acquireKey pt d w = (Inl e, w') \<Longrightarrow> next_key_cell w \<notin> dom (key_cells w) \<Longrightarrow> key_cells w' = key_cells w \<and> e = bad_alloc"
  by (auto simp: acquireKey_def Let_def fun_upd_idem split: prod.splits if_splits)

end
