(* ===== verification/OpenSSLInit.thy ===== *)
theory OpenSSLInit
  imports ThreadLocal "HOL-Library.Word"
begin

text \<open>
  \<^verbatim>\<open>lib/Scorpion/Private/OpenSSL.cpp\<close>: the static object that makes OpenSSL fit for threads: a mutex for each of its locks, the
  call-back that locks them, the numbers of the threads, and the seed of the random numbers.
\<close>

section \<open>State\<close>

text \<open>The calls made to mutexes and to OpenSSL, in their order; a mutex is the address of its \<open>Lock\<close>.\<close>

datatype mutex_call = Mutex_init nat | Mutex_lock nat | Mutex_unlock nat | Mutex_destroy nat

datatype seed_source = Load_file string | Egd string

datatype library_call =
    SSL_library_init | CRYPTO_set_locking_callback | ERR_load_CRYPTO_strings | ERR_load_SSL_strings
  | SSL_load_error_strings | OpenSSL_add_all_algorithms | RAND_source seed_source

text \<open>
  \<open>instance_set\<close> says that \<open>instance__\<close> points to the object; \<open>id_cells\<close> are the numbers on the heap, to which the values of
  the threads point.
\<close>

record 's init_state =
  locks :: "nat option list"
  tls_key :: nat
  next_thread_id :: "32 word"
  instance_set :: bool
  next_lock :: nat
  mutex_calls :: "mutex_call list"
  library_calls :: "library_call list"
  id_cells :: "nat \<rightharpoonup> 32 word"
  next_id_cell :: nat
  storage :: "'s tls"

section \<open>The random numbers\<close>

text \<open>
  \<open>got\<close> gives the number of bytes a source yields. The sources are tried until one yields all; the macros at their defaults.
\<close>

definition use_dev_random :: bool where "use_dev_random = False"
definition seed_size :: int where "seed_size = 255"
definition egd_devnames :: "string list" where
  "egd_devnames = [''/var/run/egd-pool'', ''/dev/egd-pool'', ''/etc/egd-pool'', ''/etc/entropy'']"

definition seed_sources :: "seed_source list" where
  "seed_sources = (if use_dev_random then [Load_file ''/dev/random''] else []) @ [Load_file ''/dev/urandom''] @ map Egd egd_devnames"

fun try_sources :: "(seed_source \<Rightarrow> int) \<Rightarrow> seed_source list \<Rightarrow> 's init_state \<Rightarrow> 's init_state" where
  "try_sources got [] w = w"
| "try_sources got (x # xs) w =
     (let w = w\<lparr>library_calls := library_calls w @ [RAND_source x]\<rparr> in if got x = seed_size then w else try_sources got xs w)"

definition seedPRNG :: "(seed_source \<Rightarrow> int) \<Rightarrow> 's init_state \<Rightarrow> 's init_state" where
  "seedPRNG got w = try_sources got seed_sources w"

section \<open>Locks\<close>

text \<open>The loop of the constructor; \<open>enough i\<close> says whether there is memory for the lock at \<open>i\<close>.\<close>

definition new_Lock :: "nat \<Rightarrow> 's init_state \<Rightarrow> 's init_state" where
  "new_Lock i w = w\<lparr>locks := (locks w)[i := Some (next_lock w)], next_lock := Suc (next_lock w),
     mutex_calls := mutex_calls w @ [Mutex_init (next_lock w)]\<rparr>"

fun new_locks :: "(nat \<Rightarrow> bool) \<Rightarrow> nat list \<Rightarrow> 's init_state \<Rightarrow> (exn + unit) \<times> 's init_state" where
  "new_locks enough [] w = (Inr (), w)"
| "new_locks enough (i # is) w = (if enough i then new_locks enough is (new_Lock i w) else (Inl bad_alloc, w))"

text \<open>\<open>delete\<close> of a null pointer does nothing.\<close>

definition destroy_calls :: "nat option list \<Rightarrow> mutex_call list" where
  "destroy_calls ls = concat (map (\<lambda>l. case l of None \<Rightarrow> [] | Some m \<Rightarrow> [Mutex_destroy m]) ls)"

definition cleanup :: "'s init_state \<Rightarrow> 's init_state" where
  "cleanup w = (if instance_set w then w\<lparr>locks := map (\<lambda>_. None) (locks w), mutex_calls := mutex_calls w @ destroy_calls (locks w)\<rparr> else w)"

text \<open>The constructor and the destructor; \<open>num_locks\<close> is \<open>CRYPTO_num_locks()\<close>, \<open>free_\<close> the deleter of the numbers.\<close>

definition OpenSSLInitializer ::
  "'s pthread \<Rightarrow> nat \<Rightarrow> nat \<Rightarrow> (nat \<Rightarrow> bool) \<Rightarrow> (seed_source \<Rightarrow> int) \<Rightarrow> 's init_state \<Rightarrow> (exn + unit) \<times> 's init_state" where
  "OpenSSLInitializer pt free num_locks enough got w =
     (let w = w\<lparr>locks := replicate num_locks None\<rparr> in
      case acquireKey pt free (storage w) of
        (Inl e, t) \<Rightarrow> (Inl e, w\<lparr>storage := t\<rparr>)
      | (Inr k, t) \<Rightarrow>
          let w = w\<lparr>storage := t, tls_key := k, next_thread_id := 0\<rparr> in
          if instance_set w then (Inl (logic_error ''assert(instance__ == 0)''), w)
          else (case new_locks enough [0..<num_locks] (w\<lparr>instance_set := True\<rparr>) of
              (Inl e, w) \<Rightarrow> (Inl e, cleanup w)
            | (Inr _, w) \<Rightarrow>
                (Inr (), seedPRNG got (w\<lparr>library_calls := library_calls w @ [SSL_library_init, CRYPTO_set_locking_callback,
                   ERR_load_CRYPTO_strings, ERR_load_SSL_strings, SSL_load_error_strings, OpenSSL_add_all_algorithms]\<rparr>))))"

definition OpenSSLInitializer_destroy :: "'s pthread \<Rightarrow> 's init_state \<Rightarrow> (exn + unit) \<times> 's init_state" where
  "OpenSSLInitializer_destroy pt w =
     (let w = cleanup w in case releaseKey pt (tls_key w) (storage w) of (r, t) \<Rightarrow> (r, w\<lparr>storage := t\<rparr>))"

text \<open>The call-back that OpenSSL has. \<open>None\<close> is the use of a null pointer.\<close>

definition crypto_lock :: "32 word" where "crypto_lock = 1"
definition crypto_unlock :: "32 word" where "crypto_unlock = 2"

definition lock_callback :: "32 word \<Rightarrow> int \<Rightarrow> 's init_state \<Rightarrow> ((exn + unit) \<times> 's init_state) option" where
  "lock_callback mode lock_id w =
     (if \<not> instance_set w then None
      else if lock_id < 0 then Some (Inl (logic_error ''assert(lock_id >= 0)''), w)
      else if length (locks w) \<le> nat lock_id then Some (Inl (logic_error ''assert(lock_id < locks_.size())''), w)
      else if and mode crypto_lock \<noteq> 0 then
        (case locks w ! nat lock_id of None \<Rightarrow> None | Some m \<Rightarrow> Some (Inr (), w\<lparr>mutex_calls := mutex_calls w @ [Mutex_lock m]\<rparr>))
      else if and mode crypto_unlock \<noteq> 0 then
        (case locks w ! nat lock_id of None \<Rightarrow> None | Some m \<Rightarrow> Some (Inr (), w\<lparr>mutex_calls := mutex_calls w @ [Mutex_unlock m]\<rparr>))
      else Some (Inr (), w))"

section \<open>The numbers of the threads\<close>

text \<open>\<open>None\<close> is the use of a pointer that points to nothing.\<close>

definition getThreadId :: "'s pthread \<Rightarrow> nat \<Rightarrow> 's init_state \<Rightarrow> (exn + 32 word) option \<times> 's init_state" where
  "getThreadId pt thread w = (if \<not> instance_set w then (None, w) else case getValue pt thread (tls_key w) (storage w) of
      None \<Rightarrow>
        let retval = next_thread_id w; a = next_id_cell w;
            w = w\<lparr>next_thread_id := retval + 1, id_cells := (id_cells w)(a \<mapsto> retval), next_id_cell := Suc a\<rparr>
        in (case setValue pt thread (tls_key w) a (storage w) of
              (Inl e, t) \<Rightarrow> (Some (Inl e), w\<lparr>storage := t\<rparr>)
            | (Inr _, t) \<Rightarrow> (Some (Inr retval), w\<lparr>storage := t\<rparr>))
    | Some v \<Rightarrow> (map_option Inr (id_cells w v), w))"

section \<open>The locks live while they are used\<close>

text \<open>The mutexes that exist behind some calls, if each call was allowed: a mutex is initialised once and used only until it is destroyed.\<close>

fun run_calls :: "mutex_call list \<Rightarrow> nat list \<Rightarrow> nat list option" where
  "run_calls [] l = Some l"
| "run_calls (Mutex_init m # cs) l = (if m \<in> set l then None else run_calls cs (l @ [m]))"
| "run_calls (Mutex_lock m # cs) l = (if m \<in> set l then run_calls cs l else None)"
| "run_calls (Mutex_unlock m # cs) l = (if m \<in> set l then run_calls cs l else None)"
| "run_calls (Mutex_destroy m # cs) l = (if m \<in> set l then run_calls cs (remove1 m l) else None)"

lemma run_calls_append: "run_calls (cs @ ds) l = Option.bind (run_calls cs l) (run_calls ds)"
  by (induction cs l rule: run_calls.induct) auto

fun callbacks :: "(32 word \<times> int) list \<Rightarrow> 's init_state \<Rightarrow> 's init_state option" where
  "callbacks [] w = Some w"
| "callbacks ((mode, i) # cs) w = (case lock_callback mode i w of None \<Rightarrow> None | Some (r, w') \<Rightarrow> callbacks cs w')"

text \<open>The first \<open>n\<close> locks exist, and no others, at addresses below \<open>next_lock\<close>.\<close>

definition locks_ok :: "nat \<Rightarrow> 's init_state \<Rightarrow> bool" where
  "locks_ok n w \<longleftrightarrow> instance_set w \<and> n \<le> length (locks w) \<and> (\<exists>ms. distinct ms \<and> (\<forall>m \<in> set ms. m < next_lock w)
     \<and> locks w = map Some ms @ replicate (length (locks w) - n) None \<and> length ms = n \<and> run_calls (mutex_calls w) [] = Some ms)"

lemma new_Lock_ok:
  assumes "locks_ok n w" "n < length (locks w)"
  shows "locks_ok (Suc n) (new_Lock n w)"
proof -
  obtain ms where ms: "distinct ms" "\<forall>m \<in> set ms. m < next_lock w" "locks w = map Some ms @ replicate (length (locks w) - n) None"
    "length ms = n" "run_calls (mutex_calls w) [] = Some ms" "instance_set w"
    using assms(1) by (auto simp: locks_ok_def)
  have "replicate (length (locks w) - n) (None :: nat option) = None # replicate (length (locks w) - Suc n) None"
    using assms(2) by (metis Suc_diff_Suc replicate_Suc)
  then have "(locks w)[n := Some (next_lock w)] = map Some (ms @ [next_lock w]) @ replicate (length (locks w) - Suc n) None"
    by (subst ms(3)) (simp add: list_update_append ms(4))
  with ms assms(2) show ?thesis
    by (auto simp: locks_ok_def new_Lock_def run_calls_append less_Suc_eq intro!: exI [of _ "ms @ [next_lock w]"])
qed

lemma new_locks_ok:
  "locks_ok i w \<Longrightarrow> length (locks w) = n \<Longrightarrow> i \<le> n \<Longrightarrow> new_locks enough [i..<n] w = (r, w') \<Longrightarrow>
    \<exists>k. locks_ok k w' \<and> length (locks w') = n \<and> (r = Inr () \<longrightarrow> k = n) \<and> storage w' = storage w"
proof (induction "n - i" arbitrary: i w)
  case (Suc d)
  then have "[i..<n] = i # [Suc i..<n]" by (simp add: upt_conv_Cons)
  with Suc.prems Suc.hyps(1) [of "Suc i" "new_Lock i w"] Suc.hyps(2) new_Lock_ok [of i w] show ?case
    by (auto simp: new_Lock_def split: if_splits)
qed auto

lemma destroy_some: "destroy_calls (map Some ms @ replicate k None) = map Mutex_destroy ms"
  by (induction ms) (simp_all add: destroy_calls_def)

lemma run_destroy: "distinct ms \<Longrightarrow> run_calls (map Mutex_destroy ms) ms = Some []"
  by (induction ms) simp_all

lemma cleanup_ok:
  assumes "locks_ok n w"
  shows "run_calls (mutex_calls (cleanup w)) [] = Some [] \<and> locks (cleanup w) = replicate (length (locks w)) None"
proof -
  obtain ms where ms: "distinct ms" "locks w = map Some ms @ replicate (length (locks w) - n) None"
    "run_calls (mutex_calls w) [] = Some ms" "instance_set w"
    using assms by (auto simp: locks_ok_def)
  have "destroy_calls (locks w) = map Mutex_destroy ms" by (subst ms(2)) (rule destroy_some)
  then show ?thesis using ms(1,3,4) by (simp add: cleanup_def run_calls_append run_destroy map_replicate_const)
qed

lemma lock_callback_ok:
  assumes "locks_ok n w" "length (locks w) = n"
  shows "\<exists>r w'. lock_callback mode i w = Some (r, w') \<and> locks_ok n w' \<and> length (locks w') = n"
proof -
  obtain ms where ms: "distinct ms" "\<forall>m \<in> set ms. m < next_lock w" "locks w = map Some ms" "length ms = n"
    "run_calls (mutex_calls w) [] = Some ms" "instance_set w"
    using assms by (auto simp: locks_ok_def)
  show ?thesis
  proof (cases "i < 0 \<or> n \<le> nat i")
    case False
    with ms have "ms ! nat i \<in> set ms" "locks w ! nat i = Some (ms ! nat i)" by auto
    with ms False show ?thesis by (auto simp: lock_callback_def locks_ok_def run_calls_append)
  qed (use ms assms in \<open>auto simp: lock_callback_def\<close>)
qed

lemma callbacks_ok:
  "locks_ok n w \<Longrightarrow> length (locks w) = n \<Longrightarrow> \<exists>w'. callbacks cs w = Some w' \<and> locks_ok n w' \<and> length (locks w') = n"
proof (induction cs arbitrary: w)
  case (Cons c cs)
  obtain mode i where c: "c = (mode, i)" by (cases c) auto
  obtain r w1 where 1: "lock_callback mode i w = Some (r, w1)" "locks_ok n w1" "length (locks w1) = n"
    using lock_callback_ok [OF Cons.prems, of mode i] by blast
  obtain w2 where "callbacks cs w1 = Some w2" "locks_ok n w2" "length (locks w2) = n" using Cons.IH [OF 1(2,3)] by blast
  with 1 c show ?case by auto
qed auto

lemma try_sources_keeps: "mutex_calls (try_sources got xs w) = mutex_calls w \<and> locks (try_sources got xs w) = locks w
    \<and> next_lock (try_sources got xs w) = next_lock w \<and> instance_set (try_sources got xs w) = instance_set w"
  by (induction xs arbitrary: w) (simp_all add: Let_def)

text \<open>
  C18: whatever OpenSSL locks and unlocks between the construction and the destruction of the object, with any mode and number,
  every mutex is initialised once, used only while it exists, and destroyed; a construction that runs out of memory
  destroys those it has made. But the call-back stays with OpenSSL: behind the destructor it uses a null pointer for
  every lock it is called for (and takes it out of a vector that ended with the object; its contents are kept here).
\<close>

theorem locks_live_while_they_are_used:
  assumes "mutex_calls w = []" "\<not> instance_set w" "OpenSSLInitializer pt free n enough got w = (r, w1)"
  shows "case r of
      Inl e \<Rightarrow> run_calls (mutex_calls w1) [] = Some []
    | Inr _ \<Rightarrow> (case callbacks cs w1 of None \<Rightarrow> False
        | Some w2 \<Rightarrow> (case OpenSSLInitializer_destroy pt w2 of (_, w3) \<Rightarrow>
            run_calls (mutex_calls w3) [] = Some []
            \<and> (\<forall>i. 0 \<le> i \<and> i < int n \<longrightarrow> lock_callback crypto_lock i w3 = None \<and> lock_callback crypto_unlock i w3 = None)))"
proof -
  obtain k t where k: "acquireKey pt free (storage w) = (k, t)" by fastforce
  show ?thesis
  proof (cases k)
    case (Inr a)
    let ?w = "w\<lparr>locks := replicate n None, storage := t, tls_key := a, next_thread_id := 0, instance_set := True\<rparr>"
    obtain x w' where n: "new_locks enough [0..<n] ?w = (x, w')" by fastforce
    have "locks_ok 0 ?w" using assms(1) by (simp add: locks_ok_def)
    from new_locks_ok [OF this _ _ n] obtain j where j: "locks_ok j w'" "length (locks w') = n" "x = Inr () \<longrightarrow> j = n" by auto
    show ?thesis
    proof (cases x)
      case (Inl e)
      then have "w1 = cleanup w'" "r = Inl e" using assms(2,3) k Inr n by (simp_all add: OpenSSLInitializer_def Let_def)
      then show ?thesis using cleanup_ok [OF j(1)] by simp
    next
      case (Inr y)
      let ?u = "w'\<lparr>library_calls := library_calls w' @ [SSL_library_init, CRYPTO_set_locking_callback,
                   ERR_load_CRYPTO_strings, ERR_load_SSL_strings, SSL_load_error_strings, OpenSSL_add_all_algorithms]\<rparr>"
      have w1: "w1 = seedPRNG got ?u" "r = Inr ()"
        using assms(2,3) k \<open>k = Inr a\<close> n Inr by (simp_all add: OpenSSLInitializer_def Let_def)
      have "locks_ok n w1" "length (locks w1) = n"
        using j Inr try_sources_keeps [of got seed_sources ?u] unfolding w1 seedPRNG_def by (simp_all add: locks_ok_def)
      from callbacks_ok [OF this, of cs] obtain w2 where w2: "callbacks cs w1 = Some w2" "locks_ok n w2" "length (locks w2) = n" by blast
      have c: "instance_set (cleanup w2)" using w2(2) by (simp add: locks_ok_def cleanup_def)
      have "lock_callback m i (w'\<lparr>storage := s\<rparr>) = None"
        if "m = crypto_lock \<or> m = crypto_unlock" "0 \<le> i" "i < int n" "locks w' = replicate n None" "instance_set w'"
        for m i s and w' :: "'a init_state"
        using that by (auto simp: lock_callback_def crypto_lock_def crypto_unlock_def)
      then show ?thesis
        using w2 w1(2) cleanup_ok [OF w2(2)] c by (auto simp: OpenSSLInitializer_destroy_def Let_def split: prod.splits)
    qed
  qed (use assms k in \<open>auto simp: OpenSSLInitializer_def Let_def\<close>)
qed

section \<open>Threads have numbers of their own\<close>

fun thread_ids :: "'s pthread \<Rightarrow> nat list \<Rightarrow> 's init_state \<Rightarrow> (exn + 32 word) option list \<times> 's init_state" where
  "thread_ids pt [] w = ([], w)"
| "thread_ids pt (t # ts) w = (case getThreadId pt t w of (r, w1) \<Rightarrow> case thread_ids pt ts w1 of (rs, w2) \<Rightarrow> (r # rs, w2))"

text \<open>\<open>f\<close> numbers the threads that have a value; \<open>n\<close> numbers were given away, some of them perhaps to no thread.\<close>

definition numbering :: "'s pthread \<Rightarrow> (nat \<rightharpoonup> nat) \<Rightarrow> nat \<Rightarrow> 's init_state \<Rightarrow> bool" where
  "numbering pt f n w \<longleftrightarrow> instance_set w \<and> next_thread_id w = word_of_nat n \<and> inj_on f (dom f) \<and> (\<forall>i \<in> ran f. i < n)
     \<and> (\<forall>v \<in> dom (id_cells w). v < next_id_cell w)
     \<and> (\<forall>t. case f t of
          None \<Rightarrow> getValue pt t (tls_key w) (storage w) = None
        | Some i \<Rightarrow> \<exists>v. getValue pt t (tls_key w) (storage w) = Some v \<and> id_cells w v = Some (word_of_nat i))"

lemma numberingD:
  assumes "numbering pt f n w"
  shows "instance_set w" "next_thread_id w = word_of_nat n" "inj_on f (dom f)" "\<forall>i \<in> ran f. i < n"
    "\<forall>v \<in> dom (id_cells w). v < next_id_cell w"
    "f t = None \<Longrightarrow> getValue pt t (tls_key w) (storage w) = None"
    "f t = Some i \<Longrightarrow> \<exists>v. getValue pt t (tls_key w) (storage w) = Some v \<and> id_cells w v = Some (word_of_nat i)"
proof -
  have all: "case f t of None \<Rightarrow> getValue pt t (tls_key w) (storage w) = None
      | Some i \<Rightarrow> \<exists>v. getValue pt t (tls_key w) (storage w) = Some v \<and> id_cells w v = Some (word_of_nat i)" for t
    using assms unfolding numbering_def by blast
  show "f t = None \<Longrightarrow> getValue pt t (tls_key w) (storage w) = None"
    "f t = Some i \<Longrightarrow> \<exists>v. getValue pt t (tls_key w) (storage w) = Some v \<and> id_cells w v = Some (word_of_nat i)"
    using all [of t] by auto
qed (use assms in \<open>simp_all add: numbering_def\<close>)

lemma numberingI:
  assumes "instance_set w" "next_thread_id w = word_of_nat n" "inj_on f (dom f)" "\<forall>i \<in> ran f. i < n"
    "\<forall>v \<in> dom (id_cells w). v < next_id_cell w"
    "\<And>t. case f t of None \<Rightarrow> getValue pt t (tls_key w) (storage w) = None
        | Some i \<Rightarrow> \<exists>v. getValue pt t (tls_key w) (storage w) = Some v \<and> id_cells w v = Some (word_of_nat i)"
  shows "numbering pt f n w"
  using assms unfolding numbering_def by blast

lemma numbering_step:
  assumes "specific_laws pt" "numbering pt f n w" "getThreadId pt t w = (r, w')"
  shows "\<exists>f' n'. numbering pt f' n' w' \<and> n' \<le> Suc n \<and> f \<subseteq>\<^sub>m f'
    \<and> r \<noteq> None \<and> (\<forall>a. r = Some (Inr a) \<longrightarrow> (\<exists>k. f' t = Some k \<and> a = word_of_nat k))"
proof (cases "f t")
  case (Some k)
  from numberingD(1,7) [OF assms(2)] Some
  obtain v where v: "getValue pt t (tls_key w) (storage w) = Some v" "id_cells w v = Some (word_of_nat k)" "instance_set w" by blast
  with assms(3) have "r = Some (Inr (word_of_nat k))" "w' = w" by (simp_all add: getThreadId_def)
  with assms(2) Some show ?thesis by (intro exI [of _ f] exI [of _ n]) simp
next
  case None
  note num = numberingD [OF assms(2)]
  let ?a = "next_id_cell w"
  have v: "getValue pt t (tls_key w) (storage w) = None" "instance_set w" using num(1,6) None by auto
  obtain q s where q: "setValue pt t (tls_key w) ?a (storage w) = (q, s)" by fastforce
  note get = setValue_getValue(1) [OF assms(1) q]
  let ?w = "w\<lparr>next_thread_id := next_thread_id w + 1, id_cells := (id_cells w)(?a \<mapsto> next_thread_id w), next_id_cell := Suc ?a, storage := s\<rparr>"
  have w': "w' = ?w" "r = Some (case q of Inl e \<Rightarrow> Inl e | Inr _ \<Rightarrow> Inr (next_thread_id w))"
    using assms(3) v q by (auto simp: getThreadId_def Let_def split: sum.splits)
  have old: "v \<noteq> ?a" if "id_cells w v = Some x" for v x using num(5) that by blast
  have cells: "\<exists>v. getValue pt t' (tls_key w) s = Some v \<and> ((id_cells w)(?a \<mapsto> next_thread_id w)) v = Some (word_of_nat i)"
    if i: "f t' = Some i" for t' i
  proof -
    obtain v where "getValue pt t' (tls_key w) (storage w) = Some v" "id_cells w v = Some (word_of_nat i)"
      using num(7) [OF i] by blast
    moreover have "t' \<noteq> t" using i None by auto
    ultimately show ?thesis using old get by auto
  qed
  have none: "getValue pt t' (tls_key w) s = None" if "f t' = None" "q \<noteq> Inr () \<or> t' \<noteq> t" for t'
  proof -
    have "getValue pt t' (tls_key w) (storage w) = None" by (rule num(6) [OF that(1)])
    then show ?thesis using that(2) get by auto
  qed
  have less: "\<forall>v \<in> dom (id_cells ?w). v < next_id_cell ?w" using num(5) by (auto simp: less_SucI)
  show ?thesis
  proof (cases q)
    case (Inl e)
    have "numbering pt f (Suc n) ?w"
      using num(1-4) less cells none Inl unfolding numbering_def by (auto simp: less_SucI split: option.splits)
    then show ?thesis using w' Inl by (intro exI [of _ f] exI [of _ "Suc n"]) simp
  next
    case (Inr x)
    let ?f = "f(t \<mapsto> n)"
    have inj: "inj_on ?f (dom ?f)" using num(3,4) by (auto simp: inj_on_def ran_def)
    have less_n: "\<forall>i \<in> ran ?f. i < Suc n" using num(4) None by (auto simp: less_SucI)
    have all: "case ?f t' of None \<Rightarrow> getValue pt t' (tls_key ?w) (storage ?w) = None
        | Some i \<Rightarrow> \<exists>v. getValue pt t' (tls_key ?w) (storage ?w) = Some v \<and> id_cells ?w v = Some (word_of_nat i)" for t'
      using cells [of t'] none [of t'] num(2) Inr by (cases "t' = t") (auto simp: get split: option.splits)
    have "numbering pt ?f (Suc n) ?w"
      by (rule numberingI [OF _ _ inj less_n less all]) (use num(1,2) in simp_all)
    moreover have "f \<subseteq>\<^sub>m ?f" using None by (auto simp: map_le_def)
    ultimately show ?thesis using w' Inr num(2) by (intro exI [of _ ?f] exI [of _ "Suc n"]) simp
  qed
qed

lemma numbering_run:
  assumes "specific_laws pt"
  shows "numbering pt f n w \<Longrightarrow> thread_ids pt ts w = (rs, w') \<Longrightarrow> \<exists>f' n'. numbering pt f' n' w' \<and> n' \<le> n + length ts \<and> f \<subseteq>\<^sub>m f'
    \<and> length rs = length ts
    \<and> (\<forall>i < length ts. rs ! i \<noteq> None \<and> (\<forall>a. rs ! i = Some (Inr a) \<longrightarrow> (\<exists>k. f' (ts ! i) = Some k \<and> a = word_of_nat k)))"
proof (induction ts arbitrary: f n w rs)
  case (Cons t ts)
  obtain r w1 where 1: "getThreadId pt t w = (r, w1)" by fastforce
  obtain qs where 2: "thread_ids pt ts w1 = (qs, w')" "rs = r # qs" using Cons.prems(2) 1 by (auto split: prod.splits)
  obtain f1 n1 where f1: "numbering pt f1 n1 w1" "n1 \<le> Suc n" "f \<subseteq>\<^sub>m f1" "r \<noteq> None"
    "\<forall>a. r = Some (Inr a) \<longrightarrow> (\<exists>k. f1 t = Some k \<and> a = word_of_nat k)"
    using numbering_step [OF assms Cons.prems(1) 1] by blast
  obtain f2 n2 where f2: "numbering pt f2 n2 w'" "n2 \<le> n1 + length ts" "f1 \<subseteq>\<^sub>m f2" "length qs = length ts"
    "\<forall>i < length ts. qs ! i \<noteq> None \<and> (\<forall>a. qs ! i = Some (Inr a) \<longrightarrow> (\<exists>k. f2 (ts ! i) = Some k \<and> a = word_of_nat k))"
    using Cons.IH [OF f1(1) 2(1)] by blast
  have "\<exists>k. f2 t = Some k \<and> a = word_of_nat k" if a: "r = Some (Inr a)" for a
  proof -
    obtain k where k: "f1 t = Some k" "a = word_of_nat k" using f1(5) a by blast
    then have "f2 t = Some k" using f2(3) by (auto simp: map_le_def dom_def)
    with k(2) show ?thesis by blast
  qed
  then have "\<forall>i < length (t # ts). rs ! i \<noteq> None
      \<and> (\<forall>a. rs ! i = Some (Inr a) \<longrightarrow> (\<exists>k. f2 ((t # ts) ! i) = Some k \<and> a = word_of_nat k))"
    using f1(4) f2(5) by (auto simp: 2(2) nth_Cons' split: if_splits)
  then show ?case using f1 f2 2(2) map_le_trans [OF f1(3) f2(3)] by (intro exI [of _ f2] exI [of _ n2]) simp
qed (auto intro: map_le_refl)

text \<open>
  C12: the numbers that \<open>getThreadId\<close> gives identify the threads: in every sequence of at most \<open>2 ^ 32\<close> calls, calls of the same thread
  give the same number and calls of different threads different ones, whichever calls fail because a value cannot be set.
\<close>

theorem thread_ids_identify_threads:
  assumes "specific_laws pt" "instance_set w" "next_thread_id w = 0" "id_cells w = Map.empty"
    and "\<forall>t. getValue pt t (tls_key w) (storage w) = None" "length ts \<le> 2 ^ 32"
    and "i < length ts" "j < length ts"
    and "fst (thread_ids pt ts w) ! i = Some (Inr a)" "fst (thread_ids pt ts w) ! j = Some (Inr b)"
  shows "a = b \<longleftrightarrow> ts ! i = ts ! j"
proof -
  obtain rs w' where r: "thread_ids pt ts w = (rs, w')" by fastforce
  have "numbering pt Map.empty 0 w" using assms by (simp add: numbering_def)
  from numbering_run [OF assms(1) this r] obtain f n where f: "numbering pt f n w'" "n \<le> length ts"
    "\<forall>i < length ts. \<forall>a. rs ! i = Some (Inr a) \<longrightarrow> (\<exists>k. f (ts ! i) = Some k \<and> a = word_of_nat k)"
    by auto
  obtain k where k: "f (ts ! i) = Some k" "a = word_of_nat k" using f(3) assms(7,9) by (auto simp: r)
  obtain l where l: "f (ts ! j) = Some l" "b = word_of_nat l" using f(3) assms(8,10) by (auto simp: r)
  have "k < n" "l < n" using numberingD(4) [OF f(1)] k(1) l(1) by (auto intro: ranI)
  then have less: "k < 2 ^ 32" "l < 2 ^ 32" using f(2) assms(6) by linarith+
  have same: "k = l" if "word_of_nat k = (word_of_nat l :: 32 word)"
  proof -
    have "unat (word_of_nat k :: 32 word) = unat (word_of_nat l :: 32 word)" using that by simp
    then show ?thesis using less by (simp add: unat_of_nat)
  qed
  have "k = l \<longrightarrow> ts ! i = ts ! j"
    using inj_onD [OF numberingD(3) [OF f(1)], of "ts ! i" "ts ! j"] k(1) l(1) by (simp add: domI)
  then show ?thesis using same k l by auto
qed

section \<open>The seed\<close>

text \<open>The sources that are tried: all up to the first that yields enough; when none does, nothing is said.\<close>

lemma seed_tries:
  "library_calls (try_sources got xs w) = library_calls w
    @ map RAND_source (takeWhile (\<lambda>x. got x \<noteq> seed_size) xs @ take 1 (dropWhile (\<lambda>x. got x \<noteq> seed_size) xs))"
  by (induction xs arbitrary: w) (simp_all add: Let_def)

section \<open>A thread library for concrete runs\<close>

definition pthread_ref :: "((nat \<times> nat) \<rightharpoonup> nat) pthread" where
  "pthread_ref = \<lparr>pthread_key_create = (\<lambda>_ s. ((0, 3), s)), pthread_key_delete = (\<lambda>_ s. (0, s)),
     pthread_setspecific = (\<lambda>k t v s. if t = 9 then (12, s) else (0, s((k, t) \<mapsto> v))), pthread_getspecific = (\<lambda>k t s. s (k, t))\<rparr>"

definition init_ref :: "((nat \<times> nat) \<rightharpoonup> nat) init_state" where
  "init_ref = \<lparr>locks = [], tls_key = 0, next_thread_id = 0, instance_set = False, next_lock = 0, mutex_calls = [], library_calls = [],
     id_cells = Map.empty, next_id_cell = 0, storage = \<lparr>key_cells = Map.empty, next_key_cell = 0, threads = Map.empty\<rparr>\<rparr>"

lemma pthread_ref_laws: "specific_laws pthread_ref"
  by (auto simp: specific_laws_def pthread_ref_def)

lemma init_ref_runs:
  obtains w where "OpenSSLInitializer pthread_ref 0 2 (\<lambda>_. True) (\<lambda>_. 255) init_ref = (Inr (), w)"
    "instance_set w" "next_thread_id w = 0" "id_cells w = Map.empty" "tls_key w = 0"
    "storage w = \<lparr>key_cells = [0 \<mapsto> 3], next_key_cell = 1, threads = Map.empty\<rparr>" "next_id_cell w = 0"
proof -
  let ?r = "OpenSSLInitializer pthread_ref 0 2 (\<lambda>_. True) (\<lambda>_. 255) init_ref"
  have "fst ?r = Inr ()" "instance_set (snd ?r)" "next_thread_id (snd ?r) = 0" "id_cells (snd ?r) = Map.empty" "tls_key (snd ?r) = 0"
    "storage (snd ?r) = \<lparr>key_cells = [0 \<mapsto> 3], next_key_cell = 1, threads = Map.empty\<rparr>" "next_id_cell (snd ?r) = 0"
    by (simp_all add: OpenSSLInitializer_def acquireKey_def pthread_ref_def init_ref_def new_Lock_def seedPRNG_def
      seed_sources_def use_dev_random_def seed_size_def Let_def upt_rec)
  then show thesis by (intro that [of "snd ?r"]) (simp_all add: prod_eq_iff)
qed

theorem locks_live_while_they_are_used_witness:
  "(case OpenSSLInitializer pthread_ref 0 2 (\<lambda>_. True) (\<lambda>_. 255) init_ref of
      (Inr _, w1) \<Rightarrow> (case callbacks [(1, 0), (1, 1), (2, 0), (6, 7)] w1 of None \<Rightarrow> False
        | Some w2 \<Rightarrow> run_calls (mutex_calls (snd (OpenSSLInitializer_destroy pthread_ref w2))) [] = Some []
            \<and> lock_callback crypto_lock 0 (snd (OpenSSLInitializer_destroy pthread_ref w2)) = None)
    | (Inl e, w1) \<Rightarrow> False)
    \<and> (case OpenSSLInitializer pthread_ref 0 2 (\<lambda>i. i < 1) (\<lambda>_. 255) init_ref of
      (r, w1) \<Rightarrow> r = Inl bad_alloc \<and> run_calls (mutex_calls w1) [] = Some [])"
proof
  have init: "mutex_calls init_ref = []" "\<not> instance_set init_ref" by (simp_all add: init_ref_def)
  obtain w where w: "OpenSSLInitializer pthread_ref 0 2 (\<lambda>_. True) (\<lambda>_. 255) init_ref = (Inr (), w)" by (rule init_ref_runs)
  show "case OpenSSLInitializer pthread_ref 0 2 (\<lambda>_. True) (\<lambda>_. 255) init_ref of
      (Inr _, w1) \<Rightarrow> (case callbacks [(1, 0), (1, 1), (2, 0), (6, 7)] w1 of None \<Rightarrow> False
        | Some w2 \<Rightarrow> run_calls (mutex_calls (snd (OpenSSLInitializer_destroy pthread_ref w2))) [] = Some []
            \<and> lock_callback crypto_lock 0 (snd (OpenSSLInitializer_destroy pthread_ref w2)) = None)
    | (Inl e, w1) \<Rightarrow> False"
    using locks_live_while_they_are_used [OF init w, of "[(1, 0), (1, 1), (2, 0), (6, 7)]"] unfolding w
    by (auto split: option.splits prod.splits)
  obtain u where u: "OpenSSLInitializer pthread_ref 0 2 (\<lambda>i. i < 1) (\<lambda>_. 255) init_ref = (Inl bad_alloc, u)"
    by (simp add: OpenSSLInitializer_def acquireKey_def pthread_ref_def init_ref_def new_Lock_def Let_def upt_rec)
  show "case OpenSSLInitializer pthread_ref 0 2 (\<lambda>i. i < 1) (\<lambda>_. 255) init_ref of
      (r, w1) \<Rightarrow> r = Inl bad_alloc \<and> run_calls (mutex_calls w1) [] = Some []"
    using locks_live_while_they_are_used [OF init u] u by simp
qed

theorem thread_ids_identify_threads_witness:
  "\<exists>w. OpenSSLInitializer pthread_ref 0 2 (\<lambda>_. True) (\<lambda>_. 255) init_ref = (Inr (), w)
    \<and> fst (thread_ids pthread_ref [5, 9, 7, 5] w) = [Some (Inr 0), Some (Inl bad_alloc), Some (Inr 2), Some (Inr 0)]
    \<and> ((0 :: 32 word) = 2 \<longleftrightarrow> [5, 9, 7, 5 :: nat] ! 0 = [5, 9, 7, 5] ! 2)"
proof -
  obtain w where w: "OpenSSLInitializer pthread_ref 0 2 (\<lambda>_. True) (\<lambda>_. 255) init_ref = (Inr (), w)"
    "instance_set w" "next_thread_id w = 0" "id_cells w = Map.empty" "tls_key w = 0"
    "storage w = \<lparr>key_cells = [0 \<mapsto> 3], next_key_cell = 1, threads = Map.empty\<rparr>" "next_id_cell w = 0"
    by (rule init_ref_runs)
  have ids: "fst (thread_ids pthread_ref [5, 9, 7, 5] w) = [Some (Inr 0), Some (Inl bad_alloc), Some (Inr 2), Some (Inr 0)]"
    using w(2-7) by (simp add: getThreadId_def getValue_def setValue_def pthread_ref_def Let_def)
  have "\<forall>t. getValue pthread_ref t (tls_key w) (storage w) = None" using w(5,6) by (simp add: getValue_def pthread_ref_def)
  from thread_ids_identify_threads [OF pthread_ref_laws w(2-4) this, of "[5, 9, 7, 5]" 0 2 0 2] ids w(1)
  show ?thesis by (intro exI [of _ w]) simp
qed

end
