(* ===== verification/Logger.thy ===== *)
theory Logger
  imports Exceptions "HOL-Library.Word"
begin

text \<open>
  \<^verbatim>\<open>lib/Agelena\<close>: the one logger of the program, the macros that everything logs with, and the logger for POSIX.
\<close>

section \<open>Entries\<close>

definition debug_level :: "32 word" where "debug_level = 0"
definition info_level :: "32 word" where "info_level = 0x20000000"
definition warning_level :: "32 word" where "warning_level = 0x40000000"
definition error_level :: "32 word" where "error_level = 0x60000000"
definition fatal_error_level :: "32 word" where "fatal_error_level = 0x80000000"

record log_entry =
  log_level :: "32 word"
  log_component :: "32 word"
  log_sub_component :: "32 word"
  log_file :: string
  log_line :: nat
  log_text :: string
  log_aux :: "8 word list"

section \<open>The instance\<close>

text \<open>
  \<open>instance__\<close> is the number of a logger; \<open>add_\<close>, the virtual function, is a parameter, and what it throws is swallowed.
\<close>

definition logger_add :: "(nat \<Rightarrow> log_entry \<Rightarrow> 's \<Rightarrow> (exn + unit) \<times> 's) \<Rightarrow> nat option \<Rightarrow> log_entry \<Rightarrow> 's \<Rightarrow> 's" where
  "logger_add add_to inst e s = (case inst of None \<Rightarrow> s | Some l \<Rightarrow> (case add_to l e s of (Inl _, s') \<Rightarrow> s' | (Inr _, s') \<Rightarrow> s'))"

definition logger_getInstance :: "nat option \<Rightarrow> nat option" where
  "logger_getInstance inst = inst"

definition logger_setInstance :: "nat option \<Rightarrow> nat option \<Rightarrow> nat option" where
  "logger_setInstance logger inst = logger"

definition DefaultPOSIXLogger :: "nat \<Rightarrow> nat option \<Rightarrow> (exn + unit) \<times> nat option" where
  "DefaultPOSIXLogger this inst =
     (if logger_getInstance inst \<noteq> None then (Inl (logic_error ''This is not the only instance of a logger!''), inst)
      else (Inr (), logger_setInstance (Some this) inst))"

definition DefaultPOSIXLogger_destroy :: "nat \<Rightarrow> nat option \<Rightarrow> nat option" where
  "DefaultPOSIXLogger_destroy this inst =
     (if logger_getInstance inst = Some this then logger_setInstance None inst else inst)"

text \<open>The output functions: the text and whether it goes to \<open>cerr\<close> (else to \<open>clog\<close>).\<close>

definition log_line_text :: "string \<Rightarrow> string \<Rightarrow> string \<Rightarrow> string" where
  "log_line_text component text aux = component @ [SP] @ text @ [SP] @ aux @ [LF]"

definition posix_debug :: "string \<Rightarrow> string \<Rightarrow> string \<Rightarrow> bool \<times> string" where
  "posix_debug component text aux = (False, log_line_text component text aux)"

definition posix_warning :: "string \<Rightarrow> string \<Rightarrow> string \<Rightarrow> bool \<times> string" where
  "posix_warning component text aux = (False, log_line_text component text aux)"

definition posix_error :: "string \<Rightarrow> string \<Rightarrow> string \<Rightarrow> bool \<times> string" where
  "posix_error component text aux = (True, log_line_text component text aux)"

definition posix_fatalError :: "string \<Rightarrow> string \<Rightarrow> string \<Rightarrow> bool \<times> string" where
  "posix_fatalError component text aux = (True, log_line_text component text aux)"

section \<open>The macros\<close>

text \<open>
  The entry that a macro makes in the given place from a text and up to five parameters (as they are written out): the ones
  with a zero in their name take the text as it is, the others as a format.
\<close>

definition log_macro :: "boost_lib \<Rightarrow> 32 word \<Rightarrow> 32 word \<Rightarrow> 32 word \<Rightarrow> string \<Rightarrow> nat \<Rightarrow> string \<Rightarrow> string list \<Rightarrow> log_entry" where
  "log_macro L level component sub_component file line msg ps = \<lparr>log_level = level, log_component = component,
     log_sub_component = sub_component, log_file = file, log_line = line,
     log_text = (if ps = [] then msg else format_str L msg ps), log_aux = []\<rparr>"

definition AGELENA_DEBUG :: "bool \<Rightarrow> boost_lib \<Rightarrow> 32 word \<Rightarrow> 32 word \<Rightarrow> string \<Rightarrow> nat \<Rightarrow> string \<Rightarrow> string list \<Rightarrow> log_entry option" where
  "AGELENA_DEBUG agelena_ndebug L c sc file line msg ps =
     (if agelena_ndebug then None else Some (log_macro L debug_level c sc file line msg ps))"

definition AGELENA_INFO :: "boost_lib \<Rightarrow> 32 word \<Rightarrow> 32 word \<Rightarrow> string \<Rightarrow> nat \<Rightarrow> string \<Rightarrow> string list \<Rightarrow> log_entry" where
  "AGELENA_INFO L = log_macro L info_level"

definition AGELENA_WARNING :: "boost_lib \<Rightarrow> 32 word \<Rightarrow> 32 word \<Rightarrow> string \<Rightarrow> nat \<Rightarrow> string \<Rightarrow> string list \<Rightarrow> log_entry" where
  "AGELENA_WARNING L = log_macro L warning_level"

definition AGELENA_ERROR :: "boost_lib \<Rightarrow> 32 word \<Rightarrow> 32 word \<Rightarrow> string \<Rightarrow> nat \<Rightarrow> string \<Rightarrow> string list \<Rightarrow> log_entry" where
  "AGELENA_ERROR L = log_macro L error_level"

definition AGELENA_FATAL_ERROR :: "boost_lib \<Rightarrow> 32 word \<Rightarrow> 32 word \<Rightarrow> string \<Rightarrow> nat \<Rightarrow> string \<Rightarrow> string list \<Rightarrow> log_entry" where
  "AGELENA_FATAL_ERROR L = log_macro L fatal_error_level"

section \<open>The instance is a logger that lives\<close>

text \<open>Loggers are made with new numbers; \<open>living\<close> are those that were made (without an exception) and not destroyed.\<close>

inductive logger_run :: "nat \<Rightarrow> nat set \<Rightarrow> nat option \<Rightarrow> bool" where
  Start: "logger_run 0 {} None"
| Construct: "\<lbrakk>logger_run n living i; DefaultPOSIXLogger n i = (r, i')\<rbrakk>
    \<Longrightarrow> logger_run (Suc n) (if r = Inr () then insert n living else living) i'"
| Destroy: "\<lbrakk>logger_run n living i; l \<in> living\<rbrakk> \<Longrightarrow> logger_run n (living - {l}) (DefaultPOSIXLogger_destroy l i)"

lemma one_logger: "logger_run n living i \<Longrightarrow> living = (case i of None \<Rightarrow> {} | Some l \<Rightarrow> {l}) \<and> (\<forall>l \<in> living. l < n)"
proof (induction rule: logger_run.induct)
  case (Construct n living i r i')
  then show ?case
    by (auto simp: DefaultPOSIXLogger_def logger_getInstance_def logger_setInstance_def less_Suc_eq split: if_splits option.splits)
next
  case (Destroy n living i l)
  then show ?case
    by (auto simp: DefaultPOSIXLogger_destroy_def logger_getInstance_def logger_setInstance_def split: option.splits)
qed simp

text \<open>
  However loggers are made and destroyed, at most one lives, and it is the instance: what is logged goes to a logger that
  lives, or nowhere when there is none, and never throws.
\<close>

theorem entries_go_to_the_living_logger:
  assumes "logger_run n living i"
  shows "(case i of None \<Rightarrow> living = {} \<and> logger_add add_to i e s = s | Some l \<Rightarrow> living = {l} \<and> logger_add add_to i e s = snd (add_to l e s))
    \<and> (DefaultPOSIXLogger n i = (Inr (), Some n) \<longleftrightarrow> living = {})"
  using one_logger [OF assms]
  by (auto simp: logger_add_def DefaultPOSIXLogger_def logger_getInstance_def logger_setInstance_def split: option.splits prod.splits sum.splits)

theorem entries_go_to_the_living_logger_witness:
  "logger_run 2 {0} (Some 0) \<and> logger_add (\<lambda>l e s. (Inl bad_alloc, log_text e # s)) (Some 0)
     (AGELENA_INFO boost_ref 1 2 ''f'' 3 ''at %1%'' [''x'']) [] = [format_str boost_ref ''at %1%'' [''x'']]"
proof -
  have "logger_run (Suc 0) {0} (Some 0)"
    using Construct [OF Start, of "Inr ()" "Some 0"] by (simp add: DefaultPOSIXLogger_def logger_getInstance_def logger_setInstance_def)
  from Construct [OF this, of "Inl (logic_error ''This is not the only instance of a logger!'')" "Some 0"]
  have run: "logger_run 2 {0} (Some 0)" by (simp add: DefaultPOSIXLogger_def logger_getInstance_def numeral_2_eq_2)
  then show ?thesis
    using entries_go_to_the_living_logger [OF run, of "\<lambda>l e s. (Inl bad_alloc, log_text e # s)"
        "AGELENA_INFO boost_ref 1 2 ''f'' 3 ''at %1%'' [''x'']" "[]"]
    by (simp add: AGELENA_INFO_def log_macro_def)
qed

end
