(* ===== verification/RequestMonitor.thy ===== *)
theory RequestMonitor
  imports HTTPDataHandler
begin

text \<open>
  \<^verbatim>\<open>lib/Spin/Handlers/HTTPRequestHandler.cpp\<close> as threads see it: \<open>handle\<close> and \<open>getNextRequest\<close> take several steps each, between
  which other threads run; a mutex and a condition variable keep them apart. \<open>HTTPDataHandler\<close> and \<open>Server\<close> use
  both as single steps, which is justified here.
\<close>

section \<open>Threads\<close>

text \<open>
  Where a thread is. In \<open>handle\<close>: before the mutex is locked, before \<open>push_back\<close>, before the mutex is unlocked, before
  \<open>notify_one\<close>. In \<open>getNextRequest\<close>: before the mutex is locked (at the beginning, or at the end of \<open>wait\<close>), before the test of
  the loop, blocked in \<open>wait\<close>, and with the result, before the mutex is unlocked.
\<close>

datatype pc = Outside
  | To_lock request | To_push request | To_unlock | To_notify
  | To_enter | To_test | Waiting | To_return request

record monitor =
  requests :: "request list"
  holder :: "nat option"
  pcs :: "nat \<Rightarrow> pc"
  put :: "request list"
  taken :: "request list"

text \<open>\<open>put\<close> and \<open>taken\<close> are the requests that were queued and those that were handed out, so far. Nobody is inside at first.\<close>

definition HTTPRequestHandler :: monitor where
  "HTTPRequestHandler = \<lparr>requests = [], holder = None, pcs = (\<lambda>_. Outside), put = [], taken = []\<rparr>"

definition move :: "nat \<Rightarrow> pc \<Rightarrow> monitor \<Rightarrow> monitor" where
  "move t c m = m\<lparr>pcs := (pcs m)(t := c)\<rparr>"

text \<open>
  The steps of a thread that is inside. \<open>notify_one\<close> wakes one of the threads that wait, if there is one; \<open>wait\<close> unlocks the
  mutex and blocks in one step, and locks the mutex again when it is woken.
\<close>

inductive thread_step :: "nat \<Rightarrow> monitor \<Rightarrow> monitor \<Rightarrow> bool" for t where
  lock: "\<lbrakk>pcs m t = To_lock r; holder m = None\<rbrakk> \<Longrightarrow> thread_step t m (move t (To_push r) (m\<lparr>holder := Some t\<rparr>))"
| push: "pcs m t = To_push r
    \<Longrightarrow> thread_step t m (move t To_unlock (m\<lparr>requests := handle r (requests m), put := put m @ [r]\<rparr>))"
| unlock: "pcs m t = To_unlock \<Longrightarrow> thread_step t m (move t To_notify (m\<lparr>holder := None\<rparr>))"
| notify_one: "\<lbrakk>pcs m t = To_notify; pcs m w = Waiting\<rbrakk> \<Longrightarrow> thread_step t m (move t Outside (move w To_enter m))"
| notify_nobody: "\<lbrakk>pcs m t = To_notify; \<forall>w. pcs m w \<noteq> Waiting\<rbrakk> \<Longrightarrow> thread_step t m (move t Outside m)"
| enter: "\<lbrakk>pcs m t = To_enter; holder m = None\<rbrakk> \<Longrightarrow> thread_step t m (move t To_test (m\<lparr>holder := Some t\<rparr>))"
| wait: "\<lbrakk>pcs m t = To_test; getNextRequest (requests m) = None\<rbrakk> \<Longrightarrow> thread_step t m (move t Waiting (m\<lparr>holder := None\<rparr>))"
| take: "\<lbrakk>pcs m t = To_test; getNextRequest (requests m) = Some (r, q)\<rbrakk>
    \<Longrightarrow> thread_step t m (move t (To_return r) (m\<lparr>requests := q, taken := taken m @ [r]\<rparr>))"
| return: "pcs m t = To_return r \<Longrightarrow> thread_step t m (move t Outside (m\<lparr>holder := None\<rparr>))"

text \<open>Any number of threads call the two functions, in any order, and a thread that waits may be woken for no reason.\<close>

inductive monitor_run :: "monitor \<Rightarrow> bool" where
  start: "monitor_run HTTPRequestHandler"
| inside: "\<lbrakk>monitor_run m; thread_step t m m'\<rbrakk> \<Longrightarrow> monitor_run m'"
| call_handle: "\<lbrakk>monitor_run m; pcs m t = Outside\<rbrakk> \<Longrightarrow> monitor_run (move t (To_lock r) m)"
| call_getNextRequest: "\<lbrakk>monitor_run m; pcs m t = Outside\<rbrakk> \<Longrightarrow> monitor_run (move t To_enter m)"
| wake_up: "\<lbrakk>monitor_run m; pcs m t = Waiting\<rbrakk> \<Longrightarrow> monitor_run (move t To_enter m)"

section \<open>Sums over the threads inside\<close>

definition thread_sum :: "(pc \<Rightarrow> nat) \<Rightarrow> (nat \<Rightarrow> pc) \<Rightarrow> nat" where
  "thread_sum f p = (\<Sum>t | p t \<noteq> Outside. f (p t))"

lemma move_simps [simp]:
  "pcs (move t c m) = (pcs m)(t := c)" "requests (move t c m) = requests m" "holder (move t c m) = holder m" "put (move t c m) = put m"
  "taken (move t c m) = taken m"
  by (simp_all add: move_def)

lemma finite_upd: "finite {t. p t \<noteq> Outside} \<Longrightarrow> finite {u. (p(t := c)) u \<noteq> Outside}"
  by (rule finite_subset [of _ "insert t {t. p t \<noteq> Outside}"]) auto

lemma thread_sum_upd:
  assumes "finite {t. p t \<noteq> Outside}" "f Outside = 0"
  shows "thread_sum f (p(t := c)) + f (p t) = thread_sum f p + f c"
proof -
  let ?A = "insert t {t. p t \<noteq> Outside}"
  have wide: "thread_sum f q = (\<Sum>u \<in> ?A. f (q u))" if "{u. q u \<noteq> Outside} \<subseteq> ?A" for q
    unfolding thread_sum_def using assms that by (intro sum.mono_neutral_left) auto
  have "thread_sum f p = f (p t) + (\<Sum>u \<in> ?A - {t}. f (p u))"
    using assms(1) by (subst wide) (simp_all add: sum.insert_remove subset_insertI)
  moreover have "thread_sum f (p(t := c)) = f c + (\<Sum>u \<in> ?A - {t}. f (p u))"
    using assms(1) by (subst wide) (auto simp: sum.insert_remove intro!: sum.cong)
  ultimately show ?thesis by simp
qed

section \<open>What holds in every run\<close>

fun critical :: "pc \<Rightarrow> bool" where
  "critical (To_push r) = True" | "critical To_unlock = True" | "critical To_test = True" | "critical (To_return r) = True"
| "critical c = False"

text \<open>
  Threads that owe something to the queue: a notification for what they have put there, or to look into it. As long as some
  thread waits, there are at least as many as there are requests.
\<close>

fun debt :: "pc \<Rightarrow> nat" where
  "debt To_unlock = 1" | "debt To_notify = 1" | "debt To_enter = 1" | "debt To_test = 1" | "debt c = 0"

definition monitor_ok :: "monitor \<Rightarrow> bool" where
  "monitor_ok m \<longleftrightarrow> finite {t. pcs m t \<noteq> Outside} \<and> (\<forall>t. holder m = Some t \<longleftrightarrow> critical (pcs m t))
     \<and> taken m @ requests m = put m
     \<and> ((\<exists>w. pcs m w = Waiting) \<longrightarrow> length (requests m) \<le> thread_sum debt (pcs m))"

fun distance :: "pc \<Rightarrow> nat" where
  "distance (To_lock r) = 8" | "distance (To_push r) = 7" | "distance To_unlock = 6" | "distance To_notify = 5"
| "distance To_enter = 4" | "distance To_test = 3" | "distance Waiting = 2" | "distance (To_return r) = 1" | "distance Outside = 0"

text \<open>A step moves one thread on, or moves the thread that notifies and the one that it wakes.\<close>

lemma step_shape:
  assumes "thread_step t m m'"
  obtains c where "pcs m' = (pcs m)(t := c)" "distance c < distance (pcs m t)"
    "requests m' = [] \<or> (\<forall>w. pcs m' w \<noteq> Waiting) \<or> c \<noteq> Waiting \<and> length (requests m') + debt (pcs m t) \<le> length (requests m) + debt c"
  | w where "w \<noteq> t" "pcs m w = Waiting" "pcs m t = To_notify" "pcs m' = (pcs m)(w := To_enter, t := Outside)" "requests m' = requests m"
  using assms
proof cases
  case (lock r)
  then show ?thesis by (intro that(1) [of "To_push r"]) simp_all
next
  case (push r)
  then show ?thesis by (intro that(1) [of To_unlock]) (simp_all add: handle_def)
next
  case unlock
  then show ?thesis by (intro that(1) [of To_notify]) simp_all
next
  case (notify_one w)
  then show ?thesis by (intro that(2) [of w]) auto
next
  case notify_nobody
  then show ?thesis by (intro that(1) [of Outside]) simp_all
next
  case enter
  then show ?thesis by (intro that(1) [of To_test]) simp_all
next
  case wait
  then show ?thesis by (intro that(1) [of Waiting]) (simp_all add: getNextRequest_def split: list.splits)
next
  case (take r q)
  then show ?thesis by (intro that(1) [of "To_return r"]) (auto simp: getNextRequest_def split: list.splits)
next
  case (return r)
  then show ?thesis by (intro that(1) [of Outside]) simp_all
qed

lemma step_totals:
  assumes "thread_step t m m'" "finite {u. pcs m u \<noteq> Outside}"
  shows "finite {u. pcs m' u \<noteq> Outside}" and "thread_sum distance (pcs m') < thread_sum distance (pcs m)"
    and "(\<exists>w. pcs m w = Waiting) \<longrightarrow> length (requests m) \<le> thread_sum debt (pcs m)
      \<Longrightarrow> (\<exists>w. pcs m' w = Waiting) \<longrightarrow> length (requests m') \<le> thread_sum debt (pcs m')"
proof -
  note upd = thread_sum_upd [of "pcs m", OF assms(2)]
  note upd2 = thread_sum_upd [of "(pcs m)(w := To_enter)" for w, OF finite_upd [OF assms(2)]]
  have "finite {u. pcs m' u \<noteq> Outside} \<and> thread_sum distance (pcs m') < thread_sum distance (pcs m)
      \<and> (((\<exists>w. pcs m w = Waiting) \<longrightarrow> length (requests m) \<le> thread_sum debt (pcs m))
        \<longrightarrow> ((\<exists>w. pcs m' w = Waiting) \<longrightarrow> length (requests m') \<le> thread_sum debt (pcs m')))"
    using assms(1)
  proof (cases rule: step_shape)
    case (1 c)
    then show ?thesis
      using finite_upd [OF assms(2), of t c] upd [of distance t c] upd [of debt t c] by (auto split: if_splits)
  next
    case (2 w)
    then show ?thesis
      using finite_upd [OF finite_upd [OF assms(2)], of w To_enter t Outside] upd [of distance w To_enter] upd [of debt w To_enter]
        upd2 [of distance w t Outside] upd2 [of debt w t Outside] by (auto simp del: fun_upd_apply simp add: fun_upd_other)
  qed
  then show "finite {u. pcs m' u \<noteq> Outside}" "thread_sum distance (pcs m') < thread_sum distance (pcs m)"
    "(\<exists>w. pcs m w = Waiting) \<longrightarrow> length (requests m) \<le> thread_sum debt (pcs m)
      \<Longrightarrow> (\<exists>w. pcs m' w = Waiting) \<longrightarrow> length (requests m') \<le> thread_sum debt (pcs m')" by blast+
qed

lemma thread_step_ok:
  assumes "thread_step t m m'" "monitor_ok m"
  shows "monitor_ok m'"
proof -
  have ok: "finite {t. pcs m t \<noteq> Outside}" "\<And>t. holder m = Some t \<longleftrightarrow> critical (pcs m t)" "taken m @ requests m = put m"
    "(\<exists>w. pcs m w = Waiting) \<longrightarrow> length (requests m) \<le> thread_sum debt (pcs m)"
    using assms(2) by (simp_all add: monitor_ok_def)
  have "holder m' = Some u \<longleftrightarrow> critical (pcs m' u)" for u
    using assms(1) ok(2) [of u] ok(2) [of t] by cases auto
  moreover have "taken m' @ requests m' = put m'"
    using assms(1) ok(3) by cases (auto simp: handle_def getNextRequest_def split: list.splits)
  ultimately show ?thesis
    using step_totals(1,3) [OF assms(1) ok(1)] ok(4) by (auto simp: monitor_ok_def)
qed

lemma monitor_run_ok: "monitor_run m \<Longrightarrow> monitor_ok m"
proof (induction rule: monitor_run.induct)
  case start
  then show ?case by (simp add: monitor_ok_def HTTPRequestHandler_def)
next
  case (inside m t m')
  then show ?case using thread_step_ok by blast
next
  case (call_handle m t r)
  then show ?case
    using thread_sum_upd [of "pcs m" debt t "To_lock r"] finite_upd [of "pcs m" t "To_lock r"] by (auto simp: monitor_ok_def)
next
  case (call_getNextRequest m t)
  then show ?case
    using thread_sum_upd [of "pcs m" debt t To_enter] finite_upd [of "pcs m" t To_enter] by (auto simp: monitor_ok_def)
next
  case (wake_up m t)
  then show ?case
    using thread_sum_upd [of "pcs m" debt t To_enter] finite_upd [of "pcs m" t To_enter] by (auto simp: monitor_ok_def)
qed

section \<open>The steps come to an end\<close>

lemma no_debt:
  assumes "finite {u. p u \<noteq> Outside}" "\<forall>u. debt (p u) = 0"
  shows "thread_sum debt p = 0"
  using assms by (simp add: thread_sum_def)

lemma stuck:
  assumes "monitor_ok m" "\<nexists>t m'. thread_step t m m'"
  shows "pcs m t = Outside \<or> pcs m t = Waiting \<and> requests m = []"
proof -
  have not_critical: "\<not> critical (pcs m u)" for u
  proof (cases "pcs m u")
    case To_test
    then show ?thesis using assms(2) thread_step.wait [of m u] thread_step.take [of m u]
      by (cases "getNextRequest (requests m)") auto
  qed (use assms(2) thread_step.push thread_step.unlock thread_step.return in fastforce)+
  then have free: "holder m = None" using assms(1) by (cases "holder m") (auto simp: monitor_ok_def)
  have here: "pcs m u = Outside \<or> pcs m u = Waiting" for u
  proof (cases "pcs m u")
    case To_notify
    then show ?thesis using assms(2) thread_step.notify_one [of m u] thread_step.notify_nobody [of m u] by blast
  qed (use not_critical [of u] assms(2) free thread_step.lock [of m u] thread_step.enter [of m u] in fastforce)+
  have "debt (pcs m u) = 0" for u using here [of u] by auto
  then have "thread_sum debt (pcs m) = 0" using assms(1) by (intro no_debt) (simp_all add: monitor_ok_def)
  then have "requests m = []" if "pcs m t = Waiting" using assms(1) that by (auto simp: monitor_ok_def)
  then show ?thesis using here [of t] by auto
qed

text \<open>
  C3: however the threads that call \<open>handle\<close> and \<open>getNextRequest\<close> interleave, and whatever wakes them: requests are handed out
  in the order in which they were queued, each once; no two threads are at the queue at the same time; without further calls
  the threads come to rest after finitely many steps, whatever the scheduler does; and at rest nobody is left inside but
  threads that wait for a request while there is none. So no notification is missed and no thread is locked out.
\<close>

theorem no_request_is_forgotten:
  assumes "monitor_run m"
  shows "taken m @ requests m = put m
    \<and> (\<forall>t u. critical (pcs m t) \<and> critical (pcs m u) \<longrightarrow> t = u)
    \<and> (\<forall>t m'. thread_step t m m' \<longrightarrow> thread_sum distance (pcs m') < thread_sum distance (pcs m))
    \<and> ((\<nexists>t m'. thread_step t m m') \<longrightarrow> (\<forall>t. pcs m t = Outside \<or> pcs m t = Waiting \<and> requests m = []))"
proof -
  have ok: "monitor_ok m" using assms by (rule monitor_run_ok)
  then have m: "taken m @ requests m = put m" "finite {u. pcs m u \<noteq> Outside}" "\<And>t. critical (pcs m t) \<Longrightarrow> holder m = Some t"
    by (simp_all add: monitor_ok_def)
  show ?thesis
  proof (intro conjI allI impI)
    show "t = u" if "critical (pcs m t) \<and> critical (pcs m u)" for t u using m(3) [of t] m(3) [of u] that by simp
    show "thread_sum distance (pcs m') < thread_sum distance (pcs m)" if "thread_step t m m'" for t m' by (rule step_totals(2) [OF that m(2)])
  qed (use m(1) stuck [OF ok] in blast)+
qed

text \<open>A thread waits, another one has queued a request and has not notified it yet.\<close>

lemma run_step: "monitor_run m \<Longrightarrow> thread_step t m m' \<Longrightarrow> m' = m'' \<Longrightarrow> monitor_run m''"
  by (auto intro: monitor_run.inside)

definition before_notification :: monitor where
  "before_notification = \<lparr>requests = [example_get], holder = None, pcs = (\<lambda>_. Outside)(0 := Waiting, 1 := To_notify),
     put = [example_get], taken = []\<rparr>"

lemma before_notification_run: "monitor_run before_notification"
proof -
  let ?s = "\<lambda>q h p. \<lparr>requests = q, holder = h, pcs = p, put = q, taken = []\<rparr>" and ?p = "(\<lambda>_. Outside) :: nat \<Rightarrow> pc"
  have "monitor_run (?s [] None (?p(0 := To_enter)))"
    using monitor_run.call_getNextRequest [OF monitor_run.start, of 0] by (simp add: HTTPRequestHandler_def move_def)
  then have "monitor_run (?s [] (Some 0) (?p(0 := To_test)))"
    by (rule run_step [OF _ thread_step.enter [where t = 0]]) (simp_all add: move_def)
  then have "monitor_run (?s [] None (?p(0 := Waiting)))"
    by (rule run_step [OF _ thread_step.wait [where t = 0]]) (simp_all add: move_def getNextRequest_def)
  then have "monitor_run (?s [] None (?p(0 := Waiting, 1 := To_lock example_get)))"
    using monitor_run.call_handle [of "?s [] None (?p(0 := Waiting))" 1] by (simp add: move_def)
  then have "monitor_run (?s [] (Some 1) (?p(0 := Waiting, 1 := To_push example_get)))"
    by (rule run_step [OF _ thread_step.lock [where t = 1]]) (simp_all add: move_def)
  then have "monitor_run (?s [example_get] (Some 1) (?p(0 := Waiting, 1 := To_unlock)))"
    by (rule run_step [OF _ thread_step.push [where t = 1]]) (simp_all add: move_def handle_def)
  then show ?thesis
    unfolding before_notification_def by (rule run_step [OF _ thread_step.unlock [where t = 1]]) (simp_all add: move_def)
qed

theorem no_request_is_forgotten_witness:
  "requests before_notification = [example_get] \<and> pcs before_notification 0 = Waiting
    \<and> taken before_notification @ requests before_notification = put before_notification
    \<and> (\<exists>t m'. thread_step t before_notification m' \<and> thread_sum distance (pcs m') < thread_sum distance (pcs before_notification))"
proof -
  have w: "requests before_notification = [example_get]" "pcs before_notification 0 = Waiting" by (simp_all add: before_notification_def)
  note ok = no_request_is_forgotten [OF before_notification_run]
  then have "\<exists>t m'. thread_step t before_notification m'" using w by (metis list.distinct(1) pc.distinct(13))
  with ok w show ?thesis by blast
qed

end
