(* ===== verification/Exchange.thy ===== *)
theory Exchange
  imports Server Session
begin

text \<open>
  The parts together: the server's worker and main thread serve several connections, at the other ends of which are clients,
  among them Damon's. Bytes arrive on any connection, and the steps of the two threads interleave in any order.
  The server is compared with a queue of requests, and the client with the server.
\<close>

section \<open>Connections that carry bytes\<close>

text \<open>
  What OpenSSL and the network do, for the BIOs in \<open>bs\<close>: \<open>inbox b\<close> are the bytes that have arrived on \<open>b\<close> and were not read
  yet, \<open>outbox b\<close> all bytes that were written to it, \<open>carry b d\<close> is the arrival of \<open>d\<close>. No BIO has to do with another.
\<close>

type_synonym 's box = "bio \<Rightarrow> 's \<Rightarrow> string"

definition reads_apart :: "'s openssl \<Rightarrow> bio set \<Rightarrow> bool \<Rightarrow> 's box \<Rightarrow> 's box \<Rightarrow> bool" where
  "reads_apart lib bs open_end inbox outbox \<longleftrightarrow> (\<forall>b \<in> bs. drains lib b open_end (inbox b)
     \<and> (\<forall>n s b'. outbox b' (snd (bio_read lib b n s)) = outbox b' s
          \<and> (b' \<noteq> b \<longrightarrow> inbox b' (snd (bio_read lib b n s)) = inbox b' s)))"

definition writes_apart :: "'s openssl \<Rightarrow> bio set \<Rightarrow> 's box \<Rightarrow> 's box \<Rightarrow> bool" where
  "writes_apart lib bs inbox outbox \<longleftrightarrow> (\<forall>b \<in> bs. \<forall>d s. d \<noteq> [] \<longrightarrow> (case bio_write lib b d s of (n, s') \<Rightarrow>
     n = int (length d) \<and> (\<forall>b'. inbox b' s' = inbox b' s \<and> outbox b' s' = outbox b' s @ (if b' = b then d else []))))"

definition carries :: "(bio \<Rightarrow> string \<Rightarrow> 's \<Rightarrow> 's) \<Rightarrow> bio set \<Rightarrow> 's box \<Rightarrow> 's box \<Rightarrow> bool" where
  "carries carry bs inbox outbox \<longleftrightarrow> (\<forall>b \<in> bs. \<forall>d s b'. outbox b' (carry b d s) = outbox b' s
     \<and> inbox b' (carry b d s) = inbox b' s @ (if b' = b then d else []))"

lemma read_loop_frame:
  assumes "\<And>n s. f (snd (bio_read lib b n s)) = f s" "read_loop lib b k buffer off sofar s = Some (r, s')"
  shows "f s' = f s"
proof -
  have "case (r, s') of (r, s') \<Rightarrow> lib' = lib \<and> b' = b \<longrightarrow> f s' = f s" if "read_loop lib' b' k buffer off sofar s = Some (r, s')" for lib' b'
  proof (rule read_loop.raw_induct [OF _ that, where P = "\<lambda>lib' b' k buffer off sofar s y.
      case y of (r, s') \<Rightarrow> lib' = lib \<and> b' = b \<longrightarrow> f s' = f s"], goal_cases)
    case (1 again lib' b' k buffer off sofar s y)
    obtain n d s1 where r: "bio_read lib' b' (length buffer - off) s = ((n, d), s1)" by (metis prod.collapse)
    have "f s1 = f s" if "lib' = lib" "b' = b" using assms(1) [of "length buffer - off" s] r that by simp
    then show ?case
      using 1(2) 1(1) [of lib' b' True _ _ _ s1] r by (cases y) (fastforce simp: Let_def split: if_splits)
  qed
  with assms(2) show ?thesis by auto
qed

lemma connection_read_frame:
  assumes "\<And>n s. f (snd (bio_read lib b n s)) = f s" "cbio c = Some b" "connection_read lib c buffer s = Some (r, s')"
  shows "f s' = f s"
proof -
  have "read_loop lib b k buf 0 0 s = Some (r, s') \<Longrightarrow> f s' = f s" for k buf
    by (rule read_loop_frame [of f, OF assms(1)])
  with assms(2,3) show ?thesis unfolding connection_read_def by (simp split: if_split_asm)
qed

lemma write_delivers:
  assumes "writes_apart lib bs inbox outbox" "b \<in> bs" "cbio c = Some b" "d \<noteq> []" "length d < INT_MAX"
  obtains s' where "connection_write lib c d s = (Inr (word_of_int (int (length d)), 0), s')"
    "\<forall>b'. inbox b' s' = inbox b' s \<and> outbox b' s' = outbox b' s @ (if b' = b then d else [])"
proof -
  obtain n s' where w: "bio_write lib b d s = (n, s')" by fastforce
  have "case bio_write lib b d s of (n, s') \<Rightarrow>
     n = int (length d) \<and> (\<forall>b'. inbox b' s' = inbox b' s \<and> outbox b' s' = outbox b' s @ (if b' = b then d else []))"
    by (rule assms(1) [unfolded writes_apart_def, rule_format, OF assms(2,4)])
  with w assms(3-5) show ?thesis by (intro that [of s']) (simp_all add: connection_write_def)
qed

text \<open>One notification for bytes of whole requests: they are queued, and nothing else changes.\<close>

lemma arrival_queued:
  assumes "reads_apart lib bs open_end inbox outbox" "b \<in> bs" "cbio c = Some b"
    and "\<forall>r \<in> set rs. good_request L r \<and> connection r = conn_id c" "rs \<noteq> []"
    and "inbox b s = concat (map request_wire rs)" "length (inbox b s) mod 4096 \<noteq> 0" "length (inbox b s) < 2 ^ 63"
  obtains s' where "onDataReady L lib c None [] s = Some (Done, None, rs, s')" "inbox b s' = []"
    "\<forall>b'. outbox b' s' = outbox b' s \<and> (b' \<noteq> b \<longrightarrow> inbox b' s' = inbox b' s)"
proof -
  have drains: "drains lib b open_end (inbox b)"
    and apart: "\<And>n s b'. outbox b' (snd (bio_read lib b n s)) = outbox b' s"
      "\<And>n s b'. b' \<noteq> b \<Longrightarrow> inbox b' (snd (bio_read lib b n s)) = inbox b' s"
    using assms(1,2) by (simp_all add: reads_apart_def)
  obtain x s' where s': "onDataReady L lib c None [] s = Some (Done, None, fold handle rs [], s')" "inbox b s' = []"
    "connection_read lib c [] s = Some (x, s')"
    by (rule onDataReady_requests [OF drains assms(3-8)])
  have "fold handle rs [] = rs" using requests.contents_fold [of rs "[]"] by simp
  moreover have "outbox b' s' = outbox b' s" for b'
    using connection_read_frame [of "outbox b'", OF _ assms(3) s'(3)] apart(1) by blast
  moreover have "inbox b' s' = inbox b' s" if "b' \<noteq> b" for b'
    using connection_read_frame [of "inbox b'", OF _ assms(3) s'(3)] apart(2) that by blast
  ultimately show ?thesis using s'(1,2) by (intro that [of s']) simp_all
qed

section \<open>The site\<close>

text \<open>The specification of Mesothelae: the pages by their URL, with status, header fields and body.\<close>

type_synonym page = "status_code \<times> header list \<times> string"

definition index_page :: "string \<Rightarrow> page" where
  "index_page b = (OK, [Header ''Content-Type'' ''text/html''], b)"

definition to_index :: page where
  "to_index = (Found, [Header ''Location'' ''/index.html''], [])"

definition site :: "string \<rightharpoonup> page" where
  "site = map_of [(''/'', to_index), (''/send_leading_whitespace'', to_index),
     (''/index.html'', index_page ''<html><body><p>Hello, world!</p></body></html>''),
     (''/with%20space'', index_page ''<html><body><p>Hello, space!</p></body></html>'')]"

definition page_for :: "request \<Rightarrow> page" where
  "page_for r = (if verb r \<noteq> ''GET'' then (Not_implemented, [], [])
     else case site (url r) of Some p \<Rightarrow> p | None \<Rightarrow> (Not_found, [], []))"

definition response_for :: "request \<Rightarrow> response" where
  "response_for r = (case page_for r of (c, hs, b) \<Rightarrow>
     (Response (protocol_and_version r) (int (status_value c)) (the (reason_strings (status_value c))))
       \<lparr>rheader_fields := hs, rbody := b\<rparr>)"

text \<open>One page is sent behind white space, one address closes the connection.\<close>

definition white_space_before :: "request \<Rightarrow> bool" where
  "white_space_before r \<longleftrightarrow> verb r = ''GET'' \<and> url r = ''/send_leading_whitespace''"

definition stays_open :: "request \<Rightarrow> bool" where
  "stays_open r \<longleftrightarrow> \<not> (verb r = ''GET'' \<and> url r = ''/close_connection'')"

definition reply_text :: "boost_lib \<Rightarrow> request \<Rightarrow> string" where
  "reply_text L r = (if white_space_before r then leading_white_space else []) @ serialize L (response_for r)"

definition writes_of :: "boost_lib \<Rightarrow> request \<Rightarrow> string list" where
  "writes_of L r = (if white_space_before r then [leading_white_space] else []) @ [serialize L (response_for r)]"

lemma page_cases:
  obtains "verb r \<noteq> ''GET''" "page_for r = (Not_implemented, [], [])"
  | "verb r = ''GET''" "site (url r) = None" "page_for r = (Not_found, [], [])"
  | "verb r = ''GET''" "url r \<in> {''/'', ''/send_leading_whitespace''}" "page_for r = to_index"
  | "verb r = ''GET''" "url r = ''/index.html''" "page_for r = index_page ''<html><body><p>Hello, world!</p></body></html>''"
  | "verb r = ''GET''" "url r = ''/with%20space''" "page_for r = index_page ''<html><body><p>Hello, space!</p></body></html>''"
proof (cases "verb r = ''GET''")
  case True
  show ?thesis
  proof (cases "site (url r)")
    case (Some p)
    then have "url r \<in> {''/'', ''/send_leading_whitespace'', ''/index.html'', ''/with%20space''}"
      by (simp add: site_def split: if_split_asm)
    with True show ?thesis using that(3-5) by (auto simp: page_for_def site_def)
  qed (use True that(2) in \<open>simp add: page_for_def\<close>)
qed (use that(1) in \<open>simp add: page_for_def\<close>)

lemma responses_by_code:
  "write_response L r Found f = Some (Write (serialize L (f (Response (protocol_and_version r) 302 ''Found''))))"
  "write_response L r OK f = Some (Write (serialize L (f (Response (protocol_and_version r) 200 ''OK''))))"
  "write_response L r Not_found f = Some (Write (serialize L (f (Response (protocol_and_version r) 404 ''Not Found''))))"
  "write_response L r Not_implemented f = Some (Write (serialize L (f (Response (protocol_and_version r) 501 ''Not Implemented''))))"
  by (simp_all add: write_response_def Response_of_code_def reason_strings_def reason_string_rows_def)

lemma site_reasons:
  "reason_strings 302 = Some ''Found''" "reason_strings 200 = Some ''OK''" "reason_strings 404 = Some ''Not Found''"
  "reason_strings 501 = Some ''Not Implemented''"
  by (simp_all add: reason_strings_def reason_string_rows_def)

lemma site_None: "site u = None \<longleftrightarrow> u \<notin> {''/'', ''/send_leading_whitespace'', ''/index.html'', ''/with%20space''}"
  by (auto simp: site_def)

lemmas page_defs = index_page_def to_index_def response_for_def html_def setBody_def addHeader_def Response_def site_reasons

lemma answer_is_site:
  assumes "stays_open r"
  shows "answer L r = map (Some \<circ> Write) (writes_of L r)"
proof (rule page_cases [of r])
  assume r: "verb r = ''GET''" "site (url r) = None" "page_for r = (Not_found, [], [])"
  then show ?thesis
    using assms by (simp add: answer_def writes_of_def white_space_before_def stays_open_def site_None responses_by_code page_defs)
next
  assume r: "verb r = ''GET''" "url r \<in> {''/'', ''/send_leading_whitespace''}" "page_for r = to_index"
  from r(2) consider "url r = ''/''" | "url r = ''/send_leading_whitespace''" by blast
  then show ?thesis
    using r(1,3) by cases (simp_all add: answer_def writes_of_def white_space_before_def responses_by_code page_defs)
qed (simp_all add: answer_def writes_of_def white_space_before_def responses_by_code page_defs)

lemma concat_writes: "concat (writes_of L r) = reply_text L r"
  by (simp add: writes_of_def reply_text_def)

text \<open>The requests that the main thread has an answer for, on a connection that stays open.\<close>

definition answerable :: "request \<Rightarrow> bool" where
  "answerable r \<longleftrightarrow> stays_open r \<and> (protocol_and_version r = ''HTTP/1.0'' \<or> protocol_and_version r = ''HTTP/1.1'')"

lemma writes_small:
  assumes "decimal_casts L" "positional_format L" "answerable r" "w \<in> set (writes_of L r)"
  shows "w \<noteq> [] \<and> length w < INT_MAX"
proof -
  have "show_nat (length ''<html><body><p>Hello, world!</p></body></html>'') = ''46''" by simp code_simp
  note hello = this [simplified]
  have n: "show_nat 0 = ''0''" "show_int 200 = ''200''" "show_int 302 = ''302''" "show_int 404 = ''404''"
    "show_int 501 = ''501''" by code_simp+
  have "length (protocol_and_version r) = 8" using assms(3) by (auto simp: answerable_def)
  then have "length (serialize L (response_for r)) < 200 \<and> serialize L (response_for r) \<noteq> []"
    by (cases rule: page_cases [of r]) (simp_all add: serialized [OF assms(2,1)] status_line_def wire_headers_def
        with_content_length_def header_block_Cons header_line_def page_defs n hello)
  then show ?thesis using assms(4) by (auto simp: writes_of_def leading_white_space_def INT_MAX_def)
qed

lemma site_responses_good:
  assumes "protocol_and_version r = ''HTTP/1.1''"
  shows "good_response L (response_for r)"
proof -
  note good = good_response_def good_status_def good_header_def trimmed_def one_line_def clean_start_def isNewLine_def isIgnorableWhiteSpace_def
  show ?thesis by (rule page_cases [of r]) (simp_all add: assms good page_defs)
qed

section \<open>The server as a queue\<close>

text \<open>
  What happens to the server. Bytes arrive on the connection \<open>i\<close>, and the worker, notified of them, reads them, behind the end of
  the call it is in; it takes one more step in such a call (it hands a request over, or returns); the main thread takes a
  step of its loop (or waits). The outcomes of the steps are collected.
\<close>

datatype event = Arrival nat string | Worker_turn | Main_turn

definition unfinished :: "'s server \<Rightarrow> nat" where
  "unfinished srv = (case worker_at srv of No_call \<Rightarrow> 0 | Entered i \<Rightarrow> 0 | Handing i st rs \<Rightarrow> Suc (length rs))"

fun call_steps :: "'s environment \<Rightarrow> nat \<Rightarrow> 's server \<Rightarrow> (status \<times> 's server) option" where
  "call_steps E 0 srv = Some (Done, srv)"
| "call_steps E (Suc n) srv = (case call_step E srv of
      None \<Rightarrow> None
    | Some (st, srv') \<Rightarrow> if st = Done then call_steps E n srv' else Some (st, srv'))"

fun server_event :: "'s environment \<Rightarrow> (bio \<Rightarrow> string \<Rightarrow> 's \<Rightarrow> 's) \<Rightarrow> event \<Rightarrow> 's server \<Rightarrow> (status \<times> 's server) option" where
  "server_event E carry (Arrival i d) srv = (case Option.bind (objects srv i) cbio of
      None \<Rightarrow> Some (Done, srv)
    | Some b \<Rightarrow> (case call_steps E (unfinished srv) srv of
          None \<Rightarrow> None
        | Some (st, srv1) \<Rightarrow> if st \<noteq> Done then Some (st, srv1)
            else (case notify E (OnDataReady i) (srv1\<lparr>os := carry b d (os srv1)\<rparr>) of
                (st, srv2) \<Rightarrow> if st \<noteq> Done then Some (st, srv2) else call_step E srv2)))"
| "server_event E carry Worker_turn srv = (case worker_at srv of No_call \<Rightarrow> Some (Done, srv) | _ \<Rightarrow> call_step E srv)"
| "server_event E carry Main_turn srv = (case main_step E srv of None \<Rightarrow> Some (Done, srv) | Some y \<Rightarrow> Some y)"

fun server_events :: "'s environment \<Rightarrow> (bio \<Rightarrow> string \<Rightarrow> 's \<Rightarrow> 's) \<Rightarrow> event list \<Rightarrow> 's server \<Rightarrow> (status list \<times> 's server) option" where
  "server_events E carry [] srv = Some ([], srv)"
| "server_events E carry (e # es) srv = (case server_event E carry e srv of
      None \<Rightarrow> None
    | Some (st, srv') \<Rightarrow> map_option (\<lambda>(sts, srv''). (st # sts, srv'')) (server_events E carry es srv'))"

text \<open>
  The specification: requests that have arrived are queued one by one; the one at the front is taken, the texts of its answer
  are written, one by one, and then it is answered.
\<close>

datatype traffic = Requests nat "request list" | Hand | Answer

fun on_wire :: "traffic \<Rightarrow> event" where
  "on_wire (Requests i qs) = Arrival i (concat (map request_wire qs))"
| "on_wire Hand = Worker_turn"
| "on_wire Answer = Main_turn"

fun requests_in :: "traffic \<Rightarrow> request list" where
  "requests_in (Requests i qs) = qs"
| "requests_in t = []"

text \<open>\<open>Writing r ws xs\<close>: of the answer to \<open>r\<close>, \<open>ws\<close> are written and \<open>xs\<close> are not.\<close>

datatype turn = Free | Took request | Writing request "string list" "string list"

record queue =
  arrived :: "request list"
  queued :: "request list"
  turn :: turn
  answered :: "request list"

definition empty_queue :: queue where
  "empty_queue = \<lparr>arrived = [], queued = [], turn = Free, answered = []\<rparr>"

fun in_turn :: "turn \<Rightarrow> request list" where
  "in_turn Free = []"
| "in_turn (Took r) = [r]"
| "in_turn (Writing r ws xs) = [r]"

fun queue_step :: "boost_lib \<Rightarrow> traffic \<Rightarrow> queue \<Rightarrow> queue" where
  "queue_step L (Requests i qs) q = q\<lparr>queued := queued q @ arrived q, arrived := qs\<rparr>"
| "queue_step L Hand q = (case arrived q of [] \<Rightarrow> q | r # rs \<Rightarrow> q\<lparr>queued := queued q @ [r], arrived := rs\<rparr>)"
| "queue_step L Answer q = (case turn q of
      Free \<Rightarrow> (case queued q of [] \<Rightarrow> q | r # rs \<Rightarrow> q\<lparr>queued := rs, turn := Took r\<rparr>)
    | Took r \<Rightarrow> q\<lparr>turn := Writing r [] (writes_of L r)\<rparr>
    | Writing r ws (x # xs) \<Rightarrow> q\<lparr>turn := Writing r (ws @ [x]) xs\<rparr>
    | Writing r ws [] \<Rightarrow> q\<lparr>turn := Free, answered := answered q @ [r]\<rparr>)"

definition queue_run :: "boost_lib \<Rightarrow> traffic list \<Rightarrow> queue" where
  "queue_run L ts = fold (queue_step L) ts empty_queue"

definition all_requests :: "queue \<Rightarrow> request list" where
  "all_requests q = answered q @ in_turn (turn q) @ queued q @ arrived q"

lemma queue_step_all: "all_requests (queue_step L t q) = all_requests q @ requests_in t"
  by (cases t) (simp_all add: all_requests_def split: list.splits turn.splits)

lemma queue_run_all: "all_requests (queue_run L ts) = concat (map requests_in ts)"
proof -
  have "all_requests (fold (queue_step L) ts q) = all_requests q @ concat (map requests_in ts)" for q
    by (induction ts arbitrary: q) (simp_all add: queue_step_all)
  then show ?thesis by (simp add: queue_run_def empty_queue_def all_requests_def)
qed

text \<open>
  Bytes arrive as whole requests of the usual form, for which the program keeps the connection open, and not in a multiple of
  the block size.
\<close>

definition good_amount :: "string \<Rightarrow> bool" where
  "good_amount d \<longleftrightarrow> length d mod 4096 \<noteq> 0 \<and> length d < 2 ^ 63"

fun good_traffic :: "boost_lib \<Rightarrow> (nat \<rightharpoonup> connection) \<Rightarrow> traffic \<Rightarrow> bool" where
  "good_traffic L objs (Requests i qs) \<longleftrightarrow> i \<in> dom objs \<and> qs \<noteq> [] \<and> good_amount (concat (map request_wire qs))
     \<and> (\<forall>q \<in> set qs. good_request L q \<and> connection q = i \<and> stays_open q)"
| "good_traffic L objs t \<longleftrightarrow> True"

text \<open>The connections in service: each has its own BIO and a data handler.\<close>

definition in_service :: "bio set \<Rightarrow> (nat \<rightharpoonup> connection) \<Rightarrow> bool" where
  "in_service bs objs \<longleftrightarrow> (\<forall>i c. objs i = Some c \<longrightarrow> conn_id c = i \<and> data_handler c \<noteq> None \<and> (\<exists>b \<in> bs. cbio c = Some b))
     \<and> (\<forall>i j c d. objs i = Some c \<and> objs j = Some d \<and> cbio c = cbio d \<longrightarrow> i = j)"

text \<open>The state of the server that stands for a state of the queue.\<close>

fun main_of :: "turn \<Rightarrow> main_thread" where
  "main_of Free = Fetching"
| "main_of (Took r) = Taken r"
| "main_of (Writing r ws xs) = Serving (connection r) (map (Some \<circ> Write) xs)"

fun written_for :: "nat \<Rightarrow> turn \<Rightarrow> string" where
  "written_for i (Writing r ws xs) = (if connection r = i then concat ws else [])"
| "written_for i t = []"

definition boxes_ok :: "boost_lib \<Rightarrow> 's box \<Rightarrow> 's box \<Rightarrow> (nat \<rightharpoonup> connection) \<Rightarrow> (nat \<Rightarrow> leftover option) \<Rightarrow> 's \<Rightarrow> request list
    \<Rightarrow> (nat \<Rightarrow> string) \<Rightarrow> bool" where
  "boxes_ok L inbox outbox objs attrs s done written \<longleftrightarrow> (\<forall>i c b. objs i = Some c \<and> cbio c = Some b \<longrightarrow> attrs i = None \<and> inbox b s = []
     \<and> outbox b s = concat (map (reply_text L) (filter (\<lambda>r. connection r = i) done)) @ written i)"

definition implements ::
  "boost_lib \<Rightarrow> 's box \<Rightarrow> 's box \<Rightarrow> (nat \<rightharpoonup> connection) \<Rightarrow> 's server \<Rightarrow> queue \<Rightarrow> bool" where
  "implements L inbox outbox objs srv q \<longleftrightarrow> objects srv = objs \<and> set (connections srv) = dom objs
     \<and> request_list srv = queued q \<and> main_at srv = main_of (turn q)
     \<and> (worker_at srv = No_call \<and> arrived q = [] \<or> (\<exists>i \<in> dom objs. worker_at srv = Handing i Done (arrived q)))
     \<and> boxes_ok L inbox outbox objs (leftovers srv) (os srv) (answered q) (\<lambda>i. written_for i (turn q))"

lemma implementsD:
  assumes "implements L inbox outbox objs srv q" "objs j = Some d" "cbio d = Some b"
  shows "leftovers srv j = None" "inbox b (os srv) = []"
    "outbox b (os srv) = concat (map (reply_text L) (filter (\<lambda>r. connection r = j) (answered q))) @ written_for j (turn q)"
  using assms unfolding implements_def boxes_ok_def by blast+

lemma implements_parts:
  assumes "implements L inbox outbox objs srv q"
  shows "objects srv = objs" "set (connections srv) = dom objs" "request_list srv = queued q" "main_at srv = main_of (turn q)"
    "worker_at srv = No_call \<and> arrived q = [] \<or> (\<exists>i \<in> dom objs. worker_at srv = Handing i Done (arrived q))"
  using assms unfolding implements_def by blast+

text \<open>Only requests of the usual form are in the queue, and what is written and what is not are an answer.\<close>

definition good_queue :: "boost_lib \<Rightarrow> (nat \<rightharpoonup> connection) \<Rightarrow> queue \<Rightarrow> bool" where
  "good_queue L objs q \<longleftrightarrow> (\<forall>r \<in> set (in_turn (turn q)) \<union> set (queued q) \<union> set (arrived q). answerable r \<and> connection r \<in> dom objs)
     \<and> (\<forall>r ws xs. turn q = Writing r ws xs \<longrightarrow> ws @ xs = writes_of L r)"

lemma good_queue_step:
  assumes "good_queue L objs q" "good_traffic L objs t"
  shows "good_queue L objs (queue_step L t q)"
proof (cases t)
  case (Requests i qs)
  then have "\<forall>r \<in> set qs. answerable r \<and> connection r \<in> dom objs"
    using assms(2) by (auto simp: answerable_def good_request_def good_start_line_def)
  then show ?thesis using assms(1) Requests by (auto simp: good_queue_def)
qed (use assms(1) in \<open>auto simp: good_queue_def split: list.splits turn.splits\<close>)

lemma in_serviceD:
  assumes "in_service bs objs" "objs i = Some c"
  obtains b where "conn_id c = i" "data_handler c \<noteq> None" "cbio c = Some b" "b \<in> bs"
    "\<And>j d. objs j = Some d \<Longrightarrow> j \<noteq> i \<Longrightarrow> cbio d \<noteq> Some b"
proof -
  have "conn_id c = i \<and> data_handler c \<noteq> None \<and> (\<exists>b \<in> bs. cbio c = Some b)"
    using assms unfolding in_service_def by blast
  then obtain b where b: "conn_id c = i" "data_handler c \<noteq> None" "cbio c = Some b" "b \<in> bs" by blast
  have "j = i" if "objs j = Some d" "cbio d = Some b" for j d
    using assms that b(3) unfolding in_service_def by (metis (no_types))
  with b show ?thesis by (intro that [of b]) blast+
qed

text \<open>A step of the worker within a call: a request is queued, or the call returns.\<close>

lemma worker_implements:
  assumes "implements L inbox outbox objs srv q" "worker_at srv = Handing i Done (arrived q)" "i \<in> dom objs"
  shows "\<exists>srv'. call_step E srv = Some (Done, srv') \<and> implements L inbox outbox objs srv' (queue_step L Hand q)
    \<and> os srv' = os srv \<and> unfinished srv = Suc (unfinished srv')"
proof (cases "arrived q")
  case Nil
  have "held (srv\<lparr>worker_at := No_call\<rparr>) i" using assms(1,3) by (simp add: held_def implements_def)
  then have "call_step E srv = Some (Done, srv\<lparr>worker_at := No_call\<rparr>)"
    using assms(2) Nil by (simp add: call_step_def unreference_def)
  moreover have "implements L inbox outbox objs (srv\<lparr>worker_at := No_call\<rparr>) q" using assms(1) Nil by (simp add: implements_def)
  ultimately show ?thesis using Nil assms(2) by (intro exI [of _ "srv\<lparr>worker_at := No_call\<rparr>"]) (simp add: unfinished_def)
next
  case (Cons r rs)
  let ?srv = "srv\<lparr>request_list := handle r (request_list srv), worker_at := Handing i Done rs\<rparr>"
  have "call_step E srv = Some (Done, ?srv)" using assms(2) Cons by (simp add: call_step_def)
  moreover have "implements L inbox outbox objs ?srv (queue_step L Hand q)"
    using assms(1,3) Cons by (simp add: implements_def handle_def)
  ultimately show ?thesis using Cons assms(2) by (intro exI [of _ ?srv]) (simp add: unfinished_def)
qed

lemma finish_implements:
  assumes "implements L inbox outbox objs srv q"
  shows "\<exists>srv'. call_steps E (unfinished srv) srv = Some (Done, srv') \<and> worker_at srv' = No_call \<and> os srv' = os srv
    \<and> implements L inbox outbox objs srv' (q\<lparr>queued := queued q @ arrived q, arrived := []\<rparr>)"
  using assms
proof (induction "unfinished srv" arbitrary: srv q)
  case 0
  then have "worker_at srv = No_call" "arrived q = []" using implements_parts(5) [OF 0(2)] by (auto simp: unfinished_def)
  then show ?case using 0 by (intro exI [of _ srv]) (simp add: implements_def)
next
  case (Suc n)
  then obtain i where i: "i \<in> dom objs" "worker_at srv = Handing i Done (arrived q)"
    using implements_parts(5) [OF Suc(3)] by (auto simp: unfinished_def)
  obtain srv1 where 1: "call_step E srv = Some (Done, srv1)" "implements L inbox outbox objs srv1 (queue_step L Hand q)"
    "os srv1 = os srv" "unfinished srv = Suc (unfinished srv1)"
    using worker_implements [OF Suc(3) i(2,1), of E] by blast
  then have n: "n = unfinished srv1" using Suc(2) by simp
  obtain srv' where 2: "call_steps E (unfinished srv1) srv1 = Some (Done, srv')" "worker_at srv' = No_call" "os srv' = os srv1"
    "implements L inbox outbox objs srv' ((queue_step L Hand q)\<lparr>queued := queued (queue_step L Hand q) @ arrived (queue_step L Hand q),
       arrived := []\<rparr>)" using Suc.hyps(1) [OF n 1(2)] by blast
  have "(queue_step L Hand q)\<lparr>queued := queued (queue_step L Hand q) @ arrived (queue_step L Hand q), arrived := []\<rparr>
      = q\<lparr>queued := queued q @ arrived q, arrived := []\<rparr>" by (cases "arrived q") simp_all
  then show ?case using 1 2 by (intro exI [of _ srv']) simp
qed

lemma arrival_implements:
  assumes laws: "reads_apart (ssl E) bs open_end inbox outbox" "carries carry bs inbox outbox"
    and "in_service bs objs" "implements (boost E) inbox outbox objs srv q" "good_traffic (boost E) objs (Requests i qs)"
  shows "\<exists>srv'. server_event E carry (on_wire (Requests i qs)) srv = Some (Done, srv')
    \<and> implements (boost E) inbox outbox objs srv' (queue_step (boost E) (Requests i qs) q)"
proof -
  let ?d = "concat (map request_wire qs)"
  have t: "qs \<noteq> []" "good_amount ?d" "\<forall>r \<in> set qs. good_request (boost E) r \<and> connection r = i" using assms(5) by auto
  obtain c where c: "objs i = Some c" using assms(5) by auto
  obtain b where b: "conn_id c = i" "data_handler c \<noteq> None" "cbio c = Some b" "b \<in> bs"
    "\<And>j d. objs j = Some d \<Longrightarrow> j \<noteq> i \<Longrightarrow> cbio d \<noteq> Some b"
    by (rule in_serviceD [OF assms(3) c]) blast
  obtain srv1 where srv1: "call_steps E (unfinished srv) srv = Some (Done, srv1)" "worker_at srv1 = No_call"
    "implements (boost E) inbox outbox objs srv1 (q\<lparr>queued := queued q @ arrived q, arrived := []\<rparr>)"
    using finish_implements [OF assms(4)] by blast
  note objs = implements_parts [OF srv1(3)] and before = implementsD [OF srv1(3)]
  let ?s = "carry b ?d (os srv1)" and ?srv2 = "srv1\<lparr>os := carry b ?d (os srv1), worker_at := Entered i\<rparr>"
  have carried: "outbox b' ?s = outbox b' (os srv1)" "inbox b' ?s = inbox b' (os srv1) @ (if b' = b then ?d else [])" for b'
    using laws(2) b(4) unfolding carries_def by blast+
  have inb: "inbox b ?s = ?d" using carried(2) before(2) [OF c b(3)] by simp
  obtain s' where s': "onDataReady (boost E) (ssl E) c None [] ?s = Some (Done, None, qs, s')"
    "inbox b s' = []" "\<forall>b'. outbox b' s' = outbox b' ?s \<and> (b' \<noteq> b \<longrightarrow> inbox b' s' = inbox b' ?s)"
    by (rule arrival_queued [OF laws(1) b(4,3) _ t(1) inb]) (use t inb b(1) in \<open>auto simp: good_amount_def\<close>)
  let ?srv = "srv1\<lparr>leftovers := (leftovers srv1)(i := None), os := s', worker_at := Handing i Done qs\<rparr>"
  have "i \<in> set (connections srv1)" using objs(2) c by auto
  moreover obtain dh where "data_handler c = Some dh" using b(2) by blast
  ultimately have "notify E (OnDataReady i) (srv1\<lparr>os := ?s\<rparr>) = (Done, ?srv2)"
    using c objs(1) by (simp add: notify_def onDataReady_enter_def onDataReady_ref_def held_def)
  moreover have "call_step E ?srv2 = Some (Done, ?srv)"
    using s'(1) before(1) [OF c b(3)] c objs(1) by (simp add: call_step_def)
  ultimately have "server_event E carry (on_wire (Requests i qs)) srv = Some (Done, ?srv)"
    using srv1(1) c b(3) implements_parts(1) [OF assms(4)] by simp
  moreover have "inbox b' s' = []" if "objs j = Some d" "cbio d = Some b'" for j d b'
    using s'(2,3) carried(2) [of b'] before(2) [OF that] by (cases "b' = b") auto
  then have "implements (boost E) inbox outbox objs ?srv (queue_step (boost E) (Requests i qs) q)"
    unfolding implements_def boxes_ok_def using objs before s'(3) carried(1) c by auto
  ultimately show ?thesis by blast
qed

lemma turn_implements:
  assumes laws: "writes_apart (ssl E) bs inbox outbox" "decimal_casts (boost E)" "positional_format (boost E)"
    and "in_service bs objs" "implements (boost E) inbox outbox objs srv q" "good_queue (boost E) objs q"
  shows "\<exists>srv'. server_event E carry Main_turn srv = Some (Done, srv') \<and> implements (boost E) inbox outbox objs srv' (queue_step (boost E) Answer q)"
proof (cases "turn q")
  note objs = implements_parts [OF assms(5)]
  {
    case Free
    then show ?thesis
    proof (cases "queued q")
      case Nil
      then show ?thesis using assms(5) Free objs by (simp add: main_step_def getNextRequest_def)
    next
      case (Cons r rs)
      let ?srv = "srv\<lparr>request_list := rs, main_at := Taken r\<rparr>"
      have "server_event E carry Main_turn srv = Some (Done, ?srv)" using Cons Free objs by (simp add: main_step_def getNextRequest_def)
      moreover have "implements (boost E) inbox outbox objs ?srv (queue_step (boost E) Answer q)"
        using assms(5) Cons Free by (simp add: implements_def)
      ultimately show ?thesis by blast
    qed
  next
    case (Took r)
    then have r: "answerable r" "connection r \<in> dom objs" using assms(6) by (simp_all add: good_queue_def)
    then have "held srv (connection r)" using objs(2) by (simp add: held_def)
    then have "server_event E carry Main_turn srv
        = Some (Done, srv\<lparr>main_at := Serving (connection r) (map (Some \<circ> Write) (writes_of (boost E) r))\<rparr>)"
      using Took objs(4) r(1) by (simp add: main_step_def answer_is_site answerable_def)
    moreover have "implements (boost E) inbox outbox objs
        (srv\<lparr>main_at := Serving (connection r) (map (Some \<circ> Write) (writes_of (boost E) r))\<rparr>) (queue_step (boost E) Answer q)"
      using assms(5) Took by (simp add: implements_def cong: if_cong)
    ultimately show ?thesis by blast
  next
    case (Writing r ws xs)
    then have r: "answerable r" "connection r \<in> dom objs" "ws @ xs = writes_of (boost E) r" using assms(6) by (simp_all add: good_queue_def)
    obtain c where c: "objs (connection r) = Some c" using r(2) by blast
    obtain b where b: "conn_id c = connection r" "data_handler c \<noteq> None" "cbio c = Some b" "b \<in> bs"
      "\<And>j d. objs j = Some d \<Longrightarrow> j \<noteq> connection r \<Longrightarrow> cbio d \<noteq> Some b"
      by (rule in_serviceD [OF assms(4) c]) blast
    have held: "held srv' (connection r)" if "connections srv' = connections srv" for srv' :: "'a server"
      using objs(2) r(2) that by (simp add: held_def)
    show ?thesis
    proof (cases xs)
      case Nil
      let ?srv = "srv\<lparr>main_at := Fetching\<rparr>"
      have "server_event E carry Main_turn srv = Some (Done, ?srv)"
        using held [of ?srv] objs(4) Writing Nil by (simp add: main_step_def drop_connection_def)
      moreover have "concat ws = reply_text (boost E) r" using r(3) concat_writes Nil by (metis append_Nil2)
      then have "implements (boost E) inbox outbox objs ?srv (queue_step (boost E) Answer q)"
        using assms(5) Writing Nil unfolding implements_def boxes_ok_def by auto
      ultimately show ?thesis by blast
    next
      case (Cons x xs')
      have "x \<in> set (writes_of (boost E) r)" unfolding r(3) [symmetric] Cons by simp
      then have x: "x \<noteq> []" "length x < INT_MAX" using writes_small [OF laws(2,3) r(1)] by blast+
      obtain s' where s': "connection_write (ssl E) c x (os srv) = (Inr (word_of_int (int (length x)), 0), s')"
        "\<forall>b'. inbox b' s' = inbox b' (os srv) \<and> outbox b' s' = outbox b' (os srv) @ (if b' = b then x else [])"
        by (rule write_delivers [OF laws(1) b(4,3) x])
      let ?srv = "srv\<lparr>objects := (objects srv)(connection r \<mapsto> c), os := s', main_at := Serving (connection r) (map (Some \<circ> Write) xs')\<rparr>"
      have "server_event E carry Main_turn srv = Some (Done, ?srv)"
        using objs c s'(1) Writing Cons by (simp add: main_step_def perform_reply_def)
      moreover have "implements (boost E) inbox outbox objs ?srv (queue_step (boost E) Answer q)"
        unfolding implements_def boxes_ok_def
      proof (intro conjI allI impI)
        show "objects ?srv = objs" using c by (simp add: objs(1) fun_upd_idem)
        fix j d b' assume d: "objs j = Some d \<and> cbio d = Some b'"
        then have "objs j = Some d" "cbio d = Some b'" by simp_all
        note implementsD [OF assms(5) this]
        moreover have "b' = b \<longleftrightarrow> connection r = j" using d b(3,5) c by auto
        ultimately show "leftovers ?srv j = None" "inbox b' (os ?srv) = []"
          "outbox b' (os ?srv) = concat (map (reply_text (boost E)) (filter (\<lambda>r. connection r = j) (answered (queue_step (boost E) Answer q))))
            @ written_for j (turn (queue_step (boost E) Answer q))"
          using s'(2) by (auto simp: Writing Cons)
      qed (use objs Writing Cons in simp_all)
      ultimately show ?thesis by blast
    qed
  }
qed

lemma traffic_implements:
  assumes laws: "reads_apart (ssl E) bs open_end inbox outbox" "writes_apart (ssl E) bs inbox outbox" "carries carry bs inbox outbox"
      "decimal_casts (boost E)" "positional_format (boost E)"
    and "in_service bs objs" "implements (boost E) inbox outbox objs srv q" "good_queue (boost E) objs q"
    and "\<forall>t \<in> set ts. good_traffic (boost E) objs t"
  shows "\<exists>srv'. server_events E carry (map on_wire ts) srv = Some (replicate (length ts) Done, srv')
    \<and> implements (boost E) inbox outbox objs srv' (fold (queue_step (boost E)) ts q)"
  using assms(7-9)
proof (induction ts arbitrary: srv q)
  case (Cons t ts)
  have t: "good_traffic (boost E) objs t" using Cons.prems(3) by simp
  obtain srv1 where 1: "server_event E carry (on_wire t) srv = Some (Done, srv1)"
    "implements (boost E) inbox outbox objs srv1 (queue_step (boost E) t q)"
  proof (cases t)
    case (Requests i qs)
    with arrival_implements [OF laws(1,3) assms(6) Cons.prems(1)] t that show ?thesis by blast
  next
    case Hand
    show ?thesis
    proof (cases "worker_at srv = No_call")
      case True
      then have "arrived q = []" using implements_parts(5) [OF Cons.prems(1)] by auto
      then show ?thesis using that [of srv] Hand Cons.prems(1) True by simp
    next
      case False
      then obtain i where i: "i \<in> dom objs" "worker_at srv = Handing i Done (arrived q)"
        using implements_parts(5) [OF Cons.prems(1)] by blast
      with worker_implements [OF Cons.prems(1) i(2,1), of E] that Hand show ?thesis by auto
    qed
  next
    case Answer
    with turn_implements [OF laws(2,4,5) assms(6) Cons.prems(1,2), of carry] that show ?thesis by auto
  qed
  from Cons.IH [OF 1(2) good_queue_step [OF Cons.prems(2) t]] Cons.prems(3) obtain srv' where
    "server_events E carry (map on_wire ts) srv1 = Some (replicate (length ts) Done, srv')"
    "implements (boost E) inbox outbox objs srv' (fold (queue_step (boost E)) ts (queue_step (boost E) t q))" by auto
  with 1(1) show ?case by (intro exI [of _ srv']) simp
qed simp

lemma good_empty_queue: "good_queue L objs empty_queue"
  by (simp add: good_queue_def empty_queue_def)

text \<open>
  C1: the server is a queue, for requests of the usual form that arrive whole. However the arrivals on any number of connections,
  the steps of the worker and the steps of the main thread interleave, every step goes well; the requests are taken in
  the order of their arrival; and on every connection the answers to the requests of that connection, and nothing else, are
  written, in their order: for each the page that the site has for it, the last one as far as the main thread has
  come. What is required: each notification finds one or more whole requests, whose total length is not a multiple of 4096 (there
  \<open>read\<close> loses a byte, \<open>read_counts\<close>); the requests are of the usual form, whose bodies do not start with white space (those are
  lost, \<open>white_space_of_body_is_lost\<close>); none asks for \<^verbatim>\<open>/close_connection\<close>; and every write of the server is complete.
\<close>

theorem server_is_a_queue:
  assumes "reads_apart (ssl E) bs open_end inbox outbox" "writes_apart (ssl E) bs inbox outbox" "carries carry bs inbox outbox"
    and "decimal_casts (boost E)" "positional_format (boost E)"
    and "in_service bs (objects srv)" "implements (boost E) inbox outbox (objects srv) srv empty_queue"
    and "\<forall>t \<in> set ts. good_traffic (boost E) (objects srv) t"
  shows "\<exists>srv'. server_events E carry (map on_wire ts) srv = Some (replicate (length ts) Done, srv')
    \<and> implements (boost E) inbox outbox (objects srv) srv' (queue_run (boost E) ts)
    \<and> all_requests (queue_run (boost E) ts) = concat (map requests_in ts)"
  using traffic_implements [OF assms(1-7) good_empty_queue assms(8)] queue_run_all [of "boost E" ts] by (simp add: queue_run_def)

section \<open>A client and the server\<close>

lemma write_request_sent:
  assumes "perl_regex re_match" "decimal_casts L" "positional_format L" "sendable L p r"
    and "writes_apart lib bs inbox outbox" "b \<in> bs" "cbio c = Some b"
  obtains s' where "write_request re_match L lib c r s = Some (Inr (), s')"
    "inbox b s' = inbox b s" "outbox b s' = outbox b s @ request_wire (sent_request i p r)"
proof -
  let ?d = "request_wire (sent_request i p r)"
  have d: "?d = request_wire (sent_request 0 p r)" "?d \<noteq> []" by (simp_all add: request_wire_def start_line_def sent_request_def)
  then have "length ?d < INT_MAX" using assms(4) by (simp add: sendable_def)
  from write_delivers [OF assms(5-7) d(2) this, of s] obtain s' where
    "connection_write lib c ?d s = (Inr (word_of_int (int (length ?d)), 0), s')"
    "\<forall>b'. inbox b' s' = inbox b' s \<and> outbox b' s' = outbox b' s @ (if b' = b then ?d else [])" .
  then show ?thesis
    by (intro that [of s']) (simp_all add: write_request_def damon_serialize_wire [OF assms(1-3) sendable_client [OF assms(4)], of i])
qed

lemma write_requests_sent:
  assumes laws: "perl_regex re_match" "decimal_casts L" "positional_format L"
    and conn: "writes_apart lib bs inbox outbox" "b \<in> bs" "cbio c = Some b"
    and "\<forall>r \<in> set rs. sendable L (parts r) r"
  shows "\<exists>s'. write_requests re_match L lib c rs s = Some (Inr (), s') \<and> inbox b s' = inbox b s
    \<and> outbox b s' = outbox b s @ concat (map (\<lambda>r. request_wire (sent_request i (parts r) r)) rs)"
  using assms(7)
proof (induction rs arbitrary: s)
  case (Cons r rs)
  then have "sendable L (parts r) r" by simp
  from write_request_sent [OF laws this conn, of s i] obtain s1 where s1: "write_request re_match L lib c r s = Some (Inr (), s1)"
    "inbox b s1 = inbox b s" "outbox b s1 = outbox b s @ request_wire (sent_request i (parts r) r)" .
  from Cons.IH [of s1] Cons.prems obtain s' where "write_requests re_match L lib c rs s1 = Some (Inr (), s')" "inbox b s' = inbox b s1"
    "outbox b s' = outbox b s1 @ concat (map (\<lambda>r. request_wire (sent_request i (parts r) r)) rs)" by auto
  with s1 show ?case by (intro exI [of _ s']) simp
qed simp

text \<open>All bytes that arrive on the connection \<open>i\<close>.\<close>

fun bytes_on :: "nat \<Rightarrow> event list \<Rightarrow> string" where
  "bytes_on i [] = []"
| "bytes_on i (Arrival j d # es) = (if j = i then d else []) @ bytes_on i es"
| "bytes_on i (Worker_turn # es) = bytes_on i es"
| "bytes_on i (Main_turn # es) = bytes_on i es"

lemma bytes_on_traffic:
  "\<forall>t \<in> set ts. good_traffic L objs t \<Longrightarrow> bytes_on i (map on_wire ts)
    = concat (map request_wire (filter (\<lambda>r. connection r = i) (concat (map requests_in ts))))"
proof (induction ts)
  case (Cons t ts)
  show ?case
  proof (cases t)
    case (Requests j qs)
    then have "filter (\<lambda>r. connection r = i) qs = (if j = i then qs else [])"
      using Cons.prems by (cases "j = i") (auto simp: filter_id_conv filter_empty_conv)
    with Requests Cons show ?thesis by simp
  qed (use Cons in simp_all)
qed simp

text \<open>
  C2: a client of Damon and the server of Mesothelae, among other clients. The client writes its requests to its connection;
  what it wrote arrives at the server in one or more pieces of whole requests, among the requests of other clients, in
  any interleaving with the steps of the server. When the server has answered everything, what it wrote on this connection comes
  back, and the client reads exactly the page of the site for each of its requests, in the order of the requests, and has nothing
  left over. What is required: for the server what C1 requires; the requests of the client are such as \<open>sendable\<close> describes (a URL
  of the usual form, header fields of one line, a body that does not start with white space, less than 2 GiB) and
  none is for \<^verbatim>\<open>/send_leading_whitespace\<close>; the writes of the client are complete; and the whole reply is there when the client
  reads, in an amount that is not a multiple of 4096 bytes. (What becomes of a reply that is there in part is
  \<open>unfinished_header_never_returns\<close> and \<open>unfinished_body_is_dropped\<close>.)
\<close>

theorem clients_get_their_pages:
  assumes laws: "perl_regex re_match" "decimal_casts (boost E)" "positional_format (boost E)"
    and client: "cbio c = Some b" "writes_apart lib {b} cin cout" "carries ccarry {b} cin cout" "response_source lib b client_end (cin b)"
      "cin b s = []" "cout b s = []"
    and server: "reads_apart (ssl E) bs open_end inbox outbox" "writes_apart (ssl E) bs inbox outbox" "carries carry bs inbox outbox"
      "in_service bs (objects srv)" "implements (boost E) inbox outbox (objects srv) srv empty_queue"
    and traffic: "\<forall>t \<in> set ts. good_traffic (boost E) (objects srv) t"
      "answered (queue_run (boost E) ts) = concat (map requests_in ts)"
    and mine: "objects srv i = Some d" "cbio d = Some b'" "rs \<noteq> []"
      "filter (\<lambda>q. connection q = i) (concat (map requests_in ts)) = map (\<lambda>r. sent_request i (parts r) r) rs"
      "\<forall>r \<in> set rs. sendable (boost E) (parts r) r \<and> \<not> white_space_before (sent_request i (parts r) r)"
      "good_amount (concat (map (\<lambda>r. serialize (boost E) (response_for (sent_request i (parts r) r))) rs))"
  shows "\<exists>s1 srv' s2. write_requests re_match (boost E) lib c rs s = Some (Inr (), s1) \<and> cout b s1 = bytes_on i (map on_wire ts)
    \<and> server_events E carry (map on_wire ts) srv = Some (replicate (length ts) Done, srv')
    \<and> receive_responses (boost E) lib c (length rs) None (ccarry b (outbox b' (os srv')) s1)
        = Some (Inr (map (\<lambda>r. as_received (response_for (sent_request i (parts r) r))) rs), None, s2) \<and> cin b s2 = []"
proof -
  let ?q = "\<lambda>r. sent_request i (parts r) r" and ?L = "boost E"
  have "\<forall>r \<in> set rs. sendable ?L (parts r) r" using mine(5) by blast
  from write_requests_sent [OF laws client(2) _ client(1) this, of s i] client(5,6) obtain s1 where
    s1: "write_requests re_match ?L lib c rs s = Some (Inr (), s1)" "cin b s1 = []" "cout b s1 = concat (map (request_wire \<circ> ?q) rs)"
    by (auto simp: comp_def)
  from traffic_implements [OF server(1-3) laws(2,3) server(4,5) good_empty_queue traffic(1)] obtain srv' where
    srv': "server_events E carry (map on_wire ts) srv = Some (replicate (length ts) Done, srv')"
      "implements ?L inbox outbox (objects srv) srv' (queue_run ?L ts)" by (auto simp: queue_run_def)
  have "in_turn (turn (queue_run ?L ts)) = []" using queue_run_all [of ?L ts] traffic(2) by (simp add: all_requests_def)
  then have "written_for i (turn (queue_run ?L ts)) = []" by (cases "turn (queue_run ?L ts)") simp_all
  then have "outbox b' (os srv') = concat (map (reply_text ?L) (map ?q rs))"
    using implementsD(3) [OF srv'(2) mine(1,2)] mine(4) traffic(2) by simp
  also have "map (reply_text ?L) (map ?q rs) = map (serialize ?L) (map (response_for \<circ> ?q) rs)"
    using mine(5) by (simp add: reply_text_def)
  finally have out: "outbox b' (os srv') = concat (map (serialize ?L) (map (response_for \<circ> ?q) rs))" .
  let ?s = "ccarry b (outbox b' (os srv')) s1"
  have pending: "cin b ?s = concat (map (serialize ?L) (map (response_for \<circ> ?q) rs))"
    using client(3) s1(2) out unfolding carries_def by simp
  have "protocol_and_version (?q r) = ''HTTP/1.1''" for r by (simp add: sent_request_def)
  then have good: "\<forall>r \<in> set (map (response_for \<circ> ?q) rs). good_response ?L r" by (simp add: site_responses_good)
  have amount: "length (cin b ?s) mod 4096 \<noteq> 0" "length (cin b ?s) < 2 ^ 63"
    using mine(6) unfolding good_amount_def pending by (simp_all add: comp_def)
  obtain s2 where "receive_responses ?L lib c (length (map (response_for \<circ> ?q) rs)) None ?s
      = Some (Inr (map as_received (map (response_for \<circ> ?q) rs)), None, s2)" "cin b s2 = []"
    using receive_pending [OF laws(2,3) client(4,1) good _ pending amount] mine(3) by auto
  moreover have "cout b s1 = bytes_on i (map on_wire ts)"
    unfolding s1(3) bytes_on_traffic [OF traffic(1)] mine(4) by (simp add: comp_def)
  ultimately show ?thesis using s1(1) srv'(1) by (intro exI [of _ s1] exI [of _ srv'] exI [of _ s2]) (simp add: comp_def)
qed

section \<open>Two clients\<close>

text \<open>Connections in memory: for each BIO the bytes that have arrived, and the bytes that were written.\<close>

definition wire_ssl :: "(nat \<Rightarrow> string \<times> string) openssl" where
  "wire_ssl = \<lparr>BIO_reset = (\<lambda>_ s. s),
     BIO_read = (\<lambda>p n s. if fst (s p) = [] then ((-1, []), s)
       else ((int (length (take n (fst (s p)))), take n (fst (s p))), s(p := (drop n (fst (s p)), snd (s p))))),
     BIO_write = (\<lambda>p d s. (int (length d), s(p := (fst (s p), snd (s p) @ d)))), BIO_pending = (\<lambda>p s. length (fst (s p))),
     BIO_should_retry = (\<lambda>_ _. True), BIO_should_read = (\<lambda>_ _. False), BIO_should_write = (\<lambda>_ _. False),
     BIO_do_accept = (\<lambda>_ s. (1, s)), BIO_pop = (\<lambda>_ s. (None, s)), BIO_get_ssl = (\<lambda>_ _. None), BIO_do_handshake = (\<lambda>_ s. (1, s)),
     BIO_do_connect = (\<lambda>_ s. (1, s)), BIO_new_accept = (\<lambda>_ s. (Some 1, s)), BIO_new_connect = (\<lambda>_ s. (Some 1, s)),
     BIO_new_ssl = (\<lambda>_ s. (None, s)), BIO_new_ssl_connect = (\<lambda>_ s. (None, s)), BIO_set_accept_bios = (\<lambda>_ _ s. s),
     BIO_set_conn_hostname = (\<lambda>_ _ s. s), BIO_free_all = (\<lambda>_ s. s), BIO_get_fd = (\<lambda>p _. int p),
     ERR_get_error_line_data = (\<lambda>s. (no_error, s))\<rparr>"

fun wire_in :: "(nat \<Rightarrow> string \<times> string) box" where
  "wire_in (ConnectionBIO p) s = fst (s p)"
| "wire_in (AcceptBio p) s = []"

fun wire_out :: "(nat \<Rightarrow> string \<times> string) box" where
  "wire_out (ConnectionBIO p) s = snd (s p)"
| "wire_out (AcceptBio p) s = []"

definition wire_carry :: "bio \<Rightarrow> string \<Rightarrow> (nat \<Rightarrow> string \<times> string) \<Rightarrow> nat \<Rightarrow> string \<times> string" where
  "wire_carry b d s = s(getBIO b := (fst (s (getBIO b)) @ d, snd (s (getBIO b))))"

lemma wire_frame: "wire_in b' (s(p := (x, y))) = (if b' = ConnectionBIO p then x else wire_in b' s)"
  "wire_out b' (s(p := (x, y))) = (if b' = ConnectionBIO p then y else wire_out b' s)"
  by (cases b'; simp)+

lemma wire_laws:
  "reads_apart wire_ssl (range ConnectionBIO) True wire_in wire_out" "writes_apart wire_ssl (range ConnectionBIO) wire_in wire_out"
  "carries wire_carry (range ConnectionBIO) wire_in wire_out" "response_source wire_ssl (ConnectionBIO p) True (wire_in (ConnectionBIO p))"
  by (auto simp: reads_apart_def writes_apart_def carries_def response_source_def drains_def wire_ssl_def wire_carry_def wire_frame
      bio_read_def bio_write_def bio_poll_def bio_should_read_def bio_should_write_def bio_should_retry_def)

definition wire_connection :: "nat \<Rightarrow> connection" where
  "wire_connection i = \<lparr>conn_id = i, cbio = Some (ConnectionBIO (5 + i)), data_handler = Some 0, cfd = int (5 + i), error_handler = None\<rparr>"

definition wire_environment :: "(nat \<Rightarrow> string \<times> string) environment" where
  "wire_environment = \<lparr>boost = boost_ref, ssl = wire_ssl, validate = validate_default, peer = (\<lambda>_. 0)\<rparr>"

definition wire_server :: "(nat \<Rightarrow> string \<times> string) server" where
  "wire_server = \<lparr>objects = [0 \<mapsto> wire_connection 0, 1 \<mapsto> wire_connection 1], leftovers = (\<lambda>_. None), connections = [0, 1],
     request_list = [], listening = \<lparr>listener_id = 0, lbio = Some (AcceptBio 4), new_connection_handler = Some 0\<rparr>,
     hnd = ConnectionHandler, os = (\<lambda>_. ([], [])), next_object = 2, main_at = Fetching, worker_at = No_call\<rparr>"

lemma wire_server_laws: "in_service (range ConnectionBIO) (objects wire_server)"
  "implements boost_ref wire_in wire_out (objects wire_server) wire_server empty_queue"
  by (auto simp: in_service_def implements_def boxes_ok_def empty_queue_def wire_server_def wire_connection_def split: if_splits)

text \<open>
  One client asks for the index page, the other one, before it, for a page that does not exist and the root. The main thread takes
  its first request while the worker has not handed over the second one.
\<close>

definition index_url :: url_parts where
  "index_url = plain_url\<lparr>user := None, path := ''/index.html''\<rparr>"

definition index_request :: damon_request where
  "index_request = DamonRequest (url_text index_url) (Method Get) No_authorization"

definition two_clients :: "traffic list" where
  "two_clients = [Requests 1 [example_get\<lparr>connection := 1, url := ''/none''\<rparr>, example_get\<lparr>connection := 1\<rparr>], Hand, Answer, Answer,
     Requests 0 [sent_request 0 index_url index_request], Answer, Hand,
     Answer, Answer, Answer, Answer, Answer, Answer, Answer, Answer, Answer]"

lemma index_request_good: "client_request boost_ref index_url index_request"
  by (simp add: client_request_def good_url_def index_url_def index_request_def plain_url_def sample_url_def avoids_def
      DamonRequest_def no_space_def isIgnorableWhiteSpace_def user_name_def pass_word_def padded_size_def clean_start_def)

lemma index_sent: "sent_request 0 index_url index_request = \<lparr>connection = 0, verb = ''GET'', url = ''/index.html'',
    protocol_and_version = ''HTTP/1.1'', header_fields = [Header ''Host'' ''example.com:8080'', Header ''Content-Length'' ''0''], body = []\<rparr>"
proof -
  have "show_nat 0 = ''0''" by code_simp
  then show ?thesis
    by (simp add: sent_request_def sent_headers_def index_request_def index_url_def plain_url_def sample_url_def DamonRequest_def
        port_text_def show_8080)
qed

lemma index_request_sendable: "sendable boost_ref index_url index_request"
  using index_request_good by (simp add: sendable_def index_sent request_wire_def start_line_def header_block_Cons header_line_def INT_MAX_def)

lemma wires_good:
  "good_request boost_ref (example_get\<lparr>connection := i, url := ''/none''\<rparr>)" "good_request boost_ref (example_get\<lparr>connection := i\<rparr>)"
  using example_good(1)
  by (simp_all add: good_request_def good_start_line_def good_body_def example_get_def Request_def isIgnorableWhiteSpace_def)

lemma two_clients_good: "\<forall>t \<in> set two_clients. good_traffic boost_ref (objects wire_server) t"
  using wires_good sent_request_good [OF boost_ref_laws(1) index_request_good, of 0]
  by (auto simp: two_clients_def index_sent wire_server_def stays_open_def good_amount_def request_wire_def start_line_def example_get_def
      Request_def header_block_Cons header_line_def)

lemma short_run:
  assumes "writes_of L a = [x]" "writes_of L b = [y]" "writes_of L c = [z]"
  shows "queue_run L [Requests i [a, b], Hand, Answer, Answer, Requests j [c], Answer, Hand,
     Answer, Answer, Answer, Answer, Answer, Answer, Answer, Answer, Answer]
    = \<lparr>arrived = [], queued = [], turn = Free, answered = [a, b, c]\<rparr>"
  by (simp add: queue_run_def empty_queue_def assms)

lemma two_clients_answered:
  "queue_run L two_clients = \<lparr>arrived = [], queued = [], turn = Free, answered = concat (map requests_in two_clients)\<rparr>"
proof -
  have w: "writes_of L r = [serialize L (response_for r)]" if "\<not> white_space_before r" for r using that by (simp add: writes_of_def)
  have "\<not> white_space_before (example_get\<lparr>connection := 1, url := ''/none''\<rparr>)" "\<not> white_space_before (example_get\<lparr>connection := 1\<rparr>)"
    "\<not> white_space_before (sent_request 0 index_url index_request)"
    by (simp_all add: white_space_before_def index_sent example_get_def Request_def)
  from short_run [OF this [THEN w]] show ?thesis unfolding two_clients_def by simp
qed

definition hello_page :: string where
  "hello_page = ''<html><body><p>Hello, world!</p></body></html>''"

lemma index_reply:
  "response_for (sent_request 0 index_url index_request)
    = \<lparr>rprotocol_and_version = ''HTTP/1.1'', status_code = 200, reason_string = ''OK'',
        rheader_fields = [Header ''Content-Type'' ''text/html''], rbody = hello_page\<rparr>"
  "serialize boost_ref (response_for (sent_request 0 index_url index_request))
    = ''HTTP/1.1 200 OK'' @ CRLF @ ''Content-Type: text/html'' @ CRLF @ ''Content-Length: 46'' @ CRLF @ CRLF @ hello_page"
proof -
  show r: "response_for (sent_request 0 index_url index_request)
    = \<lparr>rprotocol_and_version = ''HTTP/1.1'', status_code = 200, reason_string = ''OK'',
        rheader_fields = [Header ''Content-Type'' ''text/html''], rbody = hello_page\<rparr>"
    by (simp add: index_sent response_for_def page_for_def site_def index_page_def Response_def site_reasons hello_page_def)
  have "show_nat (length hello_page) = ''46''" by (simp add: hello_page_def) code_simp
  then show "serialize boost_ref (response_for (sent_request 0 index_url index_request))
    = ''HTTP/1.1 200 OK'' @ CRLF @ ''Content-Type: text/html'' @ CRLF @ ''Content-Length: 46'' @ CRLF @ CRLF @ hello_page"
    unfolding r serialized [OF boost_ref_laws(2,1)]
    by (simp add: status_line_def wire_headers_def with_content_length_def header_block_Cons header_line_def show_200)
qed

lemma served: "implements boost_ref wire_in wire_out (objects wire_server) srv (queue_run boost_ref two_clients) \<Longrightarrow>
    wire_out (ConnectionBIO 5) (os srv) = reply_text boost_ref (sent_request 0 index_url index_request)
    \<and> wire_out (ConnectionBIO 6) (os srv) = concat (map (reply_text boost_ref) (requests_in (hd two_clients)))"
  using implementsD [of boost_ref wire_in wire_out "objects wire_server" srv "queue_run boost_ref two_clients" 0 "wire_connection 0" "ConnectionBIO 5"]
    implementsD [of boost_ref wire_in wire_out "objects wire_server" srv "queue_run boost_ref two_clients" 1 "wire_connection 1" "ConnectionBIO 6"]
  by (simp add: two_clients_answered wire_server_def wire_connection_def) (simp add: two_clients_def index_sent)

theorem server_is_a_queue_witness:
  "\<exists>srv'. server_events wire_environment wire_carry (map on_wire two_clients) wire_server = Some (replicate (length two_clients) Done, srv')
    \<and> request_list srv' = [] \<and> wire_out (ConnectionBIO 5) (os srv')
      = ''HTTP/1.1 200 OK'' @ CRLF @ ''Content-Type: text/html'' @ CRLF @ ''Content-Length: 46'' @ CRLF @ CRLF @ hello_page
    \<and> wire_out (ConnectionBIO 6) (os srv') = concat (map (reply_text boost_ref) (requests_in (hd two_clients)))"
proof -
  have E: "ssl wire_environment = wire_ssl" "boost wire_environment = boost_ref" by (simp_all add: wire_environment_def)
  obtain srv' where s: "server_events wire_environment wire_carry (map on_wire two_clients) wire_server
      = Some (replicate (length two_clients) Done, srv')"
    "implements boost_ref wire_in wire_out (objects wire_server) srv' (queue_run boost_ref two_clients)"
    using server_is_a_queue [of wire_environment "range ConnectionBIO" True wire_in wire_out wire_carry wire_server two_clients]
      wire_laws(1-3) wire_server_laws two_clients_good boost_ref_laws(1,2) unfolding E by blast
  have "request_list srv' = []" using s(2) by (simp add: implements_def two_clients_answered)
  moreover have "\<not> white_space_before (sent_request 0 index_url index_request)" by (simp add: white_space_before_def index_sent)
  ultimately show ?thesis using s(1) served [OF s(2)] index_reply(2) by (intro exI [of _ srv']) (simp add: reply_text_def)
qed

theorem clients_get_their_pages_witness:
  "\<exists>s1 srv' s2. write_requests regex_match boost_ref wire_ssl (wire_connection 3) [index_request] (\<lambda>_. ([], [])) = Some (Inr (), s1)
    \<and> server_events wire_environment wire_carry (map on_wire two_clients) wire_server = Some (replicate (length two_clients) Done, srv')
    \<and> receive_responses boost_ref wire_ssl (wire_connection 3) 1 None (wire_carry (ConnectionBIO 8) (wire_out (ConnectionBIO 5) (os srv')) s1)
      = Some (Inr [\<lparr>rprotocol_and_version = ''HTTP/1.1'', status_code = 200, reason_string = ''OK'',
          rheader_fields = [Header ''Content-Type'' ''text/html'', Header ''Content-Length'' ''46''], rbody = hello_page\<rparr>], None, s2)"
proof -
  let ?w = "wire_connection 3" and ?q = "\<lambda>r. sent_request 0 index_url r"
  have E: "ssl wire_environment = wire_ssl" "boost wire_environment = boost_ref" by (simp_all add: wire_environment_def)
  have single: "writes_apart wire_ssl {ConnectionBIO 8} wire_in wire_out" "carries wire_carry {ConnectionBIO 8} wire_in wire_out"
    using wire_laws(2,3) by (simp_all add: writes_apart_def carries_def)
  have c: "cbio ?w = Some (ConnectionBIO 8)" by (simp add: wire_connection_def)
  have mine: "filter (\<lambda>q. connection q = 0) (concat (map requests_in two_clients)) = map ?q [index_request]"
    by (simp add: two_clients_def index_sent)
  have "as_received (response_for (?q index_request)) = \<lparr>rprotocol_and_version = ''HTTP/1.1'', status_code = 200, reason_string = ''OK'',
      rheader_fields = [Header ''Content-Type'' ''text/html'', Header ''Content-Length'' ''46''], rbody = hello_page\<rparr>"
  proof -
    have "show_nat (length hello_page) = ''46''" by (simp add: hello_page_def) code_simp
    then show ?thesis by (simp add: index_reply(1) as_received_def wire_headers_def with_content_length_def)
  qed
  moreover have re: "perl_regex regex_match" by (simp add: perl_regex_def)
  have "length hello_page = 46" by (simp add: hello_page_def)
  then have amount: "good_amount (concat (map (\<lambda>r. serialize boost_ref (response_for (?q r))) [index_request]))"
    by (simp add: index_reply(2) good_amount_def)
  have d: "objects wire_server 0 = Some (wire_connection 0)" "cbio (wire_connection 0) = Some (ConnectionBIO 5)"
    by (simp_all add: wire_server_def wire_connection_def)
  have asked: "\<forall>r \<in> set [index_request]. sendable boost_ref index_url r \<and> \<not> white_space_before (?q r)"
    using index_request_sendable by (simp add: white_space_before_def index_sent)
  have fresh: "wire_in (ConnectionBIO 8) (\<lambda>_. ([], [])) = []" "wire_out (ConnectionBIO 8) (\<lambda>_. ([], [])) = []" by simp_all
  have "answered (queue_run boost_ref two_clients) = concat (map requests_in two_clients)" "[index_request] \<noteq> []" by (simp_all add: two_clients_answered)
  note clients_get_their_pages [where E = wire_environment and s = "\<lambda>_. ([], [])" and cin = wire_in and cout = wire_out and i = 0
      and parts = "\<lambda>_. index_url" and inbox = wire_in and outbox = wire_out and ccarry = wire_carry and rs = "[index_request]",
      unfolded E, OF re boost_ref_laws(1,2) c single wire_laws(4) fresh
      wire_laws(1-3) wire_server_laws two_clients_good this(1) d this(2) mine asked amount]
  ultimately show ?thesis by (fastforce simp del: write_requests.simps receive_responses.simps server_events.simps wire_out.simps)
qed

end
